(* ===== verification/Prelude.thy ===== *)
theory Prelude
  imports Main "HOL-Library.Sublist" "HOL-Library.List_Lexorder" "HOL-Library.Char_ord"
    "HOL-Library.Multiset"
begin

text \<open>
  What the components share: byte strings and the functions of Go's \<open>strings\<close> package
  the code calls (split, join, trim, ASCII case mapping), 64-bit signed arithmetic, error
  values with Go's wrapping, and the sequencing of fallible operations over a state.
  Go strings and byte slices are both lists of bytes, so both are \<^typ>\<open>char list\<close>; Go's
  string order is the byte-wise lexicographic one, which \<open>List_Lexorder\<close> and
  \<open>Char_ord\<close> give.
\<close>

named_theorems str_simps \<open>equations about byte strings\<close>
named_theorems seq_simps \<open>equations about sequencing\<close>

type_synonym bytes = "char list"

section \<open>Strings\<close>

definition has_prefix :: "string \<Rightarrow> string \<Rightarrow> bool" where
  "has_prefix s pre \<longleftrightarrow> prefix pre s"

definition has_suffix :: "string \<Rightarrow> string \<Rightarrow> bool" where
  "has_suffix s suf \<longleftrightarrow> suffix suf s"

text \<open>\<open>strings.TrimSuffix\<close>: at most one occurrence is removed.\<close>

definition trim_suffix :: "string \<Rightarrow> string \<Rightarrow> string" where
  "trim_suffix s suf = (if suffix suf s then take (length s - length suf) s else s)"

text \<open>\<open>strings.Split\<close> with a one-byte separator; the empty string has one empty part.\<close>

fun split_on :: "char \<Rightarrow> string \<Rightarrow> string list" where
  "split_on c [] = [[]]"
| "split_on c (x # xs) =
     (if x = c then [] # split_on c xs
      else (case split_on c xs of [] \<Rightarrow> [[x]] | y # ys \<Rightarrow> (x # y) # ys))"

text \<open>\<open>strings.Join\<close>.\<close>

fun join_with :: "string \<Rightarrow> string list \<Rightarrow> string" where
  "join_with sep [] = []"
| "join_with sep [x] = x"
| "join_with sep (x # y # ys) = x @ sep @ join_with sep (y # ys)"

lemma split_on_not_Nil [simp]: "split_on c s \<noteq> []"
  by (induction s) (auto split: list.splits)

lemma split_on_no_sep: "\<forall>part \<in> set (split_on c s). c \<notin> set part"
proof (induction s)
  case Nil
  then show ?case by simp
next
  case (Cons x xs)
  then show ?case by (cases "split_on c xs") auto
qed

lemma join_split: "join_with [c] (split_on c s) = s"
proof (induction s)
  case Nil
  then show ?case by simp
next
  case (Cons x xs)
  obtain y ys where ys: "split_on c xs = y # ys"
    by (cases "split_on c xs") auto
  with Cons show ?case by (cases ys) auto
qed

lemma split_on_plain: "c \<notin> set s \<Longrightarrow> split_on c s = [s]"
  by (induction s) auto

lemma split_on_append: "c \<notin> set s \<Longrightarrow> split_on c (s @ c # t) = s # split_on c t"
  by (induction s) auto

lemma split_join:
  "xs \<noteq> [] \<Longrightarrow> \<forall>x \<in> set xs. c \<notin> set x \<Longrightarrow> split_on c (join_with [c] xs) = xs"
  by (induction "[c]" xs rule: join_with.induct) (auto simp: split_on_plain split_on_append)

lemma split_on_inj: "split_on c s = split_on c t \<Longrightarrow> s = t"
  by (metis join_split)

text \<open>Byte classes and the ASCII part of \<open>strings.ToLower\<close> and \<open>strings.ToUpper\<close>.\<close>

definition char_between :: "char \<Rightarrow> char \<Rightarrow> char \<Rightarrow> bool" where
  "char_between lo hi c \<longleftrightarrow> (of_char lo :: nat) \<le> of_char c \<and> (of_char c :: nat) \<le> of_char hi"

definition is_ascii :: "string \<Rightarrow> bool" where
  "is_ascii s \<longleftrightarrow> list_all (\<lambda>c. (of_char c :: nat) < 128) s"

definition lower_char :: "char \<Rightarrow> char" where
  "lower_char c = (if char_between CHR ''A'' CHR ''Z'' c then char_of ((of_char c :: nat) + 32) else c)"

definition upper_char :: "char \<Rightarrow> char" where
  "upper_char c = (if char_between CHR ''a'' CHR ''z'' c then char_of ((of_char c :: nat) - 32) else c)"

lemma of_char_less: "(of_char c :: nat) < 256"
  using nat_of_char_less_256 by simp

lemma lower_char_idem [simp]: "lower_char (lower_char c) = lower_char c"
  by (auto simp: lower_char_def char_between_def)

section \<open>64-bit signed integers\<close>

text \<open>Go's \<open>int64\<close> wraps around in two's complement; \<open>wrap64\<close> is the wrap.\<close>

definition wrap64 :: "int \<Rightarrow> int" where
  "wrap64 x = (x + 2 ^ 63) mod 2 ^ 64 - 2 ^ 63"

definition max_int64 :: int where
  "max_int64 = 2 ^ 63 - 1"

definition is_int64 :: "int \<Rightarrow> bool" where
  "is_int64 x \<longleftrightarrow> - (2 ^ 63) \<le> x \<and> x < 2 ^ 63"

lemma wrap64_id: "is_int64 x \<Longrightarrow> wrap64 x = x"
  by (simp add: is_int64_def wrap64_def)

lemma wrap64_range: "is_int64 (wrap64 x)"
  by (simp add: is_int64_def wrap64_def)

lemma wrap64_max: "wrap64 (max_int64 + 1) = - (2 ^ 63)"
  by (simp add: wrap64_def max_int64_def)

section \<open>Errors\<close>

text \<open>
  Go errors form a tree: \<open>errors.New\<close> and \<open>fmt.Errorf\<close> without \<open>%w\<close> make a leaf,
  \<open>fmt.Errorf\<close> with \<open>%w\<close> and \<open>errors.Join\<close> wrap others. A message is kept as its format
  and arguments. The other leaves are the error types the code tells apart: the operating
  system's, the S3 API's and \<open>stagedMismatchError\<close>.
\<close>

datatype os_errno = ENOENT | EEXIST | ENOTEMPTY | ENOTDIR | EISDIR | EINVAL | EPERM | EIO | EUNSUPPORTED

datatype gerr =
    E_os os_errno
  | E_new string "string list"
  | E_wrap string "string list" "gerr list"
  | E_join "gerr list"
  | E_mismatch string string
  | E_missing
  | E_http nat string
  | E_api string

type_synonym 'a res = "gerr + 'a"

fun err_exists :: "(gerr \<Rightarrow> bool) \<Rightarrow> gerr \<Rightarrow> bool" where
  "err_exists P (E_wrap f a es) = (P (E_wrap f a es) \<or> list_ex (err_exists P) es)"
| "err_exists P (E_join es) = (P (E_join es) \<or> list_ex (err_exists P) es)"
| "err_exists P e = P e"

text \<open>\<open>errors.Is\<close> against a sentinel, and the first \<open>stagedMismatchError\<close> of \<open>errors.As\<close>.\<close>

definition errors_is :: "gerr \<Rightarrow> gerr \<Rightarrow> bool" where
  "errors_is e target = err_exists (\<lambda>x. x = target) e"

fun first_some :: "'a option list \<Rightarrow> 'a option" where
  "first_some [] = None"
| "first_some (None # xs) = first_some xs"
| "first_some (Some x # xs) = Some x"

fun as_mismatch :: "gerr \<Rightarrow> (string \<times> string) option" where
  "as_mismatch (E_mismatch p d) = Some (p, d)"
| "as_mismatch (E_wrap f a es) = first_some (map as_mismatch es)"
| "as_mismatch (E_join es) = first_some (map as_mismatch es)"
| "as_mismatch _ = None"

text \<open>\<open>errors.Join\<close> drops nil errors and is nil when nothing is left.\<close>

definition errors_join :: "gerr option list \<Rightarrow> gerr option" where
  "errors_join es = (case [e. Some e \<leftarrow> es] of [] \<Rightarrow> None | xs \<Rightarrow> Some (E_join xs))"

lemma somes_Nil: "[e. Some e \<leftarrow> es] = [] \<longleftrightarrow> (\<forall>e \<in> set es. e = None)"
  by (induction es) (auto split: option.splits)

lemma errors_join_None: "errors_join es = None \<longleftrightarrow> (\<forall>e \<in> set es. e = None)"
  unfolding errors_join_def somes_Nil [symmetric]
  by (cases "[e. Some e \<leftarrow> es]") (simp_all del: concat_eq_Nil_conv)

section \<open>Sequencing\<close>

text \<open>
  A fallible operation on a state returns its result and the state. \<open>and_then\<close> is Go's
  \<open>x, err := f(); if err != nil { return err }\<close>.
\<close>

definition and_then :: "('e + 'a) \<times> 's \<Rightarrow> ('a \<Rightarrow> 's \<Rightarrow> ('e + 'b) \<times> 's) \<Rightarrow> ('e + 'b) \<times> 's" where
  "and_then p f = (case p of (Inl e, s) \<Rightarrow> (Inl e, s) | (Inr x, s) \<Rightarrow> f x s)"

definition map_err :: "('e \<Rightarrow> 'e) \<Rightarrow> ('e + 'a) \<times> 's \<Rightarrow> ('e + 'a) \<times> 's" where
  "map_err g p = (case p of (Inl e, s) \<Rightarrow> (Inl (g e), s) | (Inr x, s) \<Rightarrow> (Inr x, s))"

lemma and_then_simps [simp, seq_simps]:
  "and_then (Inl e, s) f = (Inl e, s)"
  "and_then (Inr x, s) f = f x s"
  by (simp_all add: and_then_def)

lemma map_err_simps [simp, seq_simps]:
  "map_err g (Inl e, s) = (Inl (g e), s)"
  "map_err g (Inr x, s) = (Inr x, s)"
  by (simp_all add: map_err_def)

lemma and_thenE:
  assumes "and_then p f = (r, s')"
  obtains (fail) e where "p = (Inl e, s')" "r = Inl e"
  | (ok) x s where "p = (Inr x, s)" "f x s = (r, s')"
  using assms by (cases p; cases "fst p") (auto simp: and_then_def)

lemma and_then_InrE:
  assumes "and_then p f = (Inr y, s')"
  obtains x s where "p = (Inr x, s)" "f x s = (Inr y, s')"
  using assms by (elim and_thenE) auto

lemma map_errE:
  assumes "map_err g p = (r, s')"
  obtains (fail) e where "p = (Inl e, s')" "r = Inl (g e)"
  | (ok) x where "p = (Inr x, s')" "r = Inr x"
  using assms by (cases p; cases "fst p") (auto simp: map_err_def)

text \<open>
  An operation that only fails or succeeds returns an error or \<open>None\<close>: \<open>if_ok\<close> goes on after a
  success, \<open>wrap_err\<close> wraps the error.
\<close>

definition if_ok :: "'e option \<times> 's \<Rightarrow> ('s \<Rightarrow> 'e option \<times> 's) \<Rightarrow> 'e option \<times> 's" where
  "if_ok p f = (case p of (Some e, s) \<Rightarrow> (Some e, s) | (None, s) \<Rightarrow> f s)"

definition wrap_err :: "('e \<Rightarrow> 'e) \<Rightarrow> 'e option \<times> 's \<Rightarrow> 'e option \<times> 's" where
  "wrap_err g p = (map_option g (fst p), snd p)"

lemma if_ok_simps [simp, seq_simps]:
  "if_ok (Some e, s) f = (Some e, s)"
  "if_ok (None, s) f = f s"
  by (simp_all add: if_ok_def)

lemma wrap_err_simps [simp, seq_simps]:
  "wrap_err g (Some e, s) = (Some (g e), s)"
  "wrap_err g (None, s) = (None, s)"
  "snd (wrap_err g p) = snd p"
  by (simp_all add: wrap_err_def)

lemma snd_map_err [simp]: "snd (map_err g p) = snd p"
  by (cases p; cases "fst p") auto

lemma if_ok_NoneE:
  assumes "if_ok p f = (None, s')"
  obtains s where "p = (None, s)" "f s = (None, s')"
  using assms by (cases p; cases "fst p") auto

lemma wrap_err_None: "wrap_err g p = (None, s) \<longleftrightarrow> p = (None, s)"
  by (cases p) (auto simp: wrap_err_def)

end
