(* ===== verification/Paths.thy ===== *)
theory Paths
  imports Prelude
begin

text \<open>
  Slash-separated paths: Go's \<open>path.Clean\<close> and \<open>path.Join\<close> on strings (S3 keys), and file
  system paths as lists of components below the root. \<open>plain_comps\<close> are the components of a
  well-formed relative path; joining one to anything only appends it, which is why a
  validated manifest path can neither leave its root nor share a key with another.
\<close>

abbreviation slash :: char where
  "slash \<equiv> CHR ''/''"

abbreviation comps :: "string \<Rightarrow> string list" where
  "comps p \<equiv> split_on slash p"

text \<open>The component loop of \<open>path.Clean\<close>; \<open>out\<close> is the output so far, last component first.\<close>

fun clean_acc :: "bool \<Rightarrow> string list \<Rightarrow> string list \<Rightarrow> string list" where
  "clean_acc rooted out [] = rev out"
| "clean_acc rooted out (c # cs) =
     (if c = [] \<or> c = ''.'' then clean_acc rooted out cs
      else if c = ''..'' then
        (case out of
           [] \<Rightarrow> clean_acc rooted (if rooted then [] else [''..'']) cs
         | x # xs \<Rightarrow> if x = ''..'' then clean_acc rooted (''..'' # out) cs else clean_acc rooted xs cs)
      else clean_acc rooted (c # out) cs)"

definition rooted_path :: "string \<Rightarrow> bool" where
  "rooted_path p \<longleftrightarrow> p \<noteq> [] \<and> hd p = slash"

definition path_clean :: "string \<Rightarrow> string" where
  "path_clean p =
     (let r = rooted_path p; body = join_with ''/'' (clean_acc r [] (comps p))
      in if r then slash # body else if body = [] then ''.'' else body)"

text \<open>\<open>path.Join\<close> of two elements; empty elements are left out.\<close>

definition path_join :: "string \<Rightarrow> string \<Rightarrow> string" where
  "path_join a b =
     (if a = [] then (if b = [] then [] else path_clean b) else path_clean (a @ slash # b))"

type_synonym fpath = "string list"

text \<open>\<open>filepath.Join(root, filepath.FromSlash(rel))\<close> for an absolute, clean root.\<close>

definition fs_join :: "fpath \<Rightarrow> string \<Rightarrow> fpath" where
  "fs_join root rel = clean_acc True (rev root) (comps rel)"

text \<open>\<open>filepath.ToSlash(filepath.Rel(root, p))\<close> for a path at or below the root.\<close>

definition fs_rel :: "fpath \<Rightarrow> fpath \<Rightarrow> string" where
  "fs_rel root p = (if p = root then ''.'' else join_with ''/'' (drop (length root) p))"

text \<open>The path \<open>root + suffix\<close>: a name beside \<open>root\<close> in its parent directory.\<close>

definition sibling :: "fpath \<Rightarrow> string \<Rightarrow> fpath" where
  "sibling d suf = butlast d @ [last d @ suf]"

definition parent :: "fpath \<Rightarrow> fpath" where
  "parent p = butlast p"

definition plain_comp :: "string \<Rightarrow> bool" where
  "plain_comp c \<longleftrightarrow> c \<noteq> [] \<and> c \<noteq> ''.'' \<and> c \<noteq> ''..'' \<and> slash \<notin> set c"

abbreviation plain_comps :: "string list \<Rightarrow> bool" where
  "plain_comps cs \<equiv> list_all plain_comp cs"

definition plain_path :: "string \<Rightarrow> bool" where
  "plain_path p \<longleftrightarrow> plain_comps (comps p)"

lemma clean_acc_plain: "plain_comps cs \<Longrightarrow> clean_acc r out cs = rev out @ cs"
  by (induction cs arbitrary: out) (auto simp: plain_comp_def)

lemma clean_acc_append_plain:
  "plain_comps ys \<Longrightarrow> clean_acc r out (xs @ ys) = clean_acc r out xs @ ys"
  by (induction r out xs rule: clean_acc.induct) (auto simp: clean_acc_plain split: list.splits)

lemma fs_join_plain: "plain_path p \<Longrightarrow> fs_join root p = root @ comps p"
  by (simp add: fs_join_def plain_path_def clean_acc_plain)

lemma fs_rel_join: "plain_path p \<Longrightarrow> fs_rel root (fs_join root p) = p"
  by (auto simp: fs_rel_def fs_join_plain join_split)

lemma comps_join: "cs \<noteq> [] \<Longrightarrow> plain_comps cs \<Longrightarrow> comps (join_with ''/'' cs) = cs"
  by (rule split_join) (auto simp: plain_comp_def list_all_iff)

lemma plain_path_join: "cs \<noteq> [] \<Longrightarrow> plain_comps cs \<Longrightarrow> plain_path (join_with ''/'' cs)"
  by (simp add: plain_path_def comps_join)

lemma fs_join_rel:
  assumes "plain_comps (drop (length root) p)" "strict_prefix root p"
  shows "fs_join root (fs_rel root p) = p"
proof -
  from assms(2) obtain zs where p: "p = root @ zs" and "zs \<noteq> []"
    by (auto simp: strict_prefix_def prefix_def)
  with assms(1) have "plain_comps zs" by simp
  with \<open>zs \<noteq> []\<close> p show ?thesis
    by (simp add: fs_rel_def fs_join_plain plain_path_join comps_join)
qed

lemma fs_join_inj: "plain_path p \<Longrightarrow> plain_path q \<Longrightarrow> fs_join root p = fs_join root q \<Longrightarrow> p = q"
  by (simp add: fs_join_plain split_on_inj)

lemma comps_append: "comps (a @ slash # b) = comps a @ comps b"
proof (induction a)
  case Nil
  then show ?case by simp
next
  case (Cons x a)
  then show ?case by (cases "comps a") (auto simp: hd_append)
qed

lemma join_with_append:
  "xs \<noteq> [] \<Longrightarrow> ys \<noteq> [] \<Longrightarrow> join_with sep (xs @ ys) = join_with sep xs @ sep @ join_with sep ys"
  by (induction sep xs rule: join_with.induct) (auto simp: neq_Nil_conv)

lemma join_with_Nil_iff:
  "plain_comps xs \<Longrightarrow> join_with ''/'' xs = [] \<longleftrightarrow> xs = []"
  by (cases xs rule: list.exhaust; cases "tl xs") (auto simp: plain_comp_def)

lemma plain_path_not_Nil: "plain_path p \<Longrightarrow> p \<noteq> []"
  by (auto simp: plain_path_def plain_comp_def)

lemma plain_path_not_rooted: "plain_path p \<Longrightarrow> \<not> rooted_path p"
  by (cases p) (auto simp: plain_path_def plain_comp_def rooted_path_def split: list.splits)

lemma path_clean_plain: "plain_path p \<Longrightarrow> path_clean p = p"
  using plain_path_not_rooted [of p] plain_path_not_Nil [of p]
  by (simp add: path_clean_def Let_def plain_path_def clean_acc_plain join_split)

text \<open>The components a prefix contributes to every key joined to it.\<close>

definition prefix_comps :: "string \<Rightarrow> string list" where
  "prefix_comps pre = (if pre = [] then [] else clean_acc (rooted_path pre) [] (comps pre))"

lemma path_join_plain:
  assumes "plain_path p"
  shows "path_join pre p =
    (if rooted_path pre then ''/'' else []) @ join_with ''/'' (prefix_comps pre @ comps p)"
proof (cases "pre = []")
  case True
  with assms show ?thesis
    by (simp add: path_join_def path_clean_plain plain_path_not_Nil prefix_comps_def
        rooted_path_def join_split)
next
  case False
  have r: "rooted_path (pre @ slash # p) = rooted_path pre"
    using False by (simp add: rooted_path_def)
  have "clean_acc (rooted_path pre) [] (comps (pre @ slash # p)) = prefix_comps pre @ comps p"
    using assms False by (simp add: comps_append clean_acc_append_plain plain_path_def prefix_comps_def)
  moreover have "join_with ''/'' (prefix_comps pre @ comps p) \<noteq> []"
    using plain_path_not_Nil [OF assms] join_with_append [of "prefix_comps pre" "comps p" "''/''"]
    by (cases "prefix_comps pre = []") (simp_all add: join_split)
  ultimately show ?thesis
    using False by (cases "rooted_path pre") (simp_all add: path_join_def path_clean_def Let_def r)
qed

text \<open>Distinct well-formed paths have distinct keys, whatever the prefix.\<close>

lemma path_join_inj:
  assumes "plain_path p" "plain_path q" "path_join pre p = path_join pre q"
  shows "p = q"
proof -
  have "join_with ''/'' (prefix_comps pre @ comps p) = join_with ''/'' (prefix_comps pre @ comps q)"
    using assms by (simp add: path_join_plain)
  then show ?thesis
    using join_with_append [of "prefix_comps pre" "comps p" "''/''"]
      join_with_append [of "prefix_comps pre" "comps q" "''/''"]
    by (cases "prefix_comps pre = []") (simp_all add: join_split)
qed

text \<open>A prefix that is itself clean is kept as it is.\<close>

lemma path_join_clean_prefix:
  assumes "plain_path p" "plain_path pre"
  shows "path_join pre p = pre @ slash # p"
  using assms plain_path_not_Nil [of pre] plain_path_not_rooted [of pre]
  by (simp add: path_join_plain prefix_comps_def clean_acc_plain plain_path_def join_with_append join_split)

lemma path_join_empty_prefix: "plain_path p \<Longrightarrow> path_join [] p = p"
  by (simp add: path_join_def path_clean_plain plain_path_not_Nil)

lemma prefix_fs_join: "plain_path p \<Longrightarrow> strict_prefix root (fs_join root p)"
  by (simp add: fs_join_plain strict_prefix_def)

lemma sibling_parent: "d \<noteq> [] \<Longrightarrow> parent (sibling d suf) = parent d"
  by (simp add: sibling_def parent_def)

lemma sibling_neq: "d \<noteq> [] \<Longrightarrow> suf \<noteq> [] \<Longrightarrow> sibling d suf \<noteq> d"
  by (metis append_butlast_last_id append_self_conv last_snoc sibling_def)

lemma length_sibling: "d \<noteq> [] \<Longrightarrow> length (sibling d suf) = length d"
  by (simp add: sibling_def)

lemma sibling_inj: "sibling d s = sibling d t \<longleftrightarrow> s = t"
  by (simp add: sibling_def)

text \<open>Two different paths of the same length have disjoint subtrees.\<close>

lemma prefix_same_length: "prefix a p \<Longrightarrow> prefix b p \<Longrightarrow> length a = length b \<Longrightarrow> a = b"
  by (metis prefix_length_prefix prefix_order.antisym order_refl)

end
