(* ===== verification/Manifest.thy ===== *)
theory Manifest
  imports Paths "HOL-Library.Word"
begin

unbundle bit_operations_syntax

text \<open>
  \<open>pkg/manifest/manifest.go\<close> and \<open>validate.go\<close>: the manifest's data, the octal mode of an
  entry, and \<open>Validate\<close>, the loop that collects every violation, with the case-folding map
  of the paths seen. The lemmas state what an accepted manifest is (\<open>valid_manifest\<close>, an
  abstract predicate the loop decides), that its paths are plain relative paths, and that
  permission bits survive printing and parsing. The \<open>platform\<close> holds what the build and
  the Unicode tables fix: \<open>goos\<close>, and \<open>strings.ToLower\<close> beyond ASCII.
\<close>

record platform =
  goos :: string
  uni_lower :: "string \<Rightarrow> string"

text \<open>\<open>strings.ToLower\<close>: byte-wise on ASCII, else through the Unicode tables.\<close>

definition to_lower :: "platform \<Rightarrow> string \<Rightarrow> string" where
  "to_lower P s = (if is_ascii s then map lower_char s else uni_lower P s)"

definition manifest_name :: string where
  "manifest_name = ''manifest.json''"

definition manifest_version :: int where
  "manifest_version = 1"

record mfile =
  f_path :: string
  f_sha256 :: string
  f_size :: int
  f_mode :: string

text \<open>\<open>Files\<close> is a slice: \<open>None\<close> is the nil slice, which encodes differently from an empty one.\<close>

record manifest =
  m_version :: int
  m_files :: "mfile list option"

definition files_of :: "manifest \<Rightarrow> mfile list" where
  "files_of m = (case m_files m of None \<Rightarrow> [] | Some fs \<Rightarrow> fs)"

section \<open>Modes\<close>

type_synonym file_mode = "32 word"

text \<open>\<open>fs.ModePerm\<close>, octal 777.\<close>

definition mode_perm :: "64 word" where
  "mode_perm = 511"

text \<open>\<open>strconv.ParseUint\<close> in a base up to ten.\<close>

fun parse_uint_loop :: "nat \<Rightarrow> nat \<Rightarrow> string \<Rightarrow> nat \<Rightarrow> string \<Rightarrow> nat res" where
  "parse_uint_loop base maxv s n [] = Inr n"
| "parse_uint_loop base maxv s n (c # cs) =
     (if \<not> char_between CHR ''0'' CHR ''9'' c \<or> of_char c - 48 \<ge> base
      then Inl (E_new ''strconv.ParseUint: parsing %q: invalid syntax'' [s])
      else if n * base + (of_char c - 48) > maxv
      then Inl (E_new ''strconv.ParseUint: parsing %q: value out of range'' [s])
      else parse_uint_loop base maxv s (n * base + (of_char c - 48)) cs)"

definition parse_uint :: "nat \<Rightarrow> nat \<Rightarrow> string \<Rightarrow> nat res" where
  "parse_uint base bits s =
     (if s = [] then Inl (E_new ''strconv.ParseUint: parsing %q: invalid syntax'' [s])
      else parse_uint_loop base (2 ^ bits - 1) s 0 s)"

definition file_mode :: "mfile \<Rightarrow> file_mode res" where
  "file_mode f =
     (case parse_uint 8 32 (f_mode f) of
        Inl e \<Rightarrow> Inl (E_wrap ''manifest: %s: invalid mode %q: %w'' [f_path f, f_mode f] [e])
      | Inr n \<Rightarrow>
          if (word_of_nat n :: 64 word) AND NOT mode_perm \<noteq> 0
          then Inl (E_new ''manifest: %s: mode %q carries more than permission bits'' [f_path f, f_mode f])
          else Inr (word_of_nat n))"

text \<open>\<open>fmt.Sprintf("%#o", n)\<close>: octal digits with one leading zero.\<close>

fun octal_digits :: "nat \<Rightarrow> string" where
  "octal_digits n = (if n < 8 then [char_of (48 + n)] else octal_digits (n div 8) @ [char_of (48 + n mod 8)])"

declare octal_digits.simps [simp del]

definition fmt_mode :: "file_mode \<Rightarrow> string" where
  "fmt_mode m = (if m = 0 then ''0'' else CHR ''0'' # octal_digits (unat m))"

section \<open>Validation\<close>

definition is_sha256 :: "string \<Rightarrow> bool" where
  "is_sha256 s \<longleftrightarrow> length s = 64 \<and>
     list_all (\<lambda>c. \<not> ((of_char c < (of_char CHR ''0'' :: nat) \<or> of_char c > (of_char CHR ''9'' :: nat))
        \<and> (of_char c < (of_char CHR ''a'' :: nat) \<or> of_char c > (of_char CHR ''f'' :: nat)))) s"

definition reserved_names :: "string list" where
  "reserved_names =
     [''CON'', ''PRN'', ''AUX'', ''NUL'',
      ''COM1'', ''COM2'', ''COM3'', ''COM4'', ''COM5'', ''COM6'', ''COM7'', ''COM8'', ''COM9'',
      ''LPT1'', ''LPT2'', ''LPT3'', ''LPT4'', ''LPT5'', ''LPT6'', ''LPT7'', ''LPT8'', ''LPT9'']"

text \<open>
  \<open>strings.ToUpper\<close> maps no byte sequence beyond ASCII to a letter of these names, so the
  ASCII mapping decides the same.
\<close>

definition reserved_name :: "string \<Rightarrow> string option" where
  "reserved_name seg =
     (let base = map upper_char (takeWhile (\<lambda>c. c \<noteq> CHR ''.'') seg)
      in if base \<in> set reserved_names then Some base else None)"

definition validate_segment :: "string \<Rightarrow> string \<Rightarrow> gerr option" where
  "validate_segment p seg =
     (if seg = [] then Some (E_new ''manifest: %s: empty path segment'' [p])
      else if seg = ''.'' \<or> seg = ''..''
      then Some (E_new ''manifest: %s: %q segments are not allowed'' [p, seg])
      else if has_suffix seg ''.'' \<or> has_suffix seg '' ''
      then Some (E_new ''manifest: %s: component %q ends in a dot or space, which Windows cannot store'' [p, seg])
      else (case reserved_name seg of
              Some base \<Rightarrow> Some (E_new ''manifest: %s: component %q uses the reserved Windows device name %s'' [p, seg, base])
            | None \<Rightarrow> None))"

definition backslash :: char where
  "backslash = CHR 0x5C"

definition validate_path :: "string \<Rightarrow> gerr option" where
  "validate_path p =
     (if p = [] then Some (E_new ''manifest: empty path'' [])
      else if backslash \<in> set p
      then Some (E_new ''manifest: %s: backslashes are not allowed; paths are forward-slash separated'' [p])
      else if has_prefix p ''/''
      then Some (E_new ''manifest: %s: absolute paths are not allowed'' [p])
      else first_some (map (validate_segment p) (comps p)))"

definition opt_list :: "'a option \<Rightarrow> 'a list" where
  "opt_list x = (case x of None \<Rightarrow> [] | Some y \<Rightarrow> [y])"

text \<open>
  One round of the loop: the errors of one entry, and the folded paths seen so far. Numeric
  arguments of a message are left out.
\<close>

definition entry_errors :: "mfile \<Rightarrow> gerr list" where
  "entry_errors f =
     (if \<not> is_sha256 (f_sha256 f)
      then [E_new ''manifest: %s: sha256 %q is not 64 lowercase hex digits'' [f_path f, f_sha256 f]] else [])
   @ (if f_size f < 0 then [E_new ''manifest: %s: negative size %d'' [f_path f]] else [])
   @ (case file_mode f of Inl e \<Rightarrow> [e] | Inr _ \<Rightarrow> [])"

fun validate_loop :: "platform \<Rightarrow> mfile list \<Rightarrow> (string \<rightharpoonup> string) \<Rightarrow> gerr list" where
  "validate_loop P [] lower = []"
| "validate_loop P (f # fs) lower =
     entry_errors f @
     (case validate_path (f_path f) of
        Some e \<Rightarrow> e # validate_loop P fs lower
      | None \<Rightarrow>
          (case lower (to_lower P (f_path f)) of
             None \<Rightarrow> validate_loop P fs (lower(to_lower P (f_path f) \<mapsto> f_path f))
           | Some prev \<Rightarrow>
               (if prev = f_path f then E_new ''manifest: duplicate path %s'' [f_path f]
                else E_new ''manifest: %s and %s collide on case-insensitive filesystems'' [prev, f_path f])
               # validate_loop P fs lower))"

definition validate :: "platform \<Rightarrow> manifest \<Rightarrow> gerr option" where
  "validate P m = errors_join (map Some (validate_loop P (files_of m) Map.empty))"

section \<open>What an accepted manifest is\<close>

definition seg_ok :: "string \<Rightarrow> bool" where
  "seg_ok seg \<longleftrightarrow> seg \<noteq> [] \<and> seg \<noteq> ''.'' \<and> seg \<noteq> ''..'' \<and>
     last seg \<noteq> CHR ''.'' \<and> last seg \<noteq> CHR '' '' \<and>
     map upper_char (takeWhile (\<lambda>c. c \<noteq> CHR ''.'') seg) \<notin> set reserved_names"

definition path_ok :: "string \<Rightarrow> bool" where
  "path_ok p \<longleftrightarrow> backslash \<notin> set p \<and> list_all seg_ok (comps p)"

definition entry_ok :: "mfile \<Rightarrow> bool" where
  "entry_ok f \<longleftrightarrow> length (f_sha256 f) = 64 \<and>
     list_all (\<lambda>c. char_between CHR ''0'' CHR ''9'' c \<or> char_between CHR ''a'' CHR ''f'' c) (f_sha256 f) \<and>
     0 \<le> f_size f \<and> (\<exists>md. file_mode f = Inr md) \<and> path_ok (f_path f)"

definition valid_manifest :: "platform \<Rightarrow> manifest \<Rightarrow> bool" where
  "valid_manifest P m \<longleftrightarrow>
     list_all entry_ok (files_of m) \<and> distinct (map (\<lambda>f. to_lower P (f_path f)) (files_of m))"

lemma first_some_None: "first_some xs = None \<longleftrightarrow> (\<forall>x \<in> set xs. x = None)"
  by (induction xs rule: first_some.induct) auto

lemma suffix_single: "suffix [c] s \<longleftrightarrow> s \<noteq> [] \<and> last s = c"
  by (metis append_butlast_last_id last_snoc not_Cons_self2 snoc_eq_iff_butlast suffixE suffixI
      append_is_Nil_conv)

lemma validate_segment_None: "validate_segment p seg = None \<longleftrightarrow> seg_ok seg"
  by (auto simp: validate_segment_def seg_ok_def has_suffix_def suffix_single reserved_name_def Let_def)

lemma hd_comps: "p \<noteq> [] \<Longrightarrow> hd p = slash \<longleftrightarrow> hd (comps p) = []"
  by (cases p) (auto split: list.splits)

lemma validate_path_None: "validate_path p = None \<longleftrightarrow> path_ok p"
proof (cases "p = [] \<or> has_prefix p ''/''")
  case True
  then have "[] \<in> set (comps p)"
    by (cases p) (auto simp: has_prefix_def)
  then have "\<not> path_ok p"
    by (auto simp: path_ok_def seg_ok_def list_all_iff)
  with True show ?thesis by (auto simp: validate_path_def)
next
  case False
  then show ?thesis
    by (auto simp: validate_path_def path_ok_def first_some_None validate_segment_None list_all_iff)
qed

lemma path_ok_plain: "path_ok p \<Longrightarrow> plain_path p"
  using split_on_no_sep [of slash p]
  by (auto simp: path_ok_def plain_path_def seg_ok_def plain_comp_def list_all_iff)

lemma is_sha256_iff:
  "is_sha256 s \<longleftrightarrow> length s = 64 \<and>
     list_all (\<lambda>c. char_between CHR ''0'' CHR ''9'' c \<or> char_between CHR ''a'' CHR ''f'' c) s"
  by (auto simp: is_sha256_def char_between_def list_all_iff)

lemma entry_errors_Nil:
  "entry_errors f = [] \<longleftrightarrow> is_sha256 (f_sha256 f) \<and> 0 \<le> f_size f \<and> (\<exists>md. file_mode f = Inr md)"
  by (auto simp: entry_errors_def split: sum.splits)

lemma entry_ok_iff: "entry_ok f \<longleftrightarrow> entry_errors f = [] \<and> validate_path (f_path f) = None"
  by (auto simp: entry_ok_def entry_errors_Nil is_sha256_iff validate_path_None)

lemma validate_loop_Nil:
  "validate_loop P fs lower = [] \<longleftrightarrow>
     list_all entry_ok fs \<and> distinct (map (\<lambda>f. to_lower P (f_path f)) fs)
     \<and> (\<forall>f \<in> set fs. lower (to_lower P (f_path f)) = None)"
proof (induction fs arbitrary: lower)
  case Nil
  then show ?case by simp
next
  case (Cons f fs)
  let ?k = "to_lower P (f_path f)"
  have seen: "(\<forall>g \<in> set fs. (lower(?k \<mapsto> f_path f)) (to_lower P (f_path g)) = None)
      \<longleftrightarrow> ?k \<notin> (\<lambda>g. to_lower P (f_path g)) ` set fs \<and> (\<forall>g \<in> set fs. lower (to_lower P (f_path g)) = None)"
    by (auto simp: image_iff split: if_splits)
  show ?case
  proof (cases "validate_path (f_path f) = None \<and> lower ?k = None")
    case True
    then have "validate_loop P (f # fs) lower = entry_errors f @ validate_loop P fs (lower(?k \<mapsto> f_path f))"
      by simp
    then have "validate_loop P (f # fs) lower = [] \<longleftrightarrow> entry_errors f = []
        \<and> list_all entry_ok fs \<and> distinct (map (\<lambda>g. to_lower P (f_path g)) fs)
        \<and> ?k \<notin> (\<lambda>g. to_lower P (f_path g)) ` set fs \<and> (\<forall>g \<in> set fs. lower (to_lower P (f_path g)) = None)"
      by (simp only: append_is_Nil_conv Cons.IH seen)
    with True show ?thesis by (auto simp: entry_ok_iff [of f])
  next
    case False
    then have "validate_loop P (f # fs) lower \<noteq> []" by (auto split: option.splits)
    with False show ?thesis by (auto simp: entry_ok_iff [of f])
  qed
qed

text \<open>The loop decides \<open>valid_manifest\<close>.\<close>

lemma validate_iff: "validate P m = None \<longleftrightarrow> valid_manifest P m"
  by (simp add: validate_def errors_join_None validate_loop_Nil valid_manifest_def)

lemma valid_manifest_distinct: "valid_manifest P m \<Longrightarrow> distinct (map f_path (files_of m))"
  unfolding valid_manifest_def
  by (auto simp: distinct_map inj_on_def)

lemma valid_manifest_plain: "valid_manifest P m \<Longrightarrow> f \<in> set (files_of m) \<Longrightarrow> plain_path (f_path f)"
  by (auto simp: valid_manifest_def list_all_iff entry_ok_def intro: path_ok_plain)

lemma valid_manifest_entry:
  "valid_manifest P m \<Longrightarrow> f \<in> set (files_of m) \<Longrightarrow> plain_path (f_path f) \<and> is_sha256 (f_sha256 f)"
  by (auto simp: valid_manifest_def list_all_iff entry_ok_def is_sha256_iff path_ok_plain)

text \<open>Every entry that breaks a rule is reported: the error list is empty only for good entries.\<close>

lemma validate_loop_reports:
  "f \<in> set fs \<Longrightarrow> \<not> entry_ok f \<Longrightarrow> \<exists>e \<in> set (validate_loop P fs lower). e \<in> set (entry_errors f) \<or> Some e = validate_path (f_path f)"
proof (induction fs arbitrary: lower)
  case Nil
  then show ?case by simp
next
  case (Cons g fs)
  show ?case
  proof (cases "f = g")
    case True
    show ?thesis
    proof (cases "entry_errors g = []")
      case False
      then obtain e where "e \<in> set (entry_errors g)" by (cases "entry_errors g") auto
      with True show ?thesis by auto
    next
      case True
      with Cons.prems(2) \<open>f = g\<close> obtain e where "validate_path (f_path g) = Some e"
        by (auto simp: entry_ok_iff)
      with \<open>f = g\<close> show ?thesis by auto
    qed
  next
    case False
    with Cons.prems have "f \<in> set fs" by simp
    from Cons.IH [OF this Cons.prems(2)] show ?thesis
      by (fastforce split: option.splits)
  qed
qed

section \<open>Modes, parsed and printed\<close>

lemma octal_digits_parse:
  "n \<le> maxv \<Longrightarrow> parse_uint_loop 8 maxv s 0 (octal_digits n @ cs) = parse_uint_loop 8 maxv s n cs"
proof (induction n arbitrary: cs rule: octal_digits.induct)
  case (1 n)
  have d: "char_between CHR ''0'' CHR ''9'' (char_of (48 + k))"
    "(of_char (char_of (48 + k) :: char) :: nat) = 48 + k" if "k < 8" for k :: nat
    using that by (simp_all add: char_between_def)
  show ?case
  proof (cases "n < 8")
    case True
    with "1.prems" d [of n] show ?thesis by (simp add: octal_digits.simps [of n])
  next
    case False
    have "octal_digits n @ cs = octal_digits (n div 8) @ char_of (48 + n mod 8) # cs"
      using False by (simp add: octal_digits.simps [of n])
    then have "parse_uint_loop 8 maxv s 0 (octal_digits n @ cs)
        = parse_uint_loop 8 maxv s (n div 8) (char_of (48 + n mod 8) # cs)"
      using "1.IH" [OF False, of "char_of (48 + n mod 8) # cs"] "1.prems" by simp
    also have "\<dots> = parse_uint_loop 8 maxv s n cs"
      using d [of "n mod 8"] "1.prems" mod_less_divisor [of 8 n] by (simp del: mod_less_divisor)
    finally show ?thesis .
  qed
qed

lemma parse_fmt_mode: "parse_uint 8 32 (fmt_mode m) = Inr (unat m)"
proof (cases "m = 0")
  case True
  then show ?thesis by (simp add: parse_uint_def fmt_mode_def char_between_def)
next
  case False
  have "unat m \<le> 2 ^ 32 - 1"
    using unsigned_less [of m, where ?'a = nat] by simp
  then have "parse_uint_loop 8 (2 ^ 32 - 1) s 0 (octal_digits (unat m)) = Inr (unat m)" for s
    using octal_digits_parse [of "unat m" _ s "[]"] by simp
  with False show ?thesis
    by (simp add: parse_uint_def fmt_mode_def char_between_def)
qed

lemma mode_perm_mask: "mode_perm = mask 9"
  by (simp add: mode_perm_def mask_eq_exp_minus_1)

lemma perm_bits_iff: "(x :: 64 word) AND NOT mode_perm = 0 \<longleftrightarrow> unat x < 512"
proof -
  have "x AND NOT (mask 9) = 0 \<longleftrightarrow> take_bit 9 x = x"
    by (auto simp: bit_eq_iff bit_simps)
  also have "\<dots> \<longleftrightarrow> unat (take_bit 9 x) = unat x"
    by (simp only: unsigned_word_eqI word_eq_iff_unsigned [where ?'a = nat])
  also have "\<dots> \<longleftrightarrow> unat x < 2 ^ 9"
    by (simp add: unsigned_take_bit_eq take_bit_nat_eq_self_iff)
  finally show ?thesis by (simp add: mode_perm_mask)
qed

lemma parse_uint_loop_bound: "parse_uint_loop base maxv s n cs = Inr k \<Longrightarrow> n \<le> maxv \<Longrightarrow> k \<le> maxv"
  by (induction base maxv s n cs rule: parse_uint_loop.induct) (auto split: if_splits)

lemma parse_uint_bound: "parse_uint base bits s = Inr k \<Longrightarrow> k < 2 ^ bits"
proof -
  assume "parse_uint base bits s = Inr k"
  then have "parse_uint_loop base (2 ^ bits - 1) s 0 s = Inr k"
    by (simp add: parse_uint_def split: if_splits)
  then have "k \<le> 2 ^ bits - 1" by (rule parse_uint_loop_bound) simp
  moreover have "(0::nat) < 2 ^ bits" by simp
  ultimately show ?thesis by linarith
qed

text \<open>Printing permission bits and parsing them back gives the bits.\<close>

lemma unat_word64: "n < 2 ^ 32 \<Longrightarrow> unat (word_of_nat n :: 64 word) = n"
  by (simp add: unat_of_nat)

lemma unat_word32: "n < 2 ^ 32 \<Longrightarrow> unat (word_of_nat n :: 32 word) = n"
  by (simp add: unat_of_nat)

lemma file_mode_eq:
  "parse_uint 8 32 (f_mode f) = Inr n \<Longrightarrow> n < 512 \<Longrightarrow> file_mode f = Inr (word_of_nat n)"
  using parse_uint_bound [of 8 32 "f_mode f" n]
  by (simp add: file_mode_def perm_bits_iff unat_word64 del: unsigned_of_nat)

lemma file_mode_fmt:
  "unat md < 512 \<Longrightarrow> file_mode (f\<lparr>f_mode := fmt_mode md\<rparr>) = Inr md"
  using file_mode_eq [of "f\<lparr>f_mode := fmt_mode md\<rparr>" "unat md"] by (simp add: parse_fmt_mode)

lemma file_mode_perm:
  assumes "file_mode f = Inr md"
  shows "unat md < 512"
proof -
  from assms obtain n where n: "parse_uint 8 32 (f_mode f) = Inr n" "md = word_of_nat n"
    "(word_of_nat n :: 64 word) AND NOT mode_perm = 0"
    by (auto simp: file_mode_def split: sum.splits if_splits)
  from parse_uint_bound [OF n(1)] n(3) have "n < 512"
    by (simp only: perm_bits_iff unat_word64)
  with n(2) show ?thesis
    by (simp add: unat_word32 del: unsigned_of_nat)
qed

end
