(* ===== verification/FileSys.thy ===== *)
theory FileSys
  imports Manifest
begin

text \<open>
  The file system as Go's \<open>os\<close> and \<open>filepath\<close> packages present it to the program: names (paths
  to directories, regular files and other nodes), inodes with content and permission bits
  behind the regular names, so that a hard link is a second name of one inode. Every call
  that can fail asks the oracle \<open>fault\<close>, which sees the number of calls made so far and the
  call: a theorem for every oracle covers every pattern of failures, transient or lasting,
  and an oracle that fails every call from the n-th on leaves exactly the state a kill before
  the n-th call leaves. A failing write stores a part of its data, chosen by \<open>short\<close>.
  The state also carries the S3 client's own state \<open>w_s3\<close>, which no file operation touches.

  Symbolic links are nodes that no operation here follows; directories have no modes; a call
  that only looks at a name (\<open>Lstat\<close>) never fails on a name that is there.
\<close>

section \<open>The state\<close>

datatype node = Dir | Reg nat | Special string

record inode =
  i_data :: bytes
  i_mode :: file_mode

record 's world =
  w_names :: "(fpath \<times> node) list"
  w_inodes :: "(nat \<times> inode) list"
  w_next :: nat
  w_tick :: nat
  w_s3 :: 's

datatype syscall =
    SysOpen fpath
  | SysRead fpath
  | SysCreate fpath
  | SysWrite nat
  | SysClose nat
  | SysChmod fpath
  | SysMkdir fpath
  | SysLink fpath fpath
  | SysRename fpath fpath
  | SysRemove fpath
  | SysReadDir fpath
  | SysLinks fpath
  | SysCtx

record os_env =
  plat :: platform
  fault :: "nat \<Rightarrow> syscall \<Rightarrow> bool"
  short :: "nat \<Rightarrow> nat"
  umask :: file_mode

definition is_reg :: "node \<Rightarrow> bool" where
  "is_reg n = (case n of Reg _ \<Rightarrow> True | _ \<Rightarrow> False)"

definition look :: "'s world \<Rightarrow> fpath \<Rightarrow> node option" where
  "look w p = (if p = [] then Some Dir else map_of (w_names w) p)"

definition ino :: "'s world \<Rightarrow> nat \<Rightarrow> inode option" where
  "ino w i = map_of (w_inodes w) i"

definition sys :: "os_env \<Rightarrow> syscall \<Rightarrow> 's world \<Rightarrow> bool \<times> 's world" where
  "sys E c w = (fault E (w_tick w) c, w\<lparr>w_tick := Suc (w_tick w)\<rparr>)"

definition set_name :: "fpath \<Rightarrow> node \<Rightarrow> 's world \<Rightarrow> 's world" where
  "set_name p n w = w\<lparr>w_names := (p, n) # filter (\<lambda>(q, _). q \<noteq> p) (w_names w)\<rparr>"

definition del_name :: "fpath \<Rightarrow> 's world \<Rightarrow> 's world" where
  "del_name p w = w\<lparr>w_names := filter (\<lambda>(q, _). q \<noteq> p) (w_names w)\<rparr>"

definition set_inode :: "nat \<Rightarrow> inode \<Rightarrow> 's world \<Rightarrow> 's world" where
  "set_inode i x w = w\<lparr>w_inodes := (i, x) # filter (\<lambda>(j, _). j \<noteq> i) (w_inodes w)\<rparr>"

definition rebase :: "fpath \<Rightarrow> fpath \<Rightarrow> fpath \<Rightarrow> fpath" where
  "rebase frm to q = (if prefix frm q then to @ drop (length frm) q else q)"

definition move_names :: "fpath \<Rightarrow> fpath \<Rightarrow> 's world \<Rightarrow> 's world" where
  "move_names frm to w =
     w\<lparr>w_names := map (\<lambda>(q, n). (rebase frm to q, n)) (filter (\<lambda>(q, _). \<not> prefix to q) (w_names w))\<rparr>"

definition has_child :: "'s world \<Rightarrow> fpath \<Rightarrow> bool" where
  "has_child w p \<longleftrightarrow> list_ex (\<lambda>(q, _). q \<noteq> [] \<and> butlast q = p) (w_names w)"

section \<open>Calls\<close>

text \<open>\<open>os.Lstat\<close> succeeds.\<close>

definition exists :: "'s world \<Rightarrow> fpath \<Rightarrow> bool" where
  "exists w p \<longleftrightarrow> look w p \<noteq> None"

definition os_lstat :: "'s world \<Rightarrow> fpath \<Rightarrow> node res" where
  "os_lstat w p = (case look w p of None \<Rightarrow> Inl (E_os ENOENT) | Some n \<Rightarrow> Inr n)"

text \<open>
  A reader: its bytes, and the error that ends them, if any. An open file adds what \<open>Stat\<close>
  tells of the handle. A read that fails gives the bytes before it; a directory opens, but
  does not read.
\<close>

record reader =
  r_data :: bytes
  r_err :: "gerr option"

record handle = reader +
  h_node :: node
  h_size :: int
  h_mode :: file_mode

definition os_open :: "os_env \<Rightarrow> fpath \<Rightarrow> 's world \<Rightarrow> handle res \<times> 's world" where
  "os_open E p w =
     (let (f, w) = sys E (SysOpen p) w
      in if f then (Inl (E_os EIO), w)
         else (case look w p of
                 None \<Rightarrow> (Inl (E_os ENOENT), w)
               | Some Dir \<Rightarrow>
                   (Inr \<lparr>r_data = [], r_err = Some (E_os EISDIR), h_node = Dir, h_size = 0, h_mode = 0\<rparr>, w)
               | Some (Special t) \<Rightarrow> (Inl (E_os EINVAL), w)
               | Some (Reg i) \<Rightarrow>
                   (case ino w i of
                      None \<Rightarrow> (Inl (E_os ENOENT), w)
                    | Some x \<Rightarrow>
                        (let (g, w') = sys E (SysRead p) w
                         in (Inr \<lparr>r_data = (if g then take (short E (w_tick w)) (i_data x) else i_data x),
                                  r_err = (if g then Some (E_os EIO) else None),
                                  h_node = Reg i, h_size = int (length (i_data x)), h_mode = i_mode x\<rparr>, w')))))"

text \<open>\<open>os.OpenFile\<close> with \<open>O_CREATE|O_EXCL\<close>: a fresh inode under a new name; gives the handle.\<close>

definition os_create :: "os_env \<Rightarrow> fpath \<Rightarrow> file_mode \<Rightarrow> 's world \<Rightarrow> nat res \<times> 's world" where
  "os_create E p m w =
     (let (f, w) = sys E (SysCreate p) w
      in if f then (Inl (E_os EIO), w)
         else if look w p \<noteq> None then (Inl (E_os EEXIST), w)
         else if look w (parent p) \<noteq> Some Dir then (Inl (E_os ENOENT), w)
         else (Inr (w_next w),
               (set_name p (Reg (w_next w))
                 (set_inode (w_next w) \<lparr>i_data = [], i_mode = m AND NOT (umask E)\<rparr> w))
               \<lparr>w_next := Suc (w_next w)\<rparr>))"

definition append_inode :: "nat \<Rightarrow> bytes \<Rightarrow> 's world \<Rightarrow> 's world" where
  "append_inode i d w =
     (case ino w i of None \<Rightarrow> w | Some x \<Rightarrow> set_inode i (x\<lparr>i_data := i_data x @ d\<rparr>) w)"

definition os_write :: "os_env \<Rightarrow> nat \<Rightarrow> bytes \<Rightarrow> 's world \<Rightarrow> gerr option \<times> 's world" where
  "os_write E i d w =
     (let (f, w') = sys E (SysWrite i) w
      in if f then (Some (E_os EIO), append_inode i (take (short E (w_tick w)) d) w')
         else (None, append_inode i d w'))"

definition os_close :: "os_env \<Rightarrow> nat \<Rightarrow> 's world \<Rightarrow> gerr option \<times> 's world" where
  "os_close E i w =
     (let (f, w) = sys E (SysClose i) w in (if f then Some (E_os EIO) else None, w))"

text \<open>
  \<open>io.Copy(fh, io.TeeReader(io.LimitReader(r, lim), h))\<close>: copies up to \<open>lim\<close> bytes to the
  handle and gives the bytes hashed. A reader that still has bytes at the limit is not read on,
  so its error is not seen.
\<close>

definition io_copy :: "os_env \<Rightarrow> nat \<Rightarrow> 'z reader_scheme \<Rightarrow> int \<Rightarrow> 's world \<Rightarrow> bytes res \<times> 's world" where
  "io_copy E i r lim w =
     (let d = take (nat lim) (r_data r)
      in case os_write E i d w of
           (Some e, w) \<Rightarrow> (Inl e, w)
         | (None, w) \<Rightarrow>
             (case r_err r of
                Some e \<Rightarrow> if length (r_data r) < nat lim then (Inl e, w) else (Inr d, w)
              | None \<Rightarrow> (Inr d, w)))"

text \<open>\<open>io.ReadAll(io.LimitReader(r, lim))\<close>, and copying to a hash alone.\<close>

definition io_read :: "'z reader_scheme \<Rightarrow> int \<Rightarrow> bytes res" where
  "io_read r lim =
     (case r_err r of
        Some e \<Rightarrow> if length (r_data r) < nat lim then Inl e else Inr (take (nat lim) (r_data r))
      | None \<Rightarrow> Inr (take (nat lim) (r_data r)))"

definition io_read_all :: "'z reader_scheme \<Rightarrow> bytes res" where
  "io_read_all r = (case r_err r of Some e \<Rightarrow> Inl e | None \<Rightarrow> Inr (r_data r))"

definition os_chmod :: "os_env \<Rightarrow> fpath \<Rightarrow> file_mode \<Rightarrow> 's world \<Rightarrow> gerr option \<times> 's world" where
  "os_chmod E p m w =
     (let (f, w) = sys E (SysChmod p) w
      in if f then (Some (E_os EIO), w)
         else (case look w p of
                 None \<Rightarrow> (Some (E_os ENOENT), w)
               | Some (Reg i) \<Rightarrow>
                   (case ino w i of None \<Rightarrow> (None, w) | Some x \<Rightarrow> (None, set_inode i (x\<lparr>i_mode := m\<rparr>) w))
               | Some _ \<Rightarrow> (None, w)))"

definition os_mkdir :: "os_env \<Rightarrow> fpath \<Rightarrow> 's world \<Rightarrow> gerr option \<times> 's world" where
  "os_mkdir E p w =
     (let (f, w) = sys E (SysMkdir p) w
      in if f then (Some (E_os EIO), w)
         else if look w p \<noteq> None then (Some (E_os EEXIST), w)
         else if look w (parent p) \<noteq> Some Dir then (Some (E_os ENOENT), w)
         else (None, set_name p Dir w))"

text \<open>\<open>os.MkdirAll\<close>: the missing directories on the way, outermost first.\<close>

fun mkdir_list :: "os_env \<Rightarrow> fpath list \<Rightarrow> 's world \<Rightarrow> gerr option \<times> 's world" where
  "mkdir_list E [] w = (None, w)"
| "mkdir_list E (p # ps) w =
     (case look w p of
        Some Dir \<Rightarrow> mkdir_list E ps w
      | Some _ \<Rightarrow> (Some (E_os ENOTDIR), w)
      | None \<Rightarrow>
          (case os_mkdir E p w of
             (Some e, w) \<Rightarrow> (Some e, w)
           | (None, w) \<Rightarrow> mkdir_list E ps w))"

definition os_mkdir_all :: "os_env \<Rightarrow> fpath \<Rightarrow> 's world \<Rightarrow> gerr option \<times> 's world" where
  "os_mkdir_all E p w = mkdir_list E (prefixes p) w"

definition os_link :: "os_env \<Rightarrow> fpath \<Rightarrow> fpath \<Rightarrow> 's world \<Rightarrow> gerr option \<times> 's world" where
  "os_link E old new w =
     (let (f, w) = sys E (SysLink old new) w
      in if f then (Some (E_os EIO), w)
         else (case look w old of
                 None \<Rightarrow> (Some (E_os ENOENT), w)
               | Some Dir \<Rightarrow> (Some (E_os EPERM), w)
               | Some n \<Rightarrow>
                   if look w new \<noteq> None then (Some (E_os EEXIST), w)
                   else if look w (parent new) \<noteq> Some Dir then (Some (E_os ENOENT), w)
                   else (None, set_name new n w)))"

text \<open>
  \<open>os.Rename\<close>: Go refuses to rename onto an existing directory, replaces any other node, and,
  as POSIX has it, does nothing when both names are one file's.
\<close>

definition os_rename :: "os_env \<Rightarrow> fpath \<Rightarrow> fpath \<Rightarrow> 's world \<Rightarrow> gerr option \<times> 's world" where
  "os_rename E frm to w =
     (let (f, w) = sys E (SysRename frm to) w
      in if f then (Some (E_os EIO), w)
         else (case look w frm of
                 None \<Rightarrow> (Some (E_os ENOENT), w)
               | Some n \<Rightarrow>
                   if look w to = Some Dir then (Some (E_os EEXIST), w)
                   else if prefix frm to \<and> frm \<noteq> to \<or> frm = [] \<or> prefix to frm \<and> frm \<noteq> to
                   then (Some (E_os EINVAL), w)
                   else if look w (parent to) \<noteq> Some Dir then (Some (E_os ENOENT), w)
                   else if n = Dir \<and> look w to \<noteq> None then (Some (E_os ENOTDIR), w)
                   else if frm = to \<or> (is_reg n \<and> look w to = Some n) then (None, w)
                   else (None, move_names frm to w)))"

definition os_remove :: "os_env \<Rightarrow> fpath \<Rightarrow> 's world \<Rightarrow> gerr option \<times> 's world" where
  "os_remove E p w =
     (let (f, w) = sys E (SysRemove p) w
      in if f then (Some (E_os EIO), w)
         else if look w p = None then (Some (E_os ENOENT), w)
         else if has_child w p \<or> p = [] then (Some (E_os ENOTEMPTY), w)
         else (None, del_name p w))"

text \<open>The paths at and below a root, in the order of \<open>filepath.WalkDir\<close>.\<close>

definition paths_under :: "'s world \<Rightarrow> fpath \<Rightarrow> fpath list" where
  "paths_under w root =
     (if look w root = None then []
      else sort (remdups (root # [p \<leftarrow> map fst (w_names w). prefix root p])))"

text \<open>\<open>os.RemoveAll\<close>: children before parents, going on after an error and giving the first.\<close>

fun remove_list :: "os_env \<Rightarrow> fpath list \<Rightarrow> gerr option \<Rightarrow> 's world \<Rightarrow> gerr option \<times> 's world" where
  "remove_list E [] err w = (err, w)"
| "remove_list E (p # ps) err w =
     (case os_remove E p w of
        (None, w) \<Rightarrow> remove_list E ps err w
      | (Some e, w) \<Rightarrow> remove_list E ps (if err = None then Some e else err) w)"

definition os_remove_all :: "os_env \<Rightarrow> fpath \<Rightarrow> 's world \<Rightarrow> gerr option \<times> 's world" where
  "os_remove_all E p w = remove_list E (rev (paths_under w p)) None w"

text \<open>\<open>os.ReadDir\<close>: the entry names of a directory in order.\<close>

definition os_read_dir :: "os_env \<Rightarrow> fpath \<Rightarrow> 's world \<Rightarrow> (string list) res \<times> 's world" where
  "os_read_dir E p w =
     (let (f, w) = sys E (SysReadDir p) w
      in if f then (Inl (E_os EIO), w)
         else if look w p = Some Dir
         then (Inr (sort (remdups [last q. (q, n) \<leftarrow> w_names w, q \<noteq> [] \<and> butlast q = p])), w)
         else (Inl (E_os (if look w p = None then ENOENT else ENOTDIR)), w))"

text \<open>\<open>Mode().Perm()\<close> and the file type of a node as \<open>typeName\<close> of \<open>build.go\<close> prints it.\<close>

definition perm :: "file_mode \<Rightarrow> file_mode" where
  "perm m = m AND 511"

definition type_name :: "node \<Rightarrow> string" where
  "type_name n = (case n of Special t \<Rightarrow> t | Dir \<Rightarrow> ''d---------'' | Reg _ \<Rightarrow> ''----------'')"

definition nlink :: "'s world \<Rightarrow> nat \<Rightarrow> nat" where
  "nlink w i = length [p \<leftarrow> remdups (map fst (w_names w)). look w p = Some (Reg i)]"

section \<open>Walking\<close>

datatype 'a walk_ctl = WOk 'a | WSkipDir 'a | WSkipAll 'a | WErr gerr

type_synonym ('a, 's) walk_fn =
  "fpath \<Rightarrow> node option \<Rightarrow> gerr option \<Rightarrow> 'a \<Rightarrow> 's world \<Rightarrow> 'a walk_ctl \<times> 's world"

function walk_entries ::
  "os_env \<Rightarrow> ('a, 's) walk_fn \<Rightarrow> (fpath \<times> node) list \<Rightarrow> 'a \<Rightarrow> 's world \<Rightarrow> 'a res \<times> 's world" where
  "walk_entries E fn [] a w = (Inr a, w)"
| "walk_entries E fn ((p, n) # rest) a w =
     (case fn p (Some n) None a w of
        (WErr e, w) \<Rightarrow> (Inl e, w)
      | (WSkipAll a, w) \<Rightarrow> (Inr a, w)
      | (WSkipDir a, w) \<Rightarrow> walk_entries E fn [x \<leftarrow> rest. \<not> prefix p (fst x)] a w
      | (WOk a, w) \<Rightarrow>
          (if n \<noteq> Dir then walk_entries E fn rest a w
           else (case sys E (SysReadDir p) w of
                   (False, w) \<Rightarrow> walk_entries E fn rest a w
                 | (True, w) \<Rightarrow>
                     (case fn p (Some n) (Some (E_os EIO)) a w of
                        (WErr e, w) \<Rightarrow> (Inl e, w)
                      | (WSkipAll a, w) \<Rightarrow> (Inr a, w)
                      | (WSkipDir a, w) \<Rightarrow> walk_entries E fn [x \<leftarrow> rest. \<not> prefix p (fst x)] a w
                      | (WOk a, w) \<Rightarrow> walk_entries E fn [x \<leftarrow> rest. \<not> prefix p (fst x)] a w))))"
  by pat_completeness auto
termination
  by (relation "measure (\<lambda>(E, fn, xs, a, w). length xs)") (auto simp: le_imp_less_Suc)

definition entries_under :: "'s world \<Rightarrow> fpath \<Rightarrow> (fpath \<times> node) list" where
  "entries_under w root = [(p, n). p \<leftarrow> paths_under w root, Some n \<leftarrow> [look w p]]"

definition walk_dir :: "os_env \<Rightarrow> ('a, 's) walk_fn \<Rightarrow> fpath \<Rightarrow> 'a \<Rightarrow> 's world \<Rightarrow> 'a res \<times> 's world" where
  "walk_dir E fn root a w =
     (if look w root = None
      then (case fn root None (Some (E_os ENOENT)) a w of
              (WErr e, w) \<Rightarrow> (Inl e, w)
            | (WSkipAll a, w) \<Rightarrow> (Inr a, w)
            | (WSkipDir a, w) \<Rightarrow> (Inr a, w)
            | (WOk a, w) \<Rightarrow> (Inr a, w))
      else walk_entries E fn (entries_under w root) a w)"

end
