(* ===== verification/FsFacts.thy ===== *)
theory FsFacts
  imports FileSys
begin

text \<open>
  Laws of the file system: what each call does to the names and inodes, the invariant
  \<open>wf\<close> every call keeps, the relation \<open>safe D\<close> (nothing at or below the path \<open>D\<close> changes,
  neither a name nor the content behind one), which every call that stays clear of \<open>D\<close>
  keeps, and the view \<open>tree_at\<close> of a directory tree as contents, which renames carry along.
  The locale \<open>step_order\<close> is the contract of such relations: whatever is kept by the single
  calls is kept by sequences, loops and walks.
\<close>

named_theorems fs_simps \<open>lookup after a primitive update\<close>

section \<open>Lookup after an update\<close>

lemma map_of_filter_key:
  "map_of (filter (\<lambda>(q, _). P q) xs) p = (if P p then map_of xs p else None)"
  by (induction xs) auto

lemma look_Nil [simp, fs_simps]: "look w [] = Some Dir"
  by (simp add: look_def)

lemma look_set_name [simp, fs_simps]:
  "p \<noteq> [] \<Longrightarrow> look (set_name p n w) q = (if q = p then Some n else look w q)"
  by (auto simp: look_def set_name_def map_of_filter_key)

lemma look_del_name [simp, fs_simps]:
  "p \<noteq> [] \<Longrightarrow> look (del_name p w) q = (if q = p then None else look w q)"
  by (auto simp: look_def del_name_def map_of_filter_key)

lemma ino_set_inode [simp, fs_simps]:
  "ino (set_inode i x w) j = (if j = i then Some x else ino w j)"
  by (auto simp: ino_def set_inode_def map_of_filter_key)

lemma frame_simps [simp, fs_simps]:
  "ino (set_name p n w) i = ino w i" "ino (del_name p w) i = ino w i" "ino (move_names a b w) i = ino w i"
  "look (set_inode i x w) p = look w p"
  "w_next (set_name p n w) = w_next w" "w_next (del_name p w) = w_next w"
  "w_next (set_inode i x w) = w_next w" "w_next (move_names a b w) = w_next w"
  "w_s3 (set_name p n w) = w_s3 w" "w_s3 (del_name p w) = w_s3 w"
  "w_s3 (set_inode i x w) = w_s3 w" "w_s3 (move_names a b w) = w_s3 w"
  "look (w\<lparr>w_tick := t\<rparr>) p = look w p" "ino (w\<lparr>w_tick := t\<rparr>) i = ino w i"
  "look (w\<lparr>w_next := k\<rparr>) p = look w p" "ino (w\<lparr>w_next := k\<rparr>) i = ino w i"
  "look (w\<lparr>w_s3 := s\<rparr>) p = look w p" "ino (w\<lparr>w_s3 := s\<rparr>) i = ino w i"
  by (simp_all add: ino_def look_def set_name_def del_name_def set_inode_def move_names_def)

lemma look_append_inode [simp]: "look (append_inode i d w) p = look w p"
  by (simp add: append_inode_def split: option.splits)

lemma ino_append_inode:
  "ino (append_inode i d w) j =
     (if j = i then map_option (\<lambda>x. x\<lparr>i_data := i_data x @ d\<rparr>) (ino w i) else ino w j)"
  by (simp add: append_inode_def split: option.splits)

lemma w_next_append_inode [simp]: "w_next (append_inode i d w) = w_next w"
  by (simp add: append_inode_def split: option.splits)

lemma drop_prefix: "prefix a q \<Longrightarrow> a @ drop (length a) q = q"
  by (auto simp: prefix_def)

lemma map_of_rebase:
  assumes "\<not> prefix to frm" "\<not> prefix frm to"
  shows "map_of (map (\<lambda>(q, n). (rebase frm to q, n)) (filter (\<lambda>(q, _). \<not> prefix to q) xs)) p
    = (if prefix to p then map_of xs (frm @ drop (length to) p)
       else if prefix frm p then None else map_of xs p)"
proof (induction xs)
  case Nil
  then show ?case by simp
next
  case (Cons x xs)
  obtain k n where x: "x = (k, n)" by (cases x)
  have not_to: "\<not> prefix to (frm @ r)" for r
    using assms prefix_same_cases by (metis prefixI)
  show ?case
  proof (cases "prefix to k")
    case True
    with Cons x not_to [of "drop (length to) p"] show ?thesis by auto
  next
    case nt: False
    show ?thesis
    proof (cases "prefix frm k")
      case True
      then have r: "rebase frm to k = to @ drop (length frm) k"
        by (simp add: rebase_def)
      have "p = to @ drop (length frm) k \<longleftrightarrow> prefix to p \<and> k = frm @ drop (length to) p"
        using True by (auto simp: prefix_def)
      with Cons x nt r True show ?thesis by auto
    next
      case False
      then have "k \<noteq> frm @ drop (length to) p" by auto
      with Cons x nt False show ?thesis by (auto simp: rebase_def)
    qed
  qed
qed

lemma look_move_names:
  assumes "\<not> prefix to frm" "\<not> prefix frm to"
  shows "look (move_names frm to w) p
    = (if prefix to p then look w (frm @ drop (length to) p)
       else if prefix frm p then None else look w p)"
proof -
  have "frm \<noteq> []" "to \<noteq> []" using assms by auto
  then show ?thesis
    using map_of_rebase [OF assms, of "w_names w" p] by (auto simp: look_def move_names_def)
qed

lemma look_Some_key: "look w p = Some n \<Longrightarrow> p = [] \<or> (p, n) \<in> set (w_names w)"
  by (auto simp: look_def split: if_splits dest: map_of_SomeD)

lemma key_look: "(p, b) \<in> set (w_names w) \<Longrightarrow> \<exists>n. look w p = Some n"
  using weak_map_of_SomeI [of p b "w_names w"] by (simp add: look_def)

lemma has_child_iff: "has_child w p \<longleftrightarrow> (\<exists>q n. q \<noteq> [] \<and> butlast q = p \<and> look w q = Some n)"
proof
  assume "has_child w p"
  then obtain q n where "(q, n) \<in> set (w_names w)" "q \<noteq> []" "butlast q = p"
    by (auto simp: has_child_def list_ex_iff)
  then show "\<exists>q n. q \<noteq> [] \<and> butlast q = p \<and> look w q = Some n"
    using key_look [of q n w] by blast
next
  assume "\<exists>q n. q \<noteq> [] \<and> butlast q = p \<and> look w q = Some n"
  then obtain q n where q: "q \<noteq> []" "butlast q = p" "look w q = Some n" by blast
  then have "(q, n) \<in> set (w_names w)" using look_Some_key [of w q n] by simp
  with q show "has_child w p" by (auto simp: has_child_def list_ex_iff)
qed

lemma set_paths_under: "set (paths_under w root) = {p. prefix root p \<and> look w p \<noteq> None \<and> look w root \<noteq> None}"
proof -
  have "(p = root \<or> prefix root p \<and> p \<in> fst ` set (w_names w)) \<longleftrightarrow> prefix root p \<and> look w p \<noteq> None"
    if "look w root \<noteq> None" for p
  proof
    assume "p = root \<or> prefix root p \<and> p \<in> fst ` set (w_names w)"
    then show "prefix root p \<and> look w p \<noteq> None"
      using that key_look [of p _ w] by auto
  next
    assume p: "prefix root p \<and> look w p \<noteq> None"
    then obtain n where "look w p = Some n" by auto
    with p show "p = root \<or> prefix root p \<and> p \<in> fst ` set (w_names w)"
      using look_Some_key [of w p n] by force
  qed
  then show ?thesis
    by (auto simp: paths_under_def)
qed

lemma set_entries_under: "set (entries_under w root) = {(p, n). prefix root p \<and> look w p = Some n \<and> look w root \<noteq> None}"
  by (auto simp: entries_under_def set_paths_under)

section \<open>The invariant\<close>

definition wf :: "'s world \<Rightarrow> bool" where
  "wf w \<longleftrightarrow>
     (\<forall>p n. p \<noteq> [] \<longrightarrow> look w p = Some n \<longrightarrow> look w (butlast p) = Some Dir \<and> plain_comp (last p)) \<and>
     (\<forall>p i. look w p = Some (Reg i) \<longrightarrow> ino w i \<noteq> None) \<and>
     (\<forall>i. ino w i \<noteq> None \<longrightarrow> i < w_next w)"

lemma wfI:
  assumes "\<And>p n. p \<noteq> [] \<Longrightarrow> look w p = Some n \<Longrightarrow> look w (butlast p) = Some Dir \<and> plain_comp (last p)"
    and "\<And>p i. look w p = Some (Reg i) \<Longrightarrow> ino w i \<noteq> None"
    and "\<And>i. ino w i \<noteq> None \<Longrightarrow> i < w_next w"
  shows "wf w"
  using assms unfolding wf_def by blast

lemma wf_up: "wf w \<Longrightarrow> look w p = Some n \<Longrightarrow> p \<noteq> [] \<Longrightarrow> look w (butlast p) = Some Dir"
  unfolding wf_def by blast

lemma wf_last: "wf w \<Longrightarrow> look w p = Some n \<Longrightarrow> p \<noteq> [] \<Longrightarrow> plain_comp (last p)"
  unfolding wf_def by blast

lemma wf_reg: "wf w \<Longrightarrow> look w p = Some (Reg i) \<Longrightarrow> ino w i \<noteq> None"
  unfolding wf_def by blast

lemma wf_lt: "wf w \<Longrightarrow> ino w i \<noteq> None \<Longrightarrow> i < w_next w"
  unfolding wf_def by blast

lemma wf_parent: "wf w \<Longrightarrow> look w (p @ [c]) = Some n \<Longrightarrow> look w p = Some Dir"
  unfolding wf_def by (metis append_is_Nil_conv butlast_snoc not_Cons_self2)

lemma wf_plain: "wf w \<Longrightarrow> look w p = Some n \<Longrightarrow> plain_comps p"
proof (induction p arbitrary: n rule: rev_induct)
  case Nil
  then show ?case by simp
next
  case (snoc c p)
  from snoc.prems have "look w p = Some Dir" by (rule wf_parent)
  with snoc have "plain_comps p" by blast
  moreover have "plain_comp c"
    using snoc.prems unfolding wf_def by (metis append_is_Nil_conv last_snoc not_Cons_self2)
  ultimately show ?case by simp
qed

lemma wf_above: "wf w \<Longrightarrow> look w (p @ q) = Some n \<Longrightarrow> q \<noteq> [] \<Longrightarrow> look w p = Some Dir"
proof (induction q arbitrary: n rule: rev_induct)
  case Nil
  then show ?case by simp
next
  case (snoc c q)
  then have "look w (p @ q) = Some Dir"
    using wf_parent [of w "p @ q" c n] by simp
  with snoc show ?case by (cases "q = []") auto
qed

lemma wf_below_None: "wf w \<Longrightarrow> look w p \<noteq> Some Dir \<Longrightarrow> q \<noteq> [] \<Longrightarrow> look w (p @ q) = None"
  using wf_above by (cases "look w (p @ q)") auto

lemma wf_ino: "wf w \<Longrightarrow> look w p = Some (Reg i) \<Longrightarrow> \<exists>x. ino w i = Some x \<and> i < w_next w"
  unfolding wf_def by blast

lemma wf_next_unused: "wf w \<Longrightarrow> look w p \<noteq> Some (Reg (w_next w))" "wf w \<Longrightarrow> ino w (w_next w) = None"
  unfolding wf_def by blast+

lemma wf_frames [simp]:
  "wf (w\<lparr>w_tick := t\<rparr>) = wf w" "wf (w\<lparr>w_s3 := s\<rparr>) = wf w"
  by (simp_all add: wf_def)

lemma wf_set_name:
  assumes w: "wf w" and p: "p \<noteq> []" "plain_comp (last p)" "look w p = None" "look w (butlast p) = Some Dir"
    and n: "\<And>i. n = Reg i \<Longrightarrow> ino w i \<noteq> None"
  shows "wf (set_name p n w)"
proof (rule wfI)
  fix q m assume q: "q \<noteq> []" "look (set_name p n w) q = Some m"
  show "look (set_name p n w) (butlast q) = Some Dir \<and> plain_comp (last q)"
  proof (cases "q = p")
    case True
    have "butlast p \<noteq> p" using p(1) by (metis append_butlast_last_id append_self_conv not_Cons_self2)
    with True p show ?thesis by simp
  next
    case False
    with q p have l: "look w q = Some m" by simp
    with q w have u: "look w (butlast q) = Some Dir" by (simp add: wf_up)
    with p(3) have "butlast q \<noteq> p" by auto
    with u p(1) l q w show ?thesis by (simp add: wf_last)
  qed
next
  fix q i assume "look (set_name p n w) q = Some (Reg i)"
  then show "ino (set_name p n w) i \<noteq> None"
    using n p(1) wf_reg [OF w] by (auto split: if_splits)
next
  fix i assume "ino (set_name p n w) i \<noteq> None"
  then show "i < w_next (set_name p n w)" using wf_lt [OF w] by simp
qed

lemma wf_del_name:
  assumes w: "wf w" and p: "p \<noteq> []" "\<not> has_child w p"
  shows "wf (del_name p w)"
proof (rule wfI)
  fix q m assume q: "q \<noteq> []" "look (del_name p w) q = Some m"
  then have l: "q \<noteq> p" "look w q = Some m" using p(1) by (auto split: if_splits)
  then have "butlast q \<noteq> p" using p q(1) by (auto simp: has_child_iff)
  with l q w p(1) show "look (del_name p w) (butlast q) = Some Dir \<and> plain_comp (last q)"
    by (simp add: wf_up wf_last)
next
  fix q i assume "look (del_name p w) q = Some (Reg i)"
  then show "ino (del_name p w) i \<noteq> None"
    using p(1) wf_reg [OF w] by (auto split: if_splits)
next
  fix i assume "ino (del_name p w) i \<noteq> None"
  then show "i < w_next (del_name p w)" using wf_lt [OF w] by simp
qed

lemma wf_set_inode:
  assumes w: "wf w" and i: "ino w i \<noteq> None"
  shows "wf (set_inode i x w)"
proof (rule wfI)
  fix q m assume "q \<noteq> []" "look (set_inode i x w) q = Some m"
  then show "look (set_inode i x w) (butlast q) = Some Dir \<and> plain_comp (last q)"
    using w by (simp add: wf_up wf_last)
next
  fix q j assume "look (set_inode i x w) q = Some (Reg j)"
  then show "ino (set_inode i x w) j \<noteq> None" using wf_reg [OF w] by simp
next
  fix j assume "ino (set_inode i x w) j \<noteq> None"
  then show "j < w_next (set_inode i x w)" using wf_lt [OF w] i by (auto split: if_splits)
qed

lemma wf_append_inode: "wf w \<Longrightarrow> wf (append_inode i d w)"
  by (simp add: append_inode_def wf_set_inode split: option.splits)

lemma wf_alloc: "wf w \<Longrightarrow> wf ((set_inode (w_next w) x w)\<lparr>w_next := Suc (w_next w)\<rparr>)"
  by (rule wfI) (auto simp: wf_up wf_last less_Suc_eq dest: wf_reg wf_lt split: if_splits)

lemma set_name_next: "(set_name p n w)\<lparr>w_next := k\<rparr> = set_name p n (w\<lparr>w_next := k\<rparr>)"
  by (simp add: set_name_def)

lemma wf_create:
  assumes "wf w" "p \<noteq> []" "plain_comp (last p)" "look w p = None" "look w (butlast p) = Some Dir"
  shows "wf ((set_name p (Reg (w_next w)) (set_inode (w_next w) x w))\<lparr>w_next := Suc (w_next w)\<rparr>)"
  unfolding set_name_next by (rule wf_set_name) (use assms in \<open>simp_all add: wf_alloc\<close>)

lemma wf_move_names:
  assumes "wf w" "\<not> prefix to frm" "\<not> prefix frm to" "look w to \<noteq> Some Dir"
    "look w (butlast to) = Some Dir" "plain_comp (last to)"
  shows "wf (move_names frm to w)"
proof -
  note look = look_move_names [OF assms(2,3)]
  have ne: "to \<noteq> []" "frm \<noteq> []" using assms(2,3) by auto
  have "look (move_names frm to w) (butlast p) = Some Dir \<and> plain_comp (last p)"
    if "p \<noteq> []" "look (move_names frm to w) p = Some n" for p n
  proof (cases "prefix to p")
    case True
    then obtain r where p: "p = to @ r" by (auto simp: prefix_def)
    show ?thesis
    proof (cases "r = []")
      case True
      have "\<not> prefix to (butlast to)"
        using ne by (metis append_butlast_last_id prefix_length_le length_append_singleton Suc_n_not_le_n)
      moreover have "\<not> prefix frm (butlast to)"
        using assms(3) by (meson prefix_order.trans prefixeq_butlast)
      ultimately show ?thesis
        using True p assms(5,6) ne by (simp add: look)
    next
      case False
      have "look w (frm @ r) = Some n" using that(2) p by (simp add: look)
      moreover have "frm @ r \<noteq> []" using False by simp
      ultimately have "look w (butlast (frm @ r)) = Some Dir" "plain_comp (last (frm @ r))"
        using wf_up [OF assms(1)] wf_last [OF assms(1)] by blast+
      with False p show ?thesis by (simp add: look butlast_append)
    qed
  next
    case nt: False
    with that have nf: "\<not> prefix frm p" and "look w p = Some n"
      by (auto simp: look split: if_splits)
    with that(1) have d: "look w (butlast p) = Some Dir" "plain_comp (last p)"
      using wf_up [OF assms(1)] wf_last [OF assms(1)] by blast+
    moreover have "\<not> prefix to (butlast p)" "\<not> prefix frm (butlast p)"
      using nt nf by (meson prefix_order.trans prefixeq_butlast)+
    ultimately show ?thesis by (simp add: look)
  qed
  moreover have "ino w i \<noteq> None" if "look (move_names frm to w) p = Some (Reg i)" for p i
    using that wf_reg [OF assms(1)] by (simp add: look split: if_splits)
  ultimately show ?thesis
    using wf_lt [OF assms(1)] by (intro wfI) auto
qed

section \<open>Walking\<close>

text \<open>
  The rule for a walk whose function never skips: an invariant over the entries visited so
  far, and what holds when the walk ends early.
\<close>

lemma walk_entries_rule:
  assumes "I [] a w"
    and "\<And>ys p n a w. I ys a w \<Longrightarrow> (p, n) \<in> set xs \<Longrightarrow>
      (case fn p (Some n) None a w of (WOk a1, w1) \<Rightarrow> I (ys @ [(p, n)]) a1 w1 | (WErr e, w1) \<Rightarrow> Q e w1 | _ \<Rightarrow> False)"
    and "\<And>ys p a w. I ys a w \<Longrightarrow>
      (case sys E (SysReadDir p) w of (False, w1) \<Rightarrow> I ys a w1
       | (True, w1) \<Rightarrow> (case fn p (Some Dir) (Some (E_os EIO)) a w1 of (WErr e, w2) \<Rightarrow> Q e w2 | _ \<Rightarrow> False))"
  shows "case walk_entries E fn xs a w of (Inr a', w') \<Rightarrow> I xs a' w' | (Inl e, w') \<Rightarrow> Q e w'"
proof -
  have "case walk_entries E fn zs a w of (Inr a', w') \<Rightarrow> I (ys @ zs) a' w' | (Inl e, w') \<Rightarrow> Q e w'"
    if "I ys a w" "set zs \<subseteq> set xs" for ys zs a w
    using that
  proof (induction zs arbitrary: ys a w)
    case Nil
    then show ?case by simp
  next
    case (Cons x zs)
    obtain p n where x: "x = (p, n)" by (cases x)
    note step = assms(2) [OF Cons.prems(1), of p n]
    obtain c w1 where fn: "fn p (Some n) None a w = (c, w1)" by fastforce
    show ?case
    proof (cases c)
      case (WOk a1)
      then have I1: "I (ys @ [x]) a1 w1" using step fn Cons.prems(2) x by simp
      have tail: "case walk_entries E fn zs a1 w2 of (Inr a', w') \<Rightarrow> I (ys @ x # zs) a' w' | (Inl e, w') \<Rightarrow> Q e w'"
      if "I (ys @ [x]) a1 w2" for a1 w2
      using Cons.IH [of "ys @ [x]" a1 w2] that Cons.prems(2) by (auto split: prod.splits sum.splits)
      obtain b w2 where sys: "sys E (SysReadDir p) w1 = (b, w2)" by fastforce
      show ?thesis
      proof (cases "n = Dir")
        case False
        then show ?thesis using tail [OF I1] x fn WOk by simp
      next
        case True
        show ?thesis
        proof (cases b)
          case False
          then have "I (ys @ [x]) a1 w2" using assms(3) [OF I1, of p] sys by simp
          from tail [OF this] show ?thesis using x fn WOk sys False \<open>n = Dir\<close> by simp
        next
          case b: True
          obtain c2 w3 where f2: "fn p (Some Dir) (Some (E_os EIO)) a1 w2 = (c2, w3)" by fastforce
          then obtain e where "c2 = WErr e" "Q e w3"
            using assms(3) [OF I1, of p] sys b by (cases c2) auto
          then show ?thesis using f2 x fn WOk sys b True by simp
        qed
      qed
    next
      case (WErr e)
      then show ?thesis using step fn Cons.prems(2) x by simp
    qed (use step fn Cons.prems(2) x in auto)
  qed
  from this [of "[]" a w xs] assms(1) show ?thesis by (simp only: append_Nil subset_refl simp_thms True_implies_equals)
qed

lemma walk_entries_cong_step:
  assumes "\<And>p n err a w c w'. P p \<Longrightarrow> fn p n err a w = (c, w') \<Longrightarrow> R w w'"
    and "\<And>w. R w w" and "\<And>w1 w2 w3. R w1 w2 \<Longrightarrow> R w2 w3 \<Longrightarrow> R w1 w3"
    and "\<And>c w b w'. sys E c w = (b, w') \<Longrightarrow> R w w'"
  shows "walk_entries E fn xs a w = (r, w') \<Longrightarrow> \<forall>x \<in> set xs. P (fst x) \<Longrightarrow> R w w'"
proof (induction "length xs" arbitrary: xs a w r w' rule: less_induct)
  case less
  show ?case
  proof (cases xs)
    case Nil
    with less.prems assms(2) show ?thesis by simp
  next
    case (Cons x rest)
    obtain p n where x: "x = (p, n)" by (cases x)
    have Pp: "P p" using less.prems(2) Cons x by simp
    obtain c w1 where fn: "fn p (Some n) None a w = (c, w1)" by fastforce
    with Pp have R1: "R w w1" by (rule assms(1))
    have tail: "R w w'"
      if "length zs \<le> length rest" "set zs \<subseteq> set rest" "walk_entries E fn zs a w2 = (r, w')" "R w w2" for zs a w2
    proof -
      have "length zs < length xs" "\<forall>x \<in> set zs. P (fst x)" using that(1,2) Cons less.prems(2) by auto
      with less.hyps [of zs a w2 r w'] that(3) have "R w2 w'" by blast
      with that(4) show ?thesis by (rule assms(3))
    qed
    have skip: "length [x \<leftarrow> rest. \<not> prefix p (fst x)] \<le> length rest" "set [x \<leftarrow> rest. \<not> prefix p (fst x)] \<subseteq> set rest"
      by auto
    obtain b w2 where sys: "sys E (SysReadDir p) w1 = (b, w2)" by fastforce
    then have R2: "R w w2" using R1 assms(3,4) by blast
    show ?thesis
    proof (cases c)
      case (WOk a1)
      show ?thesis
      proof (cases "n = Dir \<and> b")
        case False
        then show ?thesis
          using less.prems(1) tail [of rest a1 w1] tail [of rest a1 w2] R1 R2 Cons x fn WOk sys
          by (auto split: if_splits)
      next
        case True
        obtain c2 w3 where f2: "fn p (Some Dir) (Some (E_os EIO)) a1 w2 = (c2, w3)" by fastforce
        then have R3: "R w w3" using R2 Pp assms(1,3) by blast
        with True show ?thesis
          using less.prems(1) tail [OF skip, of _ w3] Cons x fn WOk sys f2 by (cases c2) auto
      qed
    next
      case (WSkipDir a1)
      then show ?thesis using less.prems(1) tail [OF skip, of a1 w1] R1 Cons x fn by simp
    qed (use less.prems(1) R1 Cons x fn in auto)
  qed
qed

section \<open>What is kept\<close>

text \<open>The files are the same; only the clock and the S3 state may differ.\<close>

definition same_fs :: "'s world \<Rightarrow> 's world \<Rightarrow> bool" where
  "same_fs w w' \<longleftrightarrow> w_names w' = w_names w \<and> w_inodes w' = w_inodes w \<and> w_next w' = w_next w"

text \<open>No name of \<open>S\<close> changes, and neither does an inode a name of \<open>S\<close> links to.\<close>

definition frozen :: "fpath set \<Rightarrow> 's world \<Rightarrow> 's world \<Rightarrow> bool" where
  "frozen S w w' \<longleftrightarrow>
     (\<forall>p \<in> S. look w' p = look w p \<and> (\<forall>i. look w p = Some (Reg i) \<longrightarrow> ino w' i = ino w i))"

definition safe :: "fpath set \<Rightarrow> 's world \<Rightarrow> 's world \<Rightarrow> bool" where
  "safe S w w' \<longleftrightarrow> (wf w \<longrightarrow> wf w' \<and> frozen S w w')"

definition below :: "fpath \<Rightarrow> fpath set" where
  "below D = {p. prefix D p}"

lemma below_iff [simp]: "p \<in> below D \<longleftrightarrow> prefix D p"
  by (simp add: below_def)

text \<open>The contract: a relation that sequencing keeps and that ignores the clock.\<close>

locale step_order =
  fixes R :: "'s world \<Rightarrow> 's world \<Rightarrow> bool"
  assumes refl: "R w w"
    and trans: "R w1 w2 \<Longrightarrow> R w2 w3 \<Longrightarrow> R w1 w3"
    and tick: "R w (w\<lparr>w_tick := t\<rparr>)"
begin

lemma sys_step: "sys E c w = (b, w') \<Longrightarrow> R w w'"
  using tick by (auto simp: sys_def)

lemma and_then_step:
  assumes "and_then p f = (r, w')"
    and "\<And>x w1. p = (x, w1) \<Longrightarrow> R w w1"
    and "\<And>x w1. p = (Inr x, w1) \<Longrightarrow> f x w1 = (r, w') \<Longrightarrow> R w1 w'"
  shows "R w w'"
  using assms(1)
proof (cases rule: and_thenE)
  case (fail e)
  then show ?thesis using assms(2) by blast
next
  case (ok x s)
  then show ?thesis using assms(2,3) trans by blast
qed

text \<open>
  The rules follow the shapes the definitions use, so that applying them as introduction
  rules walks through a definition and leaves the single calls.
\<close>

lemma seq_step:
  assumes "R w (snd p)" "\<And>x w1. p = (Inr x, w1) \<Longrightarrow> R w1 (snd (f x w1))"
  shows "R w (snd (and_then p f))"
proof (cases p)
  case (Pair x w1)
  then show ?thesis using assms trans by (cases x) auto
qed

lemma if_ok_step:
  assumes "R w (snd p)" "\<And>w1. p = (None, w1) \<Longrightarrow> R w1 (snd (f w1))"
  shows "R w (snd (if_ok p f))"
proof (cases p)
  case (Pair x w1)
  then show ?thesis using assms trans by (cases x) auto
qed

lemma case_res_step:
  assumes "R w (snd p)" "\<And>e w1. p = (Inl e, w1) \<Longrightarrow> R w1 (snd (f e w1))"
    and "\<And>x w1. p = (Inr x, w1) \<Longrightarrow> R w1 (snd (g x w1))"
  shows "R w (snd (case p of (Inl e, w) \<Rightarrow> f e w | (Inr x, w) \<Rightarrow> g x w))"
proof (cases p)
  case (Pair x w1)
  then show ?thesis using assms trans by (cases x) auto
qed

lemma case_err_step:
  assumes "R w (snd p)" "\<And>e w1. p = (Some e, w1) \<Longrightarrow> R w1 (snd (f e w1))"
    and "\<And>w1. p = (None, w1) \<Longrightarrow> R w1 (snd (g w1))"
  shows "R w (snd (case p of (Some e, w) \<Rightarrow> f e w | (None, w) \<Rightarrow> g w))"
proof (cases p)
  case (Pair x w1)
  then show ?thesis using assms trans by (cases x) auto
qed

lemma pair_step: "R w (snd p) \<Longrightarrow> (\<And>x w1. p = (x, w1) \<Longrightarrow> R w1 (snd (f x w1))) \<Longrightarrow> R w (snd (case p of (x, w) \<Rightarrow> f x w))"
  by (cases p) (use trans in auto)

lemma tuple_step: "(\<And>a b. x = (a, b) \<Longrightarrow> R w (snd (f a b))) \<Longrightarrow> R w (snd (case x of (a, b) \<Rightarrow> f a b))"
  by (cases x) auto

lemma wrap_step: "R w (snd p) \<Longrightarrow> R w (snd (wrap_err g p))"
  by simp

lemma map_err_step: "R w (snd p) \<Longrightarrow> R w (snd (map_err g p))"
  by simp

lemma if_step: "(b \<Longrightarrow> R w (snd x)) \<Longrightarrow> (\<not> b \<Longrightarrow> R w (snd y)) \<Longrightarrow> R w (snd (if b then x else y))"
  by simp

lemma let_step: "R w (snd (f x)) \<Longrightarrow> R w (snd (Let x f))"
  by simp

lemma done_step: "R w w' \<Longrightarrow> R w (snd (r, w'))"
  by simp

lemma option_step: "(x = None \<Longrightarrow> R w (snd a)) \<Longrightarrow> (\<And>y. x = Some y \<Longrightarrow> R w (snd (f y))) \<Longrightarrow> R w (snd (case x of None \<Rightarrow> a | Some y \<Rightarrow> f y))"
  by (cases x) auto

lemma sum_step: "(\<And>e. x = Inl e \<Longrightarrow> R w (snd (f e))) \<Longrightarrow> (\<And>y. x = Inr y \<Longrightarrow> R w (snd (g y))) \<Longrightarrow> R w (snd (case x of Inl e \<Rightarrow> f e | Inr y \<Rightarrow> g y))"
  by (cases x) auto

lemmas step_rules = seq_step if_ok_step case_res_step case_err_step wrap_step map_err_step if_step let_step
  done_step option_step sum_step

lemma walk_dir_step:
  assumes "\<And>p n err a w c w'. prefix root p \<Longrightarrow> fn p n err a w = (c, w') \<Longrightarrow> R w w'"
    and "walk_dir E fn root a w = (r, w')"
  shows "R w w'"
proof (cases "look w root")
  case None
  obtain c w1 where f: "fn root None (Some (E_os ENOENT)) a w = (c, w1)" by fastforce
  with None assms(2) have "w1 = w'" by (cases c) (auto simp: walk_dir_def)
  with f show ?thesis using assms(1) [of root] by blast
next
  case (Some n)
  with assms(2) have run: "walk_entries E fn (entries_under w root) a w = (r, w')"
    by (simp add: walk_dir_def)
  have below: "\<forall>x \<in> set (entries_under w root). prefix root (fst x)"
    by (auto simp: set_entries_under)
  show ?thesis
  proof (rule walk_entries_cong_step [where P = "prefix root" and R = R, OF _ _ _ _ run below])
    show "R w w'" if "prefix root p" "fn p n err a w = (c, w')" for p n err a w c w'
      using that by (rule assms(1))
    show "R w w" for w by (rule refl)
    show "R w1 w3" if "R w1 w2" "R w2 w3" for w1 w2 w3 using that by (rule trans)
    show "R w w'" if "sys E c w = (b, w')" for c w b w' using that by (rule sys_step)
  qed
qed

lemma mkdir_list_step:
  assumes "\<And>p w. p \<in> set ps \<Longrightarrow> R w (snd (os_mkdir E p w))"
  shows "R w (snd (mkdir_list E ps w))"
  using assms
proof (induction ps arbitrary: w)
  case Nil
  then show ?case by (simp add: refl)
next
  case (Cons p ps)
  obtain e w1 where m: "os_mkdir E p w = (e, w1)" by fastforce
  then have "R w w1" using Cons.prems [of p w] by simp
  with Cons.IH [of w] Cons.IH [of w1] Cons.prems m show ?case
    by (auto simp: refl split: option.splits node.splits intro: trans)
qed

lemma remove_list_step:
  assumes "\<And>p w. p \<in> set ps \<Longrightarrow> R w (snd (os_remove E p w))"
  shows "R w (snd (remove_list E ps err w))"
  using assms
proof (induction ps arbitrary: err w)
  case Nil
  then show ?case by (simp add: refl)
next
  case (Cons p ps)
  obtain e w1 where m: "os_remove E p w = (e, w1)" by fastforce
  then have "R w w1" using Cons.prems [of p w] by simp
  moreover have "R w1 (snd (remove_list E ps err' w1))" for err'
    using Cons by simp
  ultimately show ?case
    using m by (auto split: option.splits intro: trans)
qed

end

interpretation same: step_order same_fs
  by unfold_locales (simp_all add: same_fs_def)

lemma frozen_trans: "frozen S w1 w2 \<Longrightarrow> frozen S w2 w3 \<Longrightarrow> frozen S w1 w3"
  unfolding frozen_def by simp

interpretation keep: step_order "safe S" for S
  by unfold_locales (auto simp: safe_def frozen_def)

end
