(* ===== verification/FsKeep.thy ===== *)
theory FsKeep
  imports FsFacts
begin

text \<open>
  What the single calls keep: every call leaves a set of paths and the files behind them as
  they are (\<open>safe S\<close>) when it stays clear of them; the view \<open>tree_at\<close> of a directory as
  contents, and how a rename carries it.
\<close>

named_theorems keep_intros \<open>safety of single calls\<close>

lemma butlast_strict: "p \<noteq> [] \<Longrightarrow> \<not> prefix p (butlast p)"
  by (metis append_butlast_last_id length_append_singleton lessI linorder_not_less prefix_length_le)

lemma safe_refl [simp, keep_intros]: "safe S w w"
  by (rule keep.refl)

lemma safe_tick [simp, keep_intros]: "safe S w (w\<lparr>w_tick := t\<rparr>)"
  by (rule keep.tick)

lemma safe_tick_iff: "safe S (w\<lparr>w_tick := t\<rparr>) w' = safe S w w'"
  by (simp add: safe_def frozen_def)

lemma same_fs_look: "same_fs w w' \<Longrightarrow> look w' = look w"
  by (auto simp: same_fs_def look_def)

lemma same_fs_ino: "same_fs w w' \<Longrightarrow> ino w' = ino w"
  by (auto simp: same_fs_def ino_def)

lemma same_fs_safe: "same_fs w w' \<Longrightarrow> safe S w w'"
  unfolding safe_def frozen_def wf_def
  by (simp add: same_fs_look same_fs_ino) (simp add: same_fs_def)

lemma safe_set_name:
  assumes "p \<noteq> []" "plain_comp (last p)" "look w p = None" "look w (butlast p) = Some Dir"
    and "\<And>i. n = Reg i \<Longrightarrow> ino w i \<noteq> None" and "p \<notin> S"
  shows "safe S w (set_name p n w)"
proof -
  have "wf (set_name p n w)" if "wf w" using that assms(1-5) by (rule wf_set_name)
  moreover have "frozen S w (set_name p n w)" using assms(1,6) by (auto simp: frozen_def)
  ultimately show ?thesis by (simp add: safe_def)
qed

lemma safe_set_inode:
  assumes "ino w i \<noteq> None" "\<And>q. q \<in> S \<Longrightarrow> look w q \<noteq> Some (Reg i)"
  shows "safe S w (set_inode i x w)"
  using assms wf_set_inode [of w i x] by (auto simp: safe_def frozen_def)

section \<open>Calls\<close>

lemma os_open_same: "os_open E p w = (r, w') \<Longrightarrow> same_fs w w'"
  by (auto simp: os_open_def sys_def Let_def same_fs_def split: if_splits option.splits node.splits)

lemma os_read_dir_same: "os_read_dir E p w = (r, w') \<Longrightarrow> same_fs w w'"
  by (auto simp: os_read_dir_def sys_def Let_def same_fs_def split: if_splits)

lemma os_close_same: "os_close E i w = (r, w') \<Longrightarrow> same_fs w w'"
  by (auto simp: os_close_def sys_def Let_def same_fs_def)

lemma os_create_safe [keep_intros]:
  assumes "os_create E p m w = (r, w')" "p \<notin> S" "plain_comp (last p)"
  shows "safe S w w'"
proof -
  let ?x = "\<lparr>i_data = [], i_mode = m AND NOT (umask E)\<rparr>"
  let ?w = "(set_name p (Reg (w_next w)) (set_inode (w_next w) ?x (w\<lparr>w_tick := Suc (w_tick w)\<rparr>)))\<lparr>w_next := Suc (w_next w)\<rparr>"
  consider "w' = w\<lparr>w_tick := Suc (w_tick w)\<rparr>"
    | "w' = ?w" "look w p = None" "look w (butlast p) = Some Dir" "p \<noteq> []"
    using assms(1)
    by (auto simp: os_create_def sys_def Let_def parent_def split: if_splits intro: that)
  then show ?thesis
  proof cases
    case 1
    then show ?thesis by simp
  next
    case 2
    have "wf ?w" if "wf w"
      using wf_create [of "w\<lparr>w_tick := Suc (w_tick w)\<rparr>" p ?x] that 2 assms(3) by simp
    moreover have "frozen S w ?w" if "wf w"
      using 2 assms(2) wf_next_unused(1) [OF that] by (auto simp: frozen_def)
    ultimately show ?thesis using 2(1) by (simp add: safe_def)
  qed
qed

lemma os_write_safe [keep_intros]:
  assumes "os_write E i d w = (r, w')" "\<And>q. q \<in> S \<Longrightarrow> look w q \<noteq> Some (Reg i)"
  shows "safe S w w'"
proof -
  have "safe S w1 (append_inode i e w1)" if "look w1 = look w" for e and w1 :: "'a world"
    using assms(2) that by (auto simp: append_inode_def split: option.splits intro: safe_set_inode)
  then have "safe S (w\<lparr>w_tick := t\<rparr>) (append_inode i e (w\<lparr>w_tick := t\<rparr>))" for e t
    by (simp add: fun_eq_iff)
  then have "safe S w (append_inode i e (w\<lparr>w_tick := t\<rparr>))" for e t
    by (simp add: safe_tick_iff)
  then show ?thesis using assms(1) by (auto simp: os_write_def sys_def Let_def split: if_splits)
qed

lemma os_chmod_safe [keep_intros]:
  assumes "os_chmod E p m w = (r, w')"
    and "\<And>q i. look w p = Some (Reg i) \<Longrightarrow> q \<in> S \<Longrightarrow> look w q \<noteq> Some (Reg i)"
  shows "safe S w w'"
proof -
  let ?w = "w\<lparr>w_tick := Suc (w_tick w)\<rparr>"
  consider "w' = ?w" | i x where "look w p = Some (Reg i)" "ino w i = Some x" "w' = set_inode i (x\<lparr>i_mode := m\<rparr>) ?w"
    using assms(1)
    by (auto simp: os_chmod_def sys_def Let_def split: if_splits option.splits node.splits intro: that)
  then show ?thesis
  proof cases
    case 2
    then have "safe S ?w w'" using assms(2) by (auto intro!: safe_set_inode)
    then show ?thesis by (simp add: safe_tick_iff)
  qed simp
qed

lemma os_mkdir_safe [keep_intros]:
  assumes "os_mkdir E p w = (r, w')" "p \<notin> S" "plain_comp (last p)"
  shows "safe S w w'"
proof -
  let ?w = "w\<lparr>w_tick := Suc (w_tick w)\<rparr>"
  consider "w' = ?w" | "w' = set_name p Dir ?w" "look w p = None" "look w (butlast p) = Some Dir" "p \<noteq> []"
    using assms(1) by (auto simp: os_mkdir_def sys_def Let_def parent_def split: if_splits intro: that)
  then show ?thesis
  proof cases
    case 2
    then have "safe S ?w w'" using assms(2,3) by (auto intro!: safe_set_name)
    then show ?thesis by (simp add: safe_tick_iff)
  qed simp
qed

lemma os_link_safe [keep_intros]:
  assumes "os_link E old new w = (r, w')" "new \<notin> S" "plain_comp (last new)"
  shows "safe S w w'"
proof (cases "wf w")
  case True
  let ?w = "w\<lparr>w_tick := Suc (w_tick w)\<rparr>"
  consider "w' = ?w" | n where "w' = set_name new n ?w" "look w new = None" "look w (butlast new) = Some Dir" "new \<noteq> []"
      "look w old = Some n"
    using assms(1) by (auto simp: os_link_def sys_def Let_def parent_def split: if_splits option.splits node.splits intro: that)
  then show ?thesis
  proof cases
    case 2
    then have "safe S ?w w'" using assms(2,3) wf_reg [OF True] by (auto intro!: safe_set_name)
    then show ?thesis by (simp add: safe_tick_iff)
  qed simp
qed (simp add: safe_def)

lemma os_rename_safe [keep_intros]:
  assumes "os_rename E frm to w = (r, w')" "plain_comp (last to)"
    and "\<And>q. q \<in> S \<Longrightarrow> \<not> prefix frm q \<and> \<not> prefix to q"
  shows "safe S w w'"
proof -
  let ?w = "w\<lparr>w_tick := Suc (w_tick w)\<rparr>"
  consider "w' = ?w" | "w' = move_names frm to ?w" "\<not> prefix frm to" "\<not> prefix to frm"
      "look w to \<noteq> Some Dir" "look w (butlast to) = Some Dir"
    using assms(1) by (auto simp: os_rename_def sys_def Let_def parent_def split: if_splits option.splits intro: that)
  then show ?thesis
  proof cases
    case 2
    then have "wf w \<longrightarrow> wf w'" using wf_move_names [of ?w to frm] assms(2) by simp
    moreover have "frozen S w w'"
      using 2 assms(3) by (auto simp: frozen_def look_move_names)
    ultimately show ?thesis by (simp add: safe_def)
  qed simp
qed

lemma os_remove_safe [keep_intros]:
  assumes "os_remove E p w = (r, w')" "p \<notin> S"
  shows "safe S w w'"
proof -
  let ?w = "w\<lparr>w_tick := Suc (w_tick w)\<rparr>"
  consider "w' = ?w" | "w' = del_name p ?w" "p \<noteq> []" "\<not> has_child w p"
    using assms(1) by (auto simp: os_remove_def sys_def Let_def has_child_def split: if_splits intro: that)
  then show ?thesis
  proof cases
    case 2
    then have "wf w \<longrightarrow> wf w'" using wf_del_name [of ?w p] by (simp add: has_child_def)
    moreover have "frozen S w w'" using 2 assms(2) by (auto simp: frozen_def)
    ultimately show ?thesis by (simp add: safe_def)
  qed simp
qed

lemma os_remove_all_safe [keep_intros]:
  assumes "os_remove_all E p w = (r, w')" "\<And>q. q \<in> S \<Longrightarrow> \<not> prefix p q"
  shows "safe S w w'"
proof -
  have "safe S w (snd (remove_list E (rev (paths_under w p)) None w))"
  proof (rule keep.remove_list_step)
    fix q and w1 :: "'a world"
    assume "q \<in> set (rev (paths_under w p))"
    then have "q \<notin> S" using assms(2) by (auto simp: set_paths_under)
    then show "safe S w1 (snd (os_remove E q w1))"
      by (metis os_remove_safe prod.collapse)
  qed
  then show ?thesis using assms(1) by (simp add: os_remove_all_def)
qed

lemma os_mkdir_all_safe [keep_intros]:
  assumes "os_mkdir_all E p w = (r, w')" "plain_comps p" "\<And>q. prefix q p \<Longrightarrow> q \<notin> S"
  shows "safe S w w'"
proof -
  have "safe S w (snd (mkdir_list E (prefixes p) w))"
  proof (rule keep.mkdir_list_step)
    fix q and w1 :: "'a world"
    assume q: "q \<in> set (prefixes p)"
    then have qp: "prefix q p" by simp
    show "safe S w1 (snd (os_mkdir E q w1))"
    proof (cases "q = []")
      case True
      then have "snd (os_mkdir E q w1) = w1\<lparr>w_tick := Suc (w_tick w1)\<rparr>"
        by (simp add: os_mkdir_def sys_def)
      then show ?thesis by simp
    next
      case False
      have "plain_comps q" using assms(2) qp by (auto simp: prefix_def)
      then have "plain_comp (last q)" using False by (auto simp: list_all_iff)
      then show ?thesis using assms(3) [OF qp] by (metis os_mkdir_safe prod.collapse)
    qed
  qed
  then show ?thesis using assms(1) by (simp add: os_mkdir_all_def)
qed

section \<open>Staying clear\<close>

text \<open>No path of \<open>S\<close> is at or below \<open>p\<close>.\<close>

definition clear :: "fpath set \<Rightarrow> fpath \<Rightarrow> bool" where
  "clear S p \<longleftrightarrow> (\<forall>q \<in> S. \<not> prefix p q)"

lemma clear_notin: "clear S p \<Longrightarrow> p \<notin> S"
  by (auto simp: clear_def)

lemma clear_below: "clear S T \<Longrightarrow> prefix T p \<Longrightarrow> clear S p"
  unfolding clear_def by (meson prefix_order.trans)

lemma clear_append [simp]: "clear S T \<Longrightarrow> clear S (T @ r)"
  by (rule clear_below) (auto simp: prefix_def)

lemma clear_sibling: "length T = length D \<Longrightarrow> T \<noteq> D \<Longrightarrow> clear (below D) T"
  unfolding clear_def using prefix_same_length by fastforce

text \<open>No path of \<open>S\<close> is on the way to, at or below \<open>T\<close>.\<close>

definition apart :: "fpath set \<Rightarrow> fpath \<Rightarrow> bool" where
  "apart S T \<longleftrightarrow> (\<forall>q \<in> S. \<not> prefix T q \<and> \<not> prefix q T)"

lemma apart_clear: "apart S T \<Longrightarrow> prefix T p \<Longrightarrow> clear S p"
  unfolding clear_def apart_def by (meson prefix_order.trans)

lemma apart_above: "apart S T \<Longrightarrow> prefix T p \<Longrightarrow> prefix q p \<Longrightarrow> q \<notin> S"
  unfolding apart_def by (metis prefix_same_cases)

lemma apart_sibling: "length T = length D \<Longrightarrow> T \<noteq> D \<Longrightarrow> apart (below D) T"
  unfolding apart_def
proof (intro ballI conjI notI)
  fix q assume len: "length T = length D" "T \<noteq> D" and q: "q \<in> below D"
  then have D: "prefix D q" by simp
  show False if "prefix T q"
    using prefix_same_length [OF that D] len by simp
  show False if "prefix q T"
    using prefix_same_length [of D T T] prefix_order.trans [OF D that] len by simp
qed

lemma apart_subset: "apart S T \<Longrightarrow> S' \<subseteq> S \<Longrightarrow> apart S' T"
  by (auto simp: apart_def)

lemma apart_Un: "apart (S \<union> S') T \<longleftrightarrow> apart S T \<and> apart S' T"
  by (auto simp: apart_def)

text \<open>The calls once more, as steps of a definition.\<close>

lemma create_keep: "clear S p \<Longrightarrow> plain_comp (last p) \<Longrightarrow> safe S w (snd (os_create E p m w))"
  by (metis clear_notin os_create_safe prod.collapse)

lemma mkdir_keep: "clear S p \<Longrightarrow> plain_comp (last p) \<Longrightarrow> safe S w (snd (os_mkdir E p w))"
  by (metis clear_notin os_mkdir_safe prod.collapse)

lemma link_keep: "clear S new \<Longrightarrow> plain_comp (last new) \<Longrightarrow> safe S w (snd (os_link E old new w))"
  by (metis clear_notin os_link_safe prod.collapse)

lemma rename_keep: "clear S frm \<Longrightarrow> clear S to \<Longrightarrow> plain_comp (last to) \<Longrightarrow> safe S w (snd (os_rename E frm to w))"
  unfolding clear_def by (metis os_rename_safe prod.collapse)

lemma remove_keep: "clear S p \<Longrightarrow> safe S w (snd (os_remove E p w))"
  by (metis clear_notin os_remove_safe prod.collapse)

lemma remove_all_keep: "clear S p \<Longrightarrow> safe S w (snd (os_remove_all E p w))"
  unfolding clear_def by (metis os_remove_all_safe prod.collapse)

lemma mkdir_all_keep: "(\<And>q. prefix q p \<Longrightarrow> q \<notin> S) \<Longrightarrow> plain_comps p \<Longrightarrow> safe S w (snd (os_mkdir_all E p w))"
  by (metis os_mkdir_all_safe prod.collapse)

lemma open_keep: "safe S w (snd (os_open E p w))"
  by (metis os_open_same prod.collapse same_fs_safe)

lemma read_dir_keep: "safe S w (snd (os_read_dir E p w))"
  by (metis os_read_dir_same prod.collapse same_fs_safe)

lemma close_keep: "safe S w (snd (os_close E i w))"
  by (metis os_close_same prod.collapse same_fs_safe)

lemma write_keep: "(\<And>q. q \<in> S \<Longrightarrow> look w q \<noteq> Some (Reg i)) \<Longrightarrow> safe S w (snd (os_write E i d w))"
  by (metis os_write_safe prod.collapse)

lemmas call_keeps = create_keep mkdir_keep link_keep rename_keep remove_keep remove_all_keep open_keep
  read_dir_keep close_keep keep.refl

section \<open>A directory as contents\<close>

datatype entry = EDir | EFile bytes file_mode | ESpecial string

definition entry_of :: "'s world \<Rightarrow> node \<Rightarrow> entry option" where
  "entry_of w n = (case n of Dir \<Rightarrow> Some EDir | Special t \<Rightarrow> Some (ESpecial t)
     | Reg i \<Rightarrow> map_option (\<lambda>x. EFile (i_data x) (i_mode x)) (ino w i))"

definition tree_at :: "'s world \<Rightarrow> fpath \<Rightarrow> fpath \<Rightarrow> entry option" where
  "tree_at w D r = Option.bind (look w (D @ r)) (entry_of w)"

lemma tree_at_None_iff: "wf w \<Longrightarrow> tree_at w D r = None \<longleftrightarrow> look w (D @ r) = None"
  by (cases "look w (D @ r)") (auto simp: tree_at_def entry_of_def dest: wf_reg split: node.splits)

lemma tree_at_Dir_iff: "tree_at w D r = Some EDir \<longleftrightarrow> look w (D @ r) = Some Dir"
  by (cases "look w (D @ r)") (auto simp: tree_at_def entry_of_def split: node.splits)

lemma tree_at_File_iff:
  "tree_at w D r = Some (EFile d md) \<longleftrightarrow> (\<exists>i x. look w (D @ r) = Some (Reg i) \<and> ino w i = Some x \<and> i_data x = d \<and> i_mode x = md)"
  by (cases "look w (D @ r)") (auto simp: tree_at_def entry_of_def split: node.splits)

lemma tree_at_append: "tree_at w (D @ r) s = tree_at w D (r @ s)"
  by (simp add: tree_at_def)

lemma entry_of_cong: "ino w' = ino w \<Longrightarrow> entry_of w' = entry_of w"
  by (rule ext) (simp add: entry_of_def split: node.splits)

lemma same_fs_tree: "same_fs w w' \<Longrightarrow> tree_at w' D = tree_at w D"
  by (rule ext) (simp add: tree_at_def same_fs_look entry_of_cong [OF same_fs_ino])

lemma frozen_tree_at:
  assumes "frozen S w w'" "below D \<subseteq> S"
  shows "tree_at w' D = tree_at w D"
proof
  fix r
  have "D @ r \<in> S" using assms(2) by auto
  then have "look w' (D @ r) = look w (D @ r)" "\<And>i. look w (D @ r) = Some (Reg i) \<Longrightarrow> ino w' i = ino w i"
    using assms(1) by (auto simp: frozen_def)
  then show "tree_at w' D r = tree_at w D r"
    by (cases "look w (D @ r)") (auto simp: tree_at_def entry_of_def split: node.splits)
qed

lemma safe_tree_at: "safe S w w' \<Longrightarrow> wf w \<Longrightarrow> below D \<subseteq> S \<Longrightarrow> tree_at w' D = tree_at w D"
  by (auto simp: safe_def intro: frozen_tree_at)

lemma tree_at_cong:
  assumes "\<And>r. look w' (D' @ r) = look w (D @ r)" "\<And>i. ino w' i = ino w i"
  shows "tree_at w' D' = tree_at w D"
proof -
  have "entry_of w' = entry_of w" by (rule entry_of_cong) (use assms(2) in auto)
  with assms(1) show ?thesis by (auto simp: tree_at_def)
qed

text \<open>A rename to a free name carries the tree along and leaves nothing behind.\<close>

lemma os_rename_moves:
  assumes "os_rename E frm to w = (None, w')" "look w frm = Some Dir \<or> look w to = None" "frm \<noteq> to"
  shows "tree_at w' to = tree_at w frm" "look w' frm = None"
    "\<not> prefix frm to" "\<not> prefix to frm" "look w to = None" "look w (butlast to) = Some Dir"
    "w' = move_names frm to (w\<lparr>w_tick := Suc (w_tick w)\<rparr>)"
proof -
  from assms have w': "w' = move_names frm to (w\<lparr>w_tick := Suc (w_tick w)\<rparr>)"
    and np: "\<not> prefix frm to" "\<not> prefix to frm" and t: "look w to = None" "look w (butlast to) = Some Dir"
    by (auto simp: os_rename_def sys_def Let_def parent_def is_reg_def split: if_splits option.splits)
  note l = look_move_names [OF np(2,1)]
  show "tree_at w' to = tree_at w frm"
    by (rule tree_at_cong) (simp_all add: w' l)
  show "look w' frm = None" using np by (simp add: w' l)
  show "\<not> prefix frm to" "\<not> prefix to frm" "look w to = None" "look w (butlast to) = Some Dir"
    "w' = move_names frm to (w\<lparr>w_tick := Suc (w_tick w)\<rparr>)"
    by (fact np t w')+
qed

lemma os_rename_fails: "os_rename E frm to w = (Some e, w') \<Longrightarrow> w' = w\<lparr>w_tick := Suc (w_tick w)\<rparr>"
  by (auto simp: os_rename_def sys_def Let_def split: if_splits option.splits)

end
