(* ===== verification/S3Api.thy ===== *)
theory S3Api
  imports FsKeep
begin

text \<open>
  The S3 client as the program sees it. The SDK is not part of the repository: each operation
  is a function the definitions take as an argument, from a request and the client's state to
  a result and the next state, so a theorem for every function covers every server, network
  failure and cancelled context. Here are the request and response fields the code sets and
  reads (absent pointers are \<open>None\<close>), and the classification of errors by \<open>errors.As\<close>.
\<close>

record get_in =
  gi_bucket :: string
  gi_key :: string
  gi_checksum :: bool
  gi_range :: "string option"
  gi_if_match :: "string option"
  gi_relaxed :: bool

record get_out =
  go_body :: reader
  go_etag :: "string option"
  go_version :: "string option"
  go_range :: "string option"
  go_length :: "int option"

record put_in =
  pi_bucket :: string
  pi_key :: string
  pi_body :: reader
  pi_length :: "int option"
  pi_sha256 :: bool
  pi_sum :: "string option"

record head_in =
  hi_bucket :: string
  hi_key :: string
  hi_checksum :: bool

record head_out =
  ho_length :: "int option"
  ho_sum :: "string option"
  ho_composite :: bool

record list_in =
  li_bucket :: string
  li_prefix :: string
  li_token :: "string option"
  li_max :: "nat option"

record s3_object =
  ob_key :: "string option"
  ob_modified :: "int option"

record list_out =
  lo_contents :: "s3_object list"
  lo_truncated :: bool
  lo_next :: "string option"

record delete_in =
  di_bucket :: string
  di_keys :: "string list"
  di_quiet :: bool

record delete_out =
  do_deleted :: "string list"
  do_errors :: "(string \<times> string) list"

type_synonym ('i, 'o, 's) s3_call = "'i \<Rightarrow> 's \<Rightarrow> 'o res \<times> 's"
type_synonym 's get_fn = "(get_in, get_out, 's) s3_call"
type_synonym 's put_fn = "(put_in, unit, 's) s3_call"
type_synonym 's head_fn = "(head_in, head_out, 's) s3_call"
type_synonym 's list_fn = "(list_in, list_out, 's) s3_call"
type_synonym 's delete_fn = "(delete_in, delete_out, 's) s3_call"

text \<open>The whole-object GET with checksum mode that every reader of a manifest or file makes.\<close>

definition get_request :: "string \<Rightarrow> string \<Rightarrow> get_in" where
  "get_request bucket key =
     \<lparr>gi_bucket = bucket, gi_key = key, gi_checksum = True, gi_range = None, gi_if_match = None, gi_relaxed = False\<rparr>"

text \<open>\<open>aws.ToString\<close> and \<open>aws.ToInt64\<close>.\<close>

definition to_string :: "string option \<Rightarrow> string" where
  "to_string x = (case x of None \<Rightarrow> [] | Some s \<Rightarrow> s)"

definition to_int64 :: "int option \<Rightarrow> int" where
  "to_int64 x = (case x of None \<Rightarrow> 0 | Some n \<Rightarrow> n)"

text \<open>\<open>errors.As\<close>: the first error of the tree, outermost first, that the target type takes.\<close>

fun find_err :: "(gerr \<Rightarrow> 'a option) \<Rightarrow> gerr \<Rightarrow> 'a option" where
  "find_err f (E_wrap m a es) =
     (case f (E_wrap m a es) of Some x \<Rightarrow> Some x | None \<Rightarrow> first_some (map (find_err f) es))"
| "find_err f (E_join es) =
     (case f (E_join es) of Some x \<Rightarrow> Some x | None \<Rightarrow> first_some (map (find_err f) es))"
| "find_err f e = f e"

definition http_status :: "gerr \<Rightarrow> nat option" where
  "http_status e = find_err (\<lambda>x. case x of E_http st _ \<Rightarrow> Some st | _ \<Rightarrow> None) e"

definition api_code :: "gerr \<Rightarrow> string option" where
  "api_code e = find_err (\<lambda>x. case x of E_http _ c \<Rightarrow> Some c | E_api c \<Rightarrow> Some c | _ \<Rightarrow> None) e"

text \<open>The modelled errors \<open>types.NoSuchKey\<close> and \<open>types.NotFound\<close>.\<close>

definition is_no_such_key :: "gerr \<Rightarrow> bool" where
  "is_no_such_key e \<longleftrightarrow> err_exists (\<lambda>x. x = E_api ''NoSuchKey'') e"

definition is_not_found :: "gerr \<Rightarrow> bool" where
  "is_not_found e \<longleftrightarrow> err_exists (\<lambda>x. x = E_api ''NotFound'') e"

text \<open>A call in a world runs on the client's part of the state and leaves the files alone.\<close>

definition s3_call :: "('i, 'o, 's) s3_call \<Rightarrow> 'i \<Rightarrow> 's world \<Rightarrow> 'o res \<times> 's world" where
  "s3_call f i w = (case f i (w_s3 w) of (r, s) \<Rightarrow> (r, w\<lparr>w_s3 := s\<rparr>))"

lemma s3_call_same: "s3_call f i w = (r, w') \<Longrightarrow> same_fs w w'"
  by (auto simp: s3_call_def same_fs_def split: prod.splits)

section \<open>What leaves the client alone\<close>

definition same_client :: "'s world \<Rightarrow> 's world \<Rightarrow> bool" where
  "same_client w w' \<longleftrightarrow> same_fs w w' \<and> w_s3 w' = w_s3 w"

interpretation client: step_order same_client
  by unfold_locales (auto simp: same_client_def same_fs_def)

lemma os_open_client: "os_open E p w = (r, w') \<Longrightarrow> same_client w w'"
  using os_open_same [of E p w r w']
  by (auto simp: same_client_def os_open_def sys_def Let_def split: if_splits option.splits node.splits)

lemma same_clientD: "same_client w w' \<Longrightarrow> same_fs w w'" "same_client w w' \<Longrightarrow> w_s3 w' = w_s3 w"
  by (simp_all add: same_client_def)

end
