(* ===== verification/Digest.thy ===== *)
theory Digest
  imports Prelude "HOL-Library.Word"
begin

unbundle bit_operations_syntax

text \<open>
  The three byte encodings of Go's standard library that tie the program's parts together:
  \<open>crypto/sha256\<close> (the only notion of equal content the program has), \<open>encoding/hex\<close> (the
  digest as the manifest stores it) and \<open>encoding/base64\<close> (the digest as S3 stores it).
  SHA-256 is the standard's algorithm on 32-bit words. The lemmas say that a hex digest is
  64 lowercase hex digits, that hex decoding undoes encoding, and that base64 is injective,
  so comparing S3's checksum with the manifest's digest compares the digests themselves.
\<close>

section \<open>SHA-256\<close>

text \<open>The standard's constants, in decimal.\<close>

type_synonym u32 = "32 word"
type_synonym sha_state = "u32 \<times> u32 \<times> u32 \<times> u32 \<times> u32 \<times> u32 \<times> u32 \<times> u32"

definition sha_k :: "u32 list" where
  "sha_k = [
   1116352408, 1899447441, 3049323471, 3921009573, 961987163, 1508970993,
   2453635748, 2870763221, 3624381080, 310598401, 607225278, 1426881987,
   1925078388, 2162078206, 2614888103, 3248222580, 3835390401, 4022224774,
   264347078, 604807628, 770255983, 1249150122, 1555081692, 1996064986,
   2554220882, 2821834349, 2952996808, 3210313671, 3336571891, 3584528711,
   113926993, 338241895, 666307205, 773529912, 1294757372, 1396182291,
   1695183700, 1986661051, 2177026350, 2456956037, 2730485921, 2820302411,
   3259730800, 3345764771, 3516065817, 3600352804, 4094571909, 275423344,
   430227734, 506948616, 659060556, 883997877, 958139571, 1322822218,
   1537002063, 1747873779, 1955562222, 2024104815, 2227730452, 2361852424,
   2428436474, 2756734187, 3204031479, 3329325298]"

definition sha_init :: sha_state where
  "sha_init = (1779033703, 3144134277, 1013904242, 2773480762, 1359893119, 2600822924, 528734635, 1541459225)"

definition big_sigma0 :: "u32 \<Rightarrow> u32" where
  "big_sigma0 x = word_rotr 2 x XOR word_rotr 13 x XOR word_rotr 22 x"

definition big_sigma1 :: "u32 \<Rightarrow> u32" where
  "big_sigma1 x = word_rotr 6 x XOR word_rotr 11 x XOR word_rotr 25 x"

definition small_sigma0 :: "u32 \<Rightarrow> u32" where
  "small_sigma0 x = word_rotr 7 x XOR word_rotr 18 x XOR drop_bit 3 x"

definition small_sigma1 :: "u32 \<Rightarrow> u32" where
  "small_sigma1 x = word_rotr 17 x XOR word_rotr 19 x XOR drop_bit 10 x"

fun sha_round :: "u32 \<times> u32 \<Rightarrow> sha_state \<Rightarrow> sha_state" where
  "sha_round (k, w) (a, b, c, d, e, f, g, h) =
     (let t1 = h + big_sigma1 e + ((e AND f) XOR (NOT e AND g)) + k + w;
          t2 = big_sigma0 a + ((a AND b) XOR (a AND c) XOR (b AND c))
      in (t1 + t2, a, b, c, d + t1, e, f, g))"

text \<open>The message schedule: sixteen words of a block, extended to sixty-four.\<close>

primrec sha_extend :: "nat \<Rightarrow> u32 list \<Rightarrow> u32 list" where
  "sha_extend 0 ws = ws"
| "sha_extend (Suc n) ws =
     (let l = length ws
      in sha_extend n (ws @ [small_sigma1 (ws ! (l - 2)) + ws ! (l - 7)
                             + small_sigma0 (ws ! (l - 15)) + ws ! (l - 16)]))"

fun sha_add :: "sha_state \<Rightarrow> sha_state \<Rightarrow> sha_state" where
  "sha_add (a, b, c, d, e, f, g, h) (a', b', c', d', e', f', g', h') =
     (a + a', b + b', c + c', d + d', e + e', f + f', g + g', h + h')"

definition sha_block :: "u32 list \<Rightarrow> sha_state \<Rightarrow> sha_state" where
  "sha_block ws s = sha_add s (fold sha_round (zip sha_k (sha_extend 48 ws)) s)"

fun sha_words :: "bytes \<Rightarrow> u32 list" where
  "sha_words (a # b # c # d # rest) =
     (of_char a * 16777216 + of_char b * 65536 + of_char c * 256 + of_char d) # sha_words rest"
| "sha_words _ = []"

fun sha_blocks :: "u32 list \<Rightarrow> sha_state \<Rightarrow> sha_state" where
  "sha_blocks ws s =
     (if length ws < 16 then s else sha_blocks (drop 16 ws) (sha_block (take 16 ws) s))"

declare sha_blocks.simps [simp del]

primrec be_bytes :: "nat \<Rightarrow> nat \<Rightarrow> bytes" where
  "be_bytes 0 n = []"
| "be_bytes (Suc k) n = be_bytes k (n div 256) @ [char_of (n mod 256)]"

definition sha_pad :: "bytes \<Rightarrow> bytes" where
  "sha_pad m =
     (let n = length m
      in m @ [char_of (128::nat)] @ replicate ((119 - n mod 64) mod 64) (char_of (0::nat))
           @ be_bytes 8 (n * 8))"

definition word_bytes :: "u32 \<Rightarrow> bytes" where
  "word_bytes w = be_bytes 4 (unat w)"

definition sha256 :: "bytes \<Rightarrow> bytes" where
  "sha256 m =
     (case sha_blocks (sha_words (sha_pad m)) sha_init of (a, b, c, d, e, f, g, h) \<Rightarrow>
        concat (map word_bytes [a, b, c, d, e, f, g, h]))"

lemma length_be_bytes [simp]: "length (be_bytes k n) = k"
  by (induction k arbitrary: n) auto

lemma length_sha256 [simp]: "length (sha256 m) = 32"
  by (simp add: sha256_def word_bytes_def split: prod.splits)

text \<open>The padded message is a whole number of 64-byte blocks, so no input byte is dropped.\<close>

lemma length_sha_pad: "64 dvd length (sha_pad m)"
proof -
  define q r where "q = length m div 64" and "r = length m mod 64"
  have m: "length m = 64 * q + r" and "r < 64"
    by (simp_all add: q_def r_def)
  have "r + 1 + (119 - r) mod 64 + 8 = (if r \<le> 55 then 64 else 128)"
    using \<open>r < 64\<close> by (cases "r \<le> 55") (auto simp: mod_if)
  then have "length (sha_pad m) = 64 * q + (if r \<le> 55 then 64 else 128)"
    using m \<open>r < 64\<close> by (simp add: sha_pad_def Let_def)
  then show ?thesis by auto
qed

section \<open>Hex\<close>

definition hex_digits :: string where
  "hex_digits = ''0123456789abcdef''"

definition hex_byte :: "char \<Rightarrow> string" where
  "hex_byte c = [hex_digits ! (of_char c div 16), hex_digits ! (of_char c mod 16)]"

definition hex_encode :: "bytes \<Rightarrow> string" where
  "hex_encode bs = concat (map hex_byte bs)"

text \<open>\<open>hex.DecodeString\<close> accepts both cases and fails on an odd length or another byte.\<close>

definition hex_val :: "char \<Rightarrow> nat option" where
  "hex_val c =
     (if char_between CHR ''0'' CHR ''9'' c then Some (of_char c - 48)
      else if char_between CHR ''a'' CHR ''f'' c then Some (of_char c - 87)
      else if char_between CHR ''A'' CHR ''F'' c then Some (of_char c - 55)
      else None)"

fun hex_decode :: "string \<Rightarrow> bytes option" where
  "hex_decode [] = Some []"
| "hex_decode [_] = None"
| "hex_decode (a # b # rest) =
     (case (hex_val a, hex_val b, hex_decode rest) of
        (Some x, Some y, Some bs) \<Rightarrow> Some (char_of (16 * x + y) # bs)
      | _ \<Rightarrow> None)"

definition is_hex_lower :: "char \<Rightarrow> bool" where
  "is_hex_lower c \<longleftrightarrow> char_between CHR ''0'' CHR ''9'' c \<or> char_between CHR ''a'' CHR ''f'' c"

definition sha256_hex :: "bytes \<Rightarrow> string" where
  "sha256_hex m = hex_encode (sha256 m)"


lemma hex_digit_vals:
  "\<forall>n \<in> set [0..<16]. hex_val (hex_digits ! n) = Some n \<and> is_hex_lower (hex_digits ! n)"
  by (simp add: upt_rec hex_digits_def hex_val_def is_hex_lower_def char_between_def)

lemma hex_digit_val: "n < 16 \<Longrightarrow> hex_val (hex_digits ! n) = Some n"
  using hex_digit_vals by auto

lemma hex_digit_lower: "n < 16 \<Longrightarrow> is_hex_lower (hex_digits ! n)"
  using hex_digit_vals by auto

lemma byte_halves: "(of_char c :: nat) div 16 < 16" "(of_char c :: nat) mod 16 < 16"
  using of_char_less [of c] by (simp_all add: less_mult_imp_div_less)

lemma hex_decode_encode: "hex_decode (hex_encode bs) = Some bs"
proof (induction bs)
  case Nil
  then show ?case by (simp add: hex_encode_def)
next
  case (Cons b bs)
  have "hex_encode (b # bs) = hex_byte b @ hex_encode bs"
    by (simp add: hex_encode_def)
  with Cons show ?case
    by (simp add: hex_byte_def hex_digit_val byte_halves)
qed

lemma hex_encode_inj: "hex_encode x = hex_encode y \<Longrightarrow> x = y"
  by (metis hex_decode_encode option.inject)

lemma length_hex_encode [simp]: "length (hex_encode bs) = 2 * length bs"
  by (induction bs) (auto simp: hex_encode_def hex_byte_def)

lemma hex_encode_lower: "list_all is_hex_lower (hex_encode bs)"
  by (induction bs) (auto simp: hex_encode_def hex_byte_def hex_digit_lower byte_halves)

lemma hex_val_lower_Some: "is_hex_lower c \<Longrightarrow> \<exists>n. hex_val c = Some n"
  by (auto simp: is_hex_lower_def hex_val_def)

lemma hex_decode_lower_Some:
  "list_all is_hex_lower s \<Longrightarrow> even (length s) \<Longrightarrow> \<exists>bs. hex_decode s = Some bs \<and> length bs = length s div 2"
proof (induction s rule: hex_decode.induct)
  case (3 a b rest)
  then obtain bs where "hex_decode rest = Some bs" "length bs = length rest div 2"
    by auto
  moreover obtain x y where "hex_val a = Some x" "hex_val b = Some y"
    using 3 hex_val_lower_Some by fastforce
  ultimately show ?case by simp
qed auto

text \<open>On lowercase input decoding is undone by encoding, so it is injective there.\<close>

lemma hex_val_digit:
  assumes c: "is_hex_lower c" "hex_val c = Some n"
  shows "n < 16 \<and> hex_digits ! n = c"
proof -
  have vals: "\<forall>k \<in> set [48..<58] \<union> set [97..<103]. hex_digits ! (if k < 58 then k - 48 else k - 87) = char_of k"
    by (simp add: upt_rec hex_digits_def char_of_def bit_numeral_simps bit_0)
  have "of_char c \<in> {48..<58} \<union> {97..<(103::nat)}"
    using c(1) by (auto simp: is_hex_lower_def char_between_def)
  then have "of_char c \<in> set [48..<58] \<union> set [97..<(103::nat)]"
    by (simp only: set_upt)
  with vals have "hex_digits ! (if of_char c < (58::nat) then of_char c - 48 else of_char c - 87) = c"
    by (metis char_of_char)
  with c show ?thesis
    by (auto simp: is_hex_lower_def hex_val_def char_between_def split: if_splits)
qed

lemma hex_encode_decode:
  "list_all is_hex_lower s \<Longrightarrow> hex_decode s = Some bs \<Longrightarrow> hex_encode bs = s"
proof (induction s arbitrary: bs rule: hex_decode.induct)
  case (3 a b rest)
  then obtain x y tl where d: "hex_val a = Some x" "hex_val b = Some y" "hex_decode rest = Some tl"
    and bs: "bs = char_of (16 * x + y) # tl"
    by (auto split: option.splits)
  with 3 have "x < 16" "y < 16" "hex_digits ! x = a" "hex_digits ! y = b"
    using hex_val_digit by auto
  moreover from this have "(of_char (char_of (16 * x + y) :: char) :: nat) = 16 * x + y"
    by simp
  ultimately show ?case
    using 3 d bs by (simp add: hex_encode_def hex_byte_def)
qed (auto simp: hex_encode_def)

section \<open>Base64\<close>

definition b64_digits :: string where
  "b64_digits = ''ABCDEFGHIJKLMNOPQRSTUVWXYZabcdefghijklmnopqrstuvwxyz0123456789+/''"

definition sextets :: "nat \<Rightarrow> nat list" where
  "sextets n = [n div 262144, n div 4096 mod 64, n div 64 mod 64, n mod 64]"

definition b64_nat :: "nat \<Rightarrow> string" where
  "b64_nat n = map (nth b64_digits) (sextets n)"

definition byte_triple :: "char \<Rightarrow> char \<Rightarrow> char \<Rightarrow> nat" where
  "byte_triple a b c = of_char a * 65536 + of_char b * 256 + of_char c"

fun base64_encode :: "bytes \<Rightarrow> string" where
  "base64_encode [] = []"
| "base64_encode [a] = take 2 (b64_nat (byte_triple a (char_of (0::nat)) (char_of (0::nat)))) @ ''==''"
| "base64_encode [a, b] = take 3 (b64_nat (byte_triple a b (char_of (0::nat)))) @ ''=''"
| "base64_encode (a # b # c # rest) = b64_nat (byte_triple a b c) @ base64_encode rest"

lemma b64_distinct: "distinct b64_digits"
  by (simp add: b64_digits_def)

lemma b64_length: "length b64_digits = 64"
  by (simp add: b64_digits_def)

lemma b64_no_eq: "CHR ''='' \<notin> set b64_digits" "CHR ''-'' \<notin> set b64_digits"
  by (simp_all add: b64_digits_def)

text \<open>Four sextets determine the three bytes they were cut from.\<close>

lemma mod_div_64_inj: "m div 64 = n div 64 \<Longrightarrow> m mod 64 = n mod 64 \<Longrightarrow> m = n" for m n :: nat
  by (metis div_mult_mod_eq)

lemma sextets_inj:
  fixes m n :: nat
  assumes "m div 262144 = n div 262144" "m div 4096 mod 64 = n div 4096 mod 64"
    "m div 64 mod 64 = n div 64 mod 64" "m mod 64 = n mod 64"
  shows "m = n"
proof -
  have d: "k div 4096 div 64 = k div 262144" "k div 64 div 64 = k div 4096" for k :: nat
    by (simp_all only: div_mult2_eq [symmetric] arith_simps)
  have "m div 4096 = n div 4096"
    by (rule mod_div_64_inj) (simp_all only: d assms)
  have "m div 64 = n div 64" if "m div 4096 = n div 4096"
    by (rule mod_div_64_inj) (simp_all only: d assms that)
  with \<open>m div 4096 = n div 4096\<close> show ?thesis
    using assms(4) mod_div_64_inj by blast
qed

lemma mod_div_256_inj:
  fixes x y x' y' :: nat
  assumes eq: "256 * x + y = 256 * x' + y'" and "y < 256" "y' < 256"
  shows "x = x' \<and> y = y'"
proof -
  have "x = (256 * x + y) div 256" "x' = (256 * x' + y') div 256"
    using assms by simp_all
  with eq have "x = x'" by metis
  with eq show ?thesis by simp
qed

lemma byte_triple_inj:
  fixes a b c a' b' c' :: nat
  assumes "a * 65536 + b * 256 + c = a' * 65536 + b' * 256 + c'"
    and "b < 256" "c < 256" "b' < 256" "c' < 256"
  shows "a = a' \<and> b = b' \<and> c = c'"
proof -
  have "256 * (256 * a + b) + c = 256 * (256 * a' + b') + c'"
    using assms(1) by simp
  from mod_div_256_inj [OF this assms(3,5)] have "256 * a + b = 256 * a' + b' \<and> c = c'" .
  with assms(2,4) show ?thesis
    using mod_div_256_inj by blast
qed

lemma byte_triple_less: "byte_triple a b c < 16777216"
  using of_char_less [of a] of_char_less [of b] of_char_less [of c]
  unfolding byte_triple_def by linarith

lemma triple_inj:
  "byte_triple a b c = byte_triple a' b' c' \<Longrightarrow> a = a' \<and> b = b' \<and> c = c'"
  using byte_triple_inj [of "of_char a" "of_char b" "of_char c" "of_char a'" "of_char b'" "of_char c'"]
    of_char_less by (simp only: byte_triple_def of_char_eq_iff)

lemma sextets_less: "n < 16777216 \<Longrightarrow> set (sextets n) \<subseteq> {..<64}"
  by (simp add: sextets_def div_less_iff_less_mult)

lemma b64_nth_inj: "inj_on (nth b64_digits) {..<64}"
  by (rule inj_on_nth) (simp_all add: b64_distinct b64_length)

lemma map_b64_inj:
  assumes "set xs \<subseteq> {..<64}" "set ys \<subseteq> {..<64}"
    and "map (nth b64_digits) xs = map (nth b64_digits) ys"
  shows "xs = ys"
  using assms by (meson Un_least b64_nth_inj inj_on_subset map_inj_on)

lemma take_b64_inj:
  assumes "take k (b64_nat (byte_triple a b c)) = take k (b64_nat (byte_triple a' b' c'))"
  shows "take k (sextets (byte_triple a b c)) = take k (sextets (byte_triple a' b' c'))"
proof (rule map_b64_inj)
  show "map (nth b64_digits) (take k (sextets (byte_triple a b c)))
      = map (nth b64_digits) (take k (sextets (byte_triple a' b' c')))"
    using assms by (simp add: b64_nat_def take_map)
qed (meson byte_triple_less order.trans set_take_subset sextets_less)+

text \<open>A short last group leaves out sextets that are zero in every such group.\<close>

lemma short_group_mod:
  "byte_triple a b (char_of (0::nat)) mod 64 = 0"
  "byte_triple a (char_of (0::nat)) (char_of (0::nat)) div 64 mod 64 = 0"
proof -
  have "byte_triple a b (char_of (0::nat)) = 64 * (1024 * of_char a + 4 * of_char b)"
    and "byte_triple a (char_of (0::nat)) (char_of (0::nat)) = 64 * (64 * (16 * of_char a))"
    by (simp_all add: byte_triple_def)
  then show "byte_triple a b (char_of (0::nat)) mod 64 = 0"
    "byte_triple a (char_of (0::nat)) (char_of (0::nat)) div 64 mod 64 = 0"
    by simp_all
qed

lemma sextets_nth:
  "sextets n ! 0 = n div 262144" "sextets n ! 1 = n div 4096 mod 64"
  "sextets n ! 2 = n div 64 mod 64" "sextets n ! 3 = n mod 64"
  by (simp_all only: sextets_def nth_Cons_0 nth_Cons_Suc One_nat_def numeral_2_eq_2 numeral_3_eq_3)

lemma sextets_cong:
  assumes "sextets m ! 0 = sextets n ! 0" "sextets m ! 1 = sextets n ! 1"
    "sextets m ! 2 = sextets n ! 2" "sextets m ! 3 = sextets n ! 3"
  shows "m = n"
  by (rule sextets_inj) (use assms in \<open>simp_all only: sextets_nth\<close>)

lemma length_sextets [simp]: "length (sextets n) = 4"
  by (simp add: sextets_def)

lemma length_b64_nat [simp]: "length (b64_nat n) = 4"
  by (simp add: b64_nat_def)

lemma take_nth_eq: "take k xs = take k ys \<Longrightarrow> i < k \<Longrightarrow> xs ! i = ys ! i"
  by (metis nth_take)

lemma b64_group_inj:
  assumes "b64_nat (byte_triple a b c) = b64_nat (byte_triple a' b' c')"
  shows "a = a' \<and> b = b' \<and> c = c'"
proof -
  have "take 4 (sextets (byte_triple a b c)) = take 4 (sextets (byte_triple a' b' c'))"
    by (rule take_b64_inj) (simp add: assms)
  then have "sextets (byte_triple a b c) = sextets (byte_triple a' b' c')"
    by simp
  then show ?thesis
    by (metis sextets_cong triple_inj)
qed

lemma sextet_2_3:
  "sextets (byte_triple a b (char_of (0::nat))) ! 3 = 0"
  "sextets (byte_triple a (char_of (0::nat)) (char_of (0::nat))) ! 2 = 0"
  by (simp_all only: sextets_nth short_group_mod)

lemma short_group_inj3:
  assumes "take 3 (b64_nat (byte_triple a b (char_of (0::nat))))
     = take 3 (b64_nat (byte_triple a' b' (char_of (0::nat))))"
  shows "a = a' \<and> b = b'"
proof -
  note eq = take_nth_eq [OF take_b64_inj [OF assms]]
  have "byte_triple a b (char_of (0::nat)) = byte_triple a' b' (char_of (0::nat))"
    by (rule sextets_cong) (simp_all add: eq sextet_2_3)
  then show ?thesis using triple_inj by blast
qed

lemma short_group_inj2:
  assumes "take 2 (b64_nat (byte_triple a (char_of (0::nat)) (char_of (0::nat))))
     = take 2 (b64_nat (byte_triple a' (char_of (0::nat)) (char_of (0::nat))))"
  shows "a = a'"
proof -
  note eq = take_nth_eq [OF take_b64_inj [OF assms]]
  have "byte_triple a (char_of (0::nat)) (char_of (0::nat)) = byte_triple a' (char_of (0::nat)) (char_of (0::nat))"
    by (rule sextets_cong) (simp_all add: eq sextet_2_3)
  then show ?thesis using triple_inj by blast
qed

text \<open>Inputs of equal length (two digests) with the same base64 are equal.\<close>

lemma base64_encode_inj:
  "length x = length y \<Longrightarrow> base64_encode x = base64_encode y \<Longrightarrow> x = y"
proof (induction x arbitrary: y rule: base64_encode.induct)
  case 1
  then show ?case by simp
next
  case (2 a)
  then obtain a' where "y = [a']" by (cases y) auto
  with 2 show ?case by (auto dest: short_group_inj2)
next
  case (3 a b)
  then obtain a' b' where "y = [a', b']" by (cases y; cases "tl y") auto
  with 3 show ?case by (auto dest: short_group_inj3)
next
  case (4 a b c rest)
  then obtain a' b' c' rest' where y: "y = a' # b' # c' # rest'"
    by (cases y; cases "tl y"; cases "tl (tl y)") auto
  with 4 have "b64_nat (byte_triple a b c) = b64_nat (byte_triple a' b' c')"
    "base64_encode rest = base64_encode rest'"
    by (simp_all add: append_eq_append_conv)
  with 4 y show ?case by (auto dest: b64_group_inj)
qed

end
