(* ===== verification/ManifestTree.thy ===== *)
theory ManifestTree
  imports FsKeep Digest
begin

text \<open>
  \<open>pkg/manifest/build.go\<close> and \<open>verify.go\<close>: \<open>Build\<close> walks a tree into a manifest,
  \<open>VerifyTree\<close> checks a tree against one. \<open>tree_matches\<close> states what a checked tree is;
  the lemmas show that a successful \<open>Build\<close> or \<open>VerifyTree\<close> means just that, whatever
  calls fail, and that a matching tree is accepted when no call fails.
\<close>

section \<open>Build\<close>

definition hash_file :: "os_env \<Rightarrow> fpath \<Rightarrow> string \<Rightarrow> 's world \<Rightarrow> mfile res \<times> 's world" where
  "hash_file E path rel w =
     (case os_open E path w of
        (Inl e, w) \<Rightarrow> (Inl e, w)
      | (Inr fh, w) \<Rightarrow>
          (case io_read_all fh of
             Inl e \<Rightarrow> (Inl (E_wrap ''manifest: hashing %s: %w'' [rel] [e]), w)
           | Inr d \<Rightarrow>
               (Inr \<lparr>f_path = rel, f_sha256 = sha256_hex d, f_size = int (length d),
                     f_mode = fmt_mode (perm (h_mode fh))\<rparr>, w)))"

definition build_walk :: "os_env \<Rightarrow> fpath \<Rightarrow> (mfile list, 's) walk_fn" where
  "build_walk E root p d err files w =
     (case (err, d) of
        (Some e, _) \<Rightarrow> (WErr e, w)
      | (None, None) \<Rightarrow> (WErr (E_os ENOENT), w)
      | (None, Some Dir) \<Rightarrow> (WOk files, w)
      | (None, Some n) \<Rightarrow>
          (let rel = fs_rel root p
           in if \<not> is_reg n then (WErr (E_new ''manifest: %s: not a regular file (%s)'' [rel, type_name n]), w)
              else if rel = manifest_name
              then (WErr (E_new ''manifest: root contains a top-level %s; that name is reserved for the manifest itself'' [manifest_name]), w)
              else (case hash_file E p rel w of
                      (Inl e, w) \<Rightarrow> (WErr e, w)
                    | (Inr f, w) \<Rightarrow> (WOk (files @ [f]), w))))"

text \<open>The list starts as the nil slice, and stays nil when no file was appended.\<close>

definition build :: "os_env \<Rightarrow> fpath \<Rightarrow> 's world \<Rightarrow> manifest res \<times> 's world" where
  "build E root w =
     (case walk_dir E (build_walk E root) root [] w of
        (Inl e, w) \<Rightarrow> (Inl e, w)
      | (Inr files, w) \<Rightarrow>
          (let m = \<lparr>m_version = manifest_version, m_files = (if files = [] then None else Some files)\<rparr>
           in case validate (plat E) m of
                Some e \<Rightarrow> (Inl e, w)
              | None \<Rightarrow> (Inr m, w)))"

section \<open>VerifyTree\<close>

text \<open>\<open>lst\<close> is \<open>lstatFn\<close>, which the program sets to \<open>os.Lstat\<close> and its tests replace.\<close>

definition verify_file ::
  "('s world \<Rightarrow> fpath \<Rightarrow> node res) \<Rightarrow> os_env \<Rightarrow> fpath \<Rightarrow> mfile \<Rightarrow> 's world \<Rightarrow> gerr option \<times> 's world" where
  "verify_file lst E p f w =
     (case lst w p of
        Inl e \<Rightarrow> (Some e, w)
      | Inr st0 \<Rightarrow>
          (case os_open E p w of
             (Inl e, w) \<Rightarrow> (Some (E_wrap ''manifest: verify: %s: open without following symlinks: %w'' [f_path f] [e]), w)
           | (Inr fh, w) \<Rightarrow>
               if \<not> is_reg (h_node fh)
               then (Some (E_new ''manifest: verify: %s: not a regular file (%s)'' [f_path f, type_name (h_node fh)]), w)
               else if st0 \<noteq> h_node fh
               then (Some (E_new ''manifest: verify: %s changed while being verified'' [f_path f]), w)
               else if h_size fh \<noteq> f_size f
               then (Some (E_new ''manifest: verify: %s: size %d, manifest says %d'' [f_path f]), w)
               else if goos (plat E) \<noteq> ''windows''
                 \<and> perm (h_mode fh) \<noteq> (case file_mode f of Inl _ \<Rightarrow> 0 | Inr m \<Rightarrow> m)
               then (Some (E_new ''manifest: verify: %s: mode %#o, manifest says %#o'' [f_path f]), w)
               else (case io_read fh (wrap64 (f_size f + 1)) of
                       Inl e \<Rightarrow> (Some (E_wrap ''manifest: verify: hashing %s: %w'' [f_path f] [e]), w)
                     | Inr d \<Rightarrow>
                         if int (length d) \<noteq> f_size f
                         then (Some (E_new ''manifest: verify: %s: read %d bytes, manifest says %d'' [f_path f]), w)
                         else if sha256_hex d \<noteq> f_sha256 f
                         then (Some (E_new ''manifest: verify: %s: hash %s, manifest says %s'' [f_path f, sha256_hex d, f_sha256 f]), w)
                         else (None, w))))"

type_synonym want = "string \<rightharpoonup> mfile"

definition verify_entry ::
  "os_env \<Rightarrow> fpath \<Rightarrow> want \<Rightarrow> fpath \<Rightarrow> node \<Rightarrow> string list \<Rightarrow> 's world \<Rightarrow> string list walk_ctl \<times> 's world" where
  "verify_entry E root want p n seen w =
     (let rel = fs_rel root p
      in if \<not> is_reg n
         then (WErr (E_new ''manifest: verify: %s: not a regular file (%s)'' [rel, type_name n]), w)
         else (case want rel of
                 None \<Rightarrow> (WErr (E_new ''manifest: verify: %s: not in the manifest'' [rel]), w)
               | Some f \<Rightarrow>
                   (case verify_file os_lstat E p f w of
                      (Some e, w) \<Rightarrow> (WErr e, w)
                    | (None, w) \<Rightarrow> (WOk (List.insert rel seen), w))))"

definition verify_walk :: "os_env \<Rightarrow> fpath \<Rightarrow> want \<Rightarrow> (string list, 's) walk_fn" where
  "verify_walk E root want p d err seen w =
     (case (err, d) of
        (Some e, _) \<Rightarrow> (WErr e, w)
      | (None, None) \<Rightarrow> (WErr (E_os ENOENT), w)
      | (None, Some n) \<Rightarrow>
          (case sys E SysCtx w of
             (True, w) \<Rightarrow> (WErr (E_new ''context canceled'' []), w)
           | (False, w) \<Rightarrow> (if n = Dir then (WOk seen, w) else verify_entry E root want p n seen w)))"

text \<open>\<open>want\<close> is keyed by path, the last entry of a path winning.\<close>

definition want_of :: "mfile list \<Rightarrow> want" where
  "want_of fs = map_of (rev (map (\<lambda>f. (f_path f, f)) fs))"

definition verify_tree :: "os_env \<Rightarrow> fpath \<Rightarrow> manifest \<Rightarrow> 's world \<Rightarrow> gerr option \<times> 's world" where
  "verify_tree E root m w =
     (if m_version m \<noteq> manifest_version
      then (Some (E_new ''manifest: unsupported version %d (this build reads version %d)'' []), w)
      else (case validate (plat E) m of
              Some e \<Rightarrow> (Some e, w)
            | None \<Rightarrow>
                (case os_lstat w root of
                   Inl e \<Rightarrow> (Some (E_wrap ''manifest: verify: %w'' [] [e]), w)
                 | Inr n \<Rightarrow>
                     if n \<noteq> Dir
                     then (Some (E_new ''manifest: verify: %s is not a directory (%s)'' [type_name n]), w)
                     else (let want = want_of (files_of m); keys = remdups (map f_path (files_of m))
                           in case walk_dir E (verify_walk E root want) root [] w of
                                (Inl e, w) \<Rightarrow> (Some e, w)
                              | (Inr seen, w) \<Rightarrow>
                                  if length seen = length keys then (None, w)
                                  else (Some (E_new ''manifest: verify: %d manifest entries missing, first %s''
                                          (take 1 (sort [p \<leftarrow> keys. p \<notin> set seen]))), w)))))"

section \<open>What a checked tree is\<close>

definition entry_matches :: "platform \<Rightarrow> mfile \<Rightarrow> entry \<Rightarrow> bool" where
  "entry_matches P f e =
     (case e of EFile d md \<Rightarrow>
        int (length d) = f_size f \<and> sha256_hex d = f_sha256 f \<and>
        (goos P = ''windows'' \<or> file_mode f = Inr (perm md))
      | _ \<Rightarrow> False)"

text \<open>A tree holds the manifest's files, each as its entry says, and directories, nothing else.\<close>

definition tree_matches :: "platform \<Rightarrow> manifest \<Rightarrow> (fpath \<Rightarrow> entry option) \<Rightarrow> bool" where
  "tree_matches P m t \<longleftrightarrow>
     t [] = Some EDir \<and>
     (\<forall>r e. t r = Some e \<longrightarrow> e \<noteq> EDir \<longrightarrow> r \<in> (comps \<circ> f_path) ` set (files_of m)) \<and>
     (\<forall>f \<in> set (files_of m). \<exists>e. t (comps (f_path f)) = Some e \<and> entry_matches P f e)"

lemma os_open_Inr:
  assumes "os_open E p w = (Inr fh, w')"
  obtains (reg) i x where "look w p = Some (Reg i)" "ino w i = Some x" "h_node fh = Reg i"
      "h_size fh = int (length (i_data x))" "h_mode fh = i_mode x" "prefix (r_data fh) (i_data x)"
      "r_err fh = None \<longrightarrow> r_data fh = i_data x"
  | (dir) "look w p = Some Dir" "h_node fh = Dir" "r_err fh \<noteq> None"
  using assms
  by (auto simp: os_open_def sys_def Let_def take_is_prefix split: if_splits option.splits node.splits)

lemma os_open_no_fault:
  assumes "\<And>t c. \<not> fault E t c" "look w p = Some (Reg i)" "ino w i = Some x"
  obtains w' where "os_open E p w =
    (Inr \<lparr>r_data = i_data x, r_err = None, h_node = Reg i, h_size = int (length (i_data x)), h_mode = i_mode x\<rparr>, w')"
  using assms by (simp add: os_open_def sys_def)

lemma io_read_prefix: "io_read r lim = Inr d \<Longrightarrow> prefix d (r_data r)"
  by (auto simp: io_read_def take_is_prefix split: option.splits if_splits)

lemma io_read_all_Inr: "io_read_all r = Inr d \<longleftrightarrow> r_err r = None \<and> d = r_data r"
  by (auto simp: io_read_all_def split: option.splits)

lemma verify_file_same: "verify_file os_lstat E p f w = (r, w') \<Longrightarrow> same_fs w w'"
  by (auto simp: verify_file_def same.refl dest: os_open_same split: sum.splits prod.splits if_splits)

lemma verify_file_None:
  assumes "verify_file os_lstat E p f w = (None, w')" "file_mode f = Inr md"
  obtains i x where "look w p = Some (Reg i)" "ino w i = Some x" "entry_matches (plat E) f (EFile (i_data x) (i_mode x))"
proof -
  from assms(1) obtain fh w1 where o: "os_open E p w = (Inr fh, w1)"
    by (auto simp: verify_file_def split: sum.splits prod.splits)
  from assms(1) obtain n where n: "os_lstat w p = Inr n"
    by (cases "os_lstat w p") (auto simp: verify_file_def)
  note run = assms(1) [unfolded verify_file_def n o, simplified, unfolded assms(2), simplified]
  from o show thesis
  proof (cases rule: os_open_Inr)
    case (reg i x)
    from run reg obtain d where d: "io_read fh (wrap64 (f_size f + 1)) = Inr d" "int (length d) = f_size f"
        "sha256_hex d = f_sha256 f" "h_size fh = f_size f" "goos (plat E) = ''windows'' \<or> perm (h_mode fh) = md"
      by (auto simp: is_reg_def split: sum.splits if_splits)
    have "prefix d (i_data x)" using io_read_prefix [OF d(1)] reg by (auto intro: prefix_order.trans)
    moreover have "length d = length (i_data x)" using d reg by simp
    ultimately have "d = i_data x" by (auto simp: prefix_def)
    with d reg assms(2) have "entry_matches (plat E) f (EFile (i_data x) (i_mode x))"
      by (auto simp: entry_matches_def)
    with reg show thesis by (intro that)
  next
    case dir
    with run show thesis by (simp add: is_reg_def)
  qed
qed

lemma verify_file_ok:
  assumes "\<And>t c. \<not> fault E t c" "look w p = Some (Reg i)" "ino w i = Some x"
    and "entry_matches (plat E) f (EFile (i_data x) (i_mode x))" "file_mode f = Inr md" "f_size f < max_int64"
  shows "\<exists>w'. verify_file os_lstat E p f w = (None, w')"
proof -
  obtain w' where o: "os_open E p w =
    (Inr \<lparr>r_data = i_data x, r_err = None, h_node = Reg i, h_size = int (length (i_data x)), h_mode = i_mode x\<rparr>, w')"
    by (rule os_open_no_fault [OF assms(1-3)])
  have m: "int (length (i_data x)) = f_size f" "sha256_hex (i_data x) = f_sha256 f"
      "goos (plat E) = ''windows'' \<or> perm (i_mode x) = md"
    using assms(4,5) by (auto simp: entry_matches_def)
  then have "wrap64 (f_size f + 1) = f_size f + 1"
    using assms(6) by (intro wrap64_id) (simp add: is_int64_def max_int64_def)
  with m assms(2,5) show ?thesis
    by (auto simp: verify_file_def os_lstat_def o is_reg_def io_read_def)
qed

section \<open>The walk of VerifyTree\<close>

lemma want_of_Some:
  assumes "distinct (map f_path fs)"
  shows "want_of fs p = Some f \<longleftrightarrow> f \<in> set fs \<and> f_path f = p"
proof -
  have "distinct (map fst (rev (map (\<lambda>f. (f_path f, f)) fs)))"
    using assms by (simp add: rev_map [symmetric] comp_def)
  then show ?thesis by (auto simp: want_of_def)
qed

lemma rel_plain:
  assumes "wf w" "look w (root @ r) = Some n" "r \<noteq> []"
  shows "plain_path (fs_rel root (root @ r))" "comps (fs_rel root (root @ r)) = r"
proof -
  have "plain_comps r" using wf_plain [OF assms(1,2)] by simp
  with assms(3) show "plain_path (fs_rel root (root @ r))" "comps (fs_rel root (root @ r)) = r"
    by (simp_all add: fs_rel_def plain_path_join comps_join)
qed

lemma verify_entry_WOk:
  assumes "verify_entry E root want p n seen w = (WOk seen', w')" "\<And>q f. want q = Some f \<Longrightarrow> \<exists>md. file_mode f = Inr md"
  obtains f i x where "want (fs_rel root p) = Some f" "look w p = Some (Reg i)" "ino w i = Some x"
    "entry_matches (plat E) f (EFile (i_data x) (i_mode x))" "seen' = List.insert (fs_rel root p) seen" "same_fs w w'"
proof -
  from assms(1) obtain f where f: "want (fs_rel root p) = Some f" "verify_file os_lstat E p f w = (None, w')"
      "seen' = List.insert (fs_rel root p) seen"
    by (auto simp: verify_entry_def Let_def split: if_splits option.splits prod.splits)
  from assms(2) [OF f(1)] obtain md where "file_mode f = Inr md" by blast
  from verify_file_None [OF f(2) this] f verify_file_same [OF f(2)] that show thesis by metis
qed

definition visited :: "fpath \<Rightarrow> (fpath \<times> node) list \<Rightarrow> string set" where
  "visited root ys = (\<lambda>(p, n). fs_rel root p) ` {x \<in> set ys. snd x \<noteq> Dir}"

lemma visited_snoc [simp]:
  "visited root (ys @ [(p, n)]) = (if n = Dir then visited root ys else insert (fs_rel root p) (visited root ys))"
  "visited root [] = {}"
  by (auto simp: visited_def image_iff)

text \<open>What holds of the entries the walk has passed.\<close>

definition verified_so_far :: "platform \<Rightarrow> fpath \<Rightarrow> want \<Rightarrow> 's world \<Rightarrow> (fpath \<times> node) list \<Rightarrow> string list \<Rightarrow> 's world \<Rightarrow> bool" where
  "verified_so_far P root want w ys seen w1 \<longleftrightarrow>
     same_fs w w1 \<and> distinct seen \<and> set seen = visited root ys \<and>
     (\<forall>(p, n) \<in> set ys. n \<noteq> Dir \<longrightarrow>
        (\<exists>f i x. want (fs_rel root p) = Some f \<and> look w p = Some (Reg i) \<and> ino w i = Some x \<and>
          entry_matches P f (EFile (i_data x) (i_mode x))))"

lemma verify_walk_step:
  assumes I: "verified_so_far (plat E) root want w ys seen w1"
    and run: "verify_walk E root want p (Some n) None seen w1 = (c, w2)"
    and modes: "\<And>q f. want q = Some f \<Longrightarrow> \<exists>md. file_mode f = Inr md"
  shows "(\<exists>seen'. c = WOk seen' \<and> verified_so_far (plat E) root want w (ys @ [(p, n)]) seen' w2) \<or> (\<exists>e. c = WErr e)"
proof (cases "n = Dir \<or> (\<exists>e. c = WErr e)")
  case True
  then show ?thesis
    using I run by (auto simp: verify_walk_def sys_def verified_so_far_def same_fs_def split: if_splits bool.splits)
next
  case False
  obtain b w1' where s: "sys E SysCtx w1 = (b, w1')" by fastforce
  with False run have v: "verify_entry E root want p n seen w1' = (c, w2)" and "\<not> b"
    by (auto simp: verify_walk_def split: if_splits bool.splits)
  have "\<exists>seen'. c = WOk seen'"
    using v False by (auto simp: verify_entry_def Let_def split: if_splits option.splits prod.splits)
  then obtain seen' where c: "c = WOk seen'" by blast
  have same1: "same_fs w w1'" using I s by (auto simp: verified_so_far_def sys_def same_fs_def)
  from v [unfolded c] modes obtain f i x where f: "want (fs_rel root p) = Some f" "look w1' p = Some (Reg i)"
      "ino w1' i = Some x" "entry_matches (plat E) f (EFile (i_data x) (i_mode x))"
      "seen' = List.insert (fs_rel root p) seen" "same_fs w1' w2"
    by (rule verify_entry_WOk)
  have "same_fs w w2" using same1 f(6) by (rule same.trans)
  moreover have "look w p = Some (Reg i)" "ino w i = Some x"
    using f(2,3) by (simp_all add: same_fs_look [OF same1] same_fs_ino [OF same1])
  ultimately show ?thesis
    using I c f False by (auto simp: verified_so_far_def)
qed

lemma verify_walk_dir_err: "verify_walk E root want p d (Some e) seen w = (WErr e, w)"
  by (simp add: verify_walk_def)

lemma verify_walk_Inr:
  assumes "walk_dir E (verify_walk E root want) root [] w = (Inr seen, w')"
    and "look w root = Some Dir" "\<And>q f. want q = Some f \<Longrightarrow> \<exists>md. file_mode f = Inr md"
  shows "verified_so_far (plat E) root want w (entries_under w root) seen w'"
proof -
  have "case walk_entries E (verify_walk E root want) (entries_under w root) [] w of
      (Inr a', w') \<Rightarrow> verified_so_far (plat E) root want w (entries_under w root) a' w' | (Inl e, w') \<Rightarrow> True"
  proof (rule walk_entries_rule)
    show "verified_so_far (plat E) root want w [] [] w"
      by (simp add: verified_so_far_def same.refl)
  next
    fix ys p n a and w1 :: "'a world"
    assume "verified_so_far (plat E) root want w ys a w1"
    from verify_walk_step [OF this _ assms(3)]
    show "case verify_walk E root want p (Some n) None a w1 of
        (WOk a1, w1) \<Rightarrow> verified_so_far (plat E) root want w (ys @ [(p, n)]) a1 w1 | (WErr e, w1) \<Rightarrow> True | _ \<Rightarrow> False"
      by (cases "verify_walk E root want p (Some n) None a w1") fastforce
  next
    fix ys p a and w1 :: "'a world"
    assume "verified_so_far (plat E) root want w ys a w1"
    then show "case sys E (SysReadDir p) w1 of (False, w1) \<Rightarrow> verified_so_far (plat E) root want w ys a w1
       | (True, w1) \<Rightarrow> (case verify_walk E root want p (Some Dir) (Some (E_os EIO)) a w1 of (WErr e, w2) \<Rightarrow> True | _ \<Rightarrow> False)"
      by (auto simp: sys_def verify_walk_dir_err verified_so_far_def same_fs_def split: bool.splits)
  qed
  with assms(1,2) show ?thesis by (simp add: walk_dir_def)
qed

section \<open>VerifyTree accepts just the matching trees\<close>

lemma valid_file_mode: "valid_manifest P m \<Longrightarrow> f \<in> set (files_of m) \<Longrightarrow> \<exists>md. file_mode f = Inr md"
  by (auto simp: valid_manifest_def entry_ok_def list_all_iff)

lemma verify_tree_None:
  assumes "verify_tree E root m w = (None, w')"
  obtains seen where "m_version m = manifest_version" "valid_manifest (plat E) m" "look w root = Some Dir"
    "walk_dir E (verify_walk E root (want_of (files_of m))) root [] w = (Inr seen, w')"
    "length seen = length (remdups (map f_path (files_of m)))"
  using assms
  by (auto simp: verify_tree_def validate_iff os_lstat_def Let_def
      split: if_splits option.splits sum.splits prod.splits)

lemma verify_tree_accepts:
  assumes run: "verify_tree E root m w = (None, w')" and w: "wf w"
  shows "m_version m = manifest_version" "valid_manifest (plat E) m"
    "tree_matches (plat E) m (tree_at w root)" "same_fs w w'"
proof -
  from run obtain seen where v: "m_version m = manifest_version" "valid_manifest (plat E) m" "look w root = Some Dir"
    and walk: "walk_dir E (verify_walk E root (want_of (files_of m))) root [] w = (Inr seen, w')"
    and len: "length seen = length (remdups (map f_path (files_of m)))"
    by (rule verify_tree_None)
  note want = want_of_Some [OF valid_manifest_distinct [OF v(2)]]
  have modes: "\<exists>md. file_mode f = Inr md" if "want_of (files_of m) q = Some f" for q f
    using that want valid_file_mode [OF v(2)] by auto
  have so_far: "verified_so_far (plat E) root (want_of (files_of m)) w (entries_under w root) seen w'"
    using walk v(3) modes by (rule verify_walk_Inr)
  let ?ys = "entries_under w root"
  have ys: "(p, n) \<in> set ?ys \<longleftrightarrow> prefix root p \<and> look w p = Some n" for p n
    using v(3) by (simp add: set_entries_under)
  have found: "\<exists>f i x. f \<in> set (files_of m) \<and> fs_rel root p = f_path f \<and> look w p = Some (Reg i) \<and> ino w i = Some x
      \<and> entry_matches (plat E) f (EFile (i_data x) (i_mode x))" if "prefix root p" "look w p = Some n" "n \<noteq> Dir" for p n
  proof -
    have "(p, n) \<in> set ?ys" using that ys by simp
    with so_far that(3) obtain f i x where "want_of (files_of m) (fs_rel root p) = Some f" "look w p = Some (Reg i)"
      "ino w i = Some x" "entry_matches (plat E) f (EFile (i_data x) (i_mode x))"
      unfolding verified_so_far_def by blast
    then show ?thesis using want [of "fs_rel root p" f] by metis
  qed
  have seen_visited: "distinct seen" "set seen = visited root ?ys"
    using so_far by (simp_all add: verified_so_far_def)
  have "fs_rel root p \<in> f_path ` set (files_of m)" if "(p, n) \<in> set ?ys" "n \<noteq> Dir" for p n
    using found [of p n] that ys by auto
  then have sub: "set seen \<subseteq> f_path ` set (files_of m)"
    by (auto simp: seen_visited visited_def)
  moreover have "card (set seen) = card (f_path ` set (files_of m))"
    using seen_visited(1) len by (simp add: distinct_card length_remdups_card_conv)
  ultimately have seen: "set seen = f_path ` set (files_of m)"
    by (intro card_subset_eq) auto
  have "\<exists>e. tree_at w root (comps (f_path f)) = Some e \<and> entry_matches (plat E) f e"
    if f: "f \<in> set (files_of m)" for f
  proof -
    have "visited root ?ys = f_path ` set (files_of m)" using seen seen_visited by simp
    with f have "f_path f \<in> visited root ?ys" by simp
    then obtain p n where p: "prefix root p" "look w p = Some n" "n \<noteq> Dir" "fs_rel root p = f_path f"
      by (auto simp: visited_def ys)
    from found [OF p(1-3)] p(4) obtain g i x where g: "g \<in> set (files_of m)" "f_path g = f_path f"
      "look w p = Some (Reg i)" "ino w i = Some x" "entry_matches (plat E) g (EFile (i_data x) (i_mode x))" by auto
    have "g = f" using g(1,2) f valid_manifest_distinct [OF v(2)] by (meson distinct_map inj_onD)
    from p(1) obtain r where r: "p = root @ r" by (auto simp: prefix_def)
    with v(3) p(2,3) have "r \<noteq> []" by auto
    have "comps (f_path f) = r" using rel_plain(2) [OF w p(2) [unfolded r] \<open>r \<noteq> []\<close>] p(4) r by simp
    with r g \<open>g = f\<close> show ?thesis by (auto simp: tree_at_def entry_of_def)
  qed
  moreover have "r \<in> (comps \<circ> f_path) ` set (files_of m)" if t: "tree_at w root r = Some e" "e \<noteq> EDir" for r e
  proof -
    from t obtain n where n: "look w (root @ r) = Some n" "n \<noteq> Dir"
      by (cases "look w (root @ r)"; cases "the (look w (root @ r))") (auto simp: tree_at_def entry_of_def)
    with v(3) have "r \<noteq> []" by auto
    from found [OF _ n] rel_plain(2) [OF w n(1) this] show ?thesis by force
  qed
  ultimately show "tree_matches (plat E) m (tree_at w root)"
    using v(3) by (auto simp: tree_matches_def tree_at_Dir_iff)
  show "m_version m = manifest_version" "valid_manifest (plat E) m" by (fact v)+
  show "same_fs w w'" using so_far by (simp add: verified_so_far_def)
qed

lemma verify_tree_complete:
  assumes nf: "\<And>t c. \<not> fault E t c" and w: "wf w"
    and v: "m_version m = manifest_version" "valid_manifest (plat E) m"
    and small: "\<And>f. f \<in> set (files_of m) \<Longrightarrow> f_size f < max_int64"
    and t: "tree_matches (plat E) m (tree_at w root)"
  shows "\<exists>w'. verify_tree E root m w = (None, w')"
proof -
  let ?want = "want_of (files_of m)" and ?ys = "entries_under w root"
  note want = want_of_Some [OF valid_manifest_distinct [OF v(2)]]
  have root: "look w root = Some Dir" using t by (simp add: tree_matches_def tree_at_Dir_iff)
  have ys: "(p, n) \<in> set ?ys \<longleftrightarrow> prefix root p \<and> look w p = Some n" for p n
    using root by (simp add: set_entries_under)
  have file_at: "\<exists>f i x. ?want (fs_rel root p) = Some f \<and> f \<in> set (files_of m) \<and> n = Reg i \<and> ino w i = Some x
      \<and> entry_matches (plat E) f (EFile (i_data x) (i_mode x))" if p: "(p, n) \<in> set ?ys" "n \<noteq> Dir" for p n
  proof -
    from p obtain r where r: "p = root @ r" "look w (root @ r) = Some n" by (auto simp: ys prefix_def)
    with p(2) root have "r \<noteq> []" by auto
    have nNone: "tree_at w root r \<noteq> None" "tree_at w root r \<noteq> Some EDir"
      using r(2) p(2) by (simp_all add: tree_at_None_iff [OF w] tree_at_Dir_iff)
    then obtain e where e: "tree_at w root r = Some e" "e \<noteq> EDir" by auto
    with t obtain f where f: "f \<in> set (files_of m)" "r = comps (f_path f)" by (auto simp: tree_matches_def)
    with t e have "entry_matches (plat E) f e" by (auto simp: tree_matches_def)
    moreover have "?want (fs_rel root p) = Some f"
      using f r \<open>r \<noteq> []\<close> by (simp add: want fs_rel_def join_split)
    ultimately show ?thesis
      using e(1) r f by (cases n) (auto simp: tree_at_def entry_of_def entry_matches_def)
  qed
  have "case walk_entries E (verify_walk E root ?want) ?ys [] w of
      (Inr a', w') \<Rightarrow> verified_so_far (plat E) root ?want w ?ys a' w' | (Inl e, w') \<Rightarrow> False"
  proof (rule walk_entries_rule)
    show "verified_so_far (plat E) root ?want w [] [] w"
      by (simp add: verified_so_far_def same.refl)
  next
    fix ys p n a and w1 :: "'a world"
    assume I: "verified_so_far (plat E) root ?want w ys a w1" and p: "(p, n) \<in> set ?ys"
    obtain c w2 where run: "verify_walk E root ?want p (Some n) None a w1 = (c, w2)" by fastforce
    have modes: "\<exists>md. file_mode f = Inr md" if "?want q = Some f" for q f
      using that want valid_file_mode [OF v(2)] by auto
    have "\<exists>a. c = WOk a"
    proof (cases "n = Dir")
      case True
      then show ?thesis using run nf by (auto simp: verify_walk_def sys_def)
    next
      case False
      from file_at [OF p False] obtain f i x where f: "?want (fs_rel root p) = Some f" "f \<in> set (files_of m)" "n = Reg i"
        "ino w i = Some x" "entry_matches (plat E) f (EFile (i_data x) (i_mode x))" by blast
      let ?w1 = "w1\<lparr>w_tick := Suc (w_tick w1)\<rparr>"
      have same: "same_fs w ?w1" using I by (simp add: verified_so_far_def same_fs_def)
      have look: "look ?w1 p = Some (Reg i)" "ino ?w1 i = Some x"
        using p f by (simp_all only: same_fs_look [OF same] same_fs_ino [OF same] ys)
      obtain md where md: "file_mode f = Inr md" using modes f(1) by blast
      obtain w3 where "verify_file os_lstat E p f ?w1 = (None, w3)"
        using verify_file_ok [OF nf look f(5) md small [OF f(2)]] by blast
      then show ?thesis
        using run nf f False by (auto simp: verify_walk_def verify_entry_def sys_def is_reg_def)
    qed
    then show "case verify_walk E root ?want p (Some n) None a w1 of
        (WOk a1, w1) \<Rightarrow> verified_so_far (plat E) root ?want w (ys @ [(p, n)]) a1 w1 | (WErr e, w1) \<Rightarrow> False | _ \<Rightarrow> False"
      using verify_walk_step [OF I run modes] run by auto
  next
    fix ys p a and w1 :: "'a world"
    assume "verified_so_far (plat E) root ?want w ys a w1"
    then show "case sys E (SysReadDir p) w1 of (False, w1) \<Rightarrow> verified_so_far (plat E) root ?want w ys a w1
       | (True, w1) \<Rightarrow> (case verify_walk E root ?want p (Some Dir) (Some (E_os EIO)) a w1 of (WErr e, w2) \<Rightarrow> False | _ \<Rightarrow> False)"
      using nf by (simp add: sys_def verified_so_far_def same_fs_def)
  qed
  then obtain seen w' where walk: "walk_dir E (verify_walk E root ?want) root [] w = (Inr seen, w')"
    and so_far: "verified_so_far (plat E) root ?want w ?ys seen w'"
    using root by (auto simp: walk_dir_def split: prod.splits sum.splits)
  have "f_path f \<in> visited root ?ys" if f: "f \<in> set (files_of m)" for f
  proof -
    from t f obtain e where e: "tree_at w root (comps (f_path f)) = Some e" "entry_matches (plat E) f e"
      by (auto simp: tree_matches_def)
    then obtain d md where "e = EFile d md" by (auto simp: entry_matches_def split: entry.splits)
    with e(1) obtain i where "look w (root @ comps (f_path f)) = Some (Reg i)" by (auto simp: tree_at_File_iff)
    moreover have "fs_rel root (root @ comps (f_path f)) = f_path f" by (simp add: fs_rel_def join_split)
    ultimately have "(root @ comps (f_path f), Reg i) \<in> set ?ys" "fs_rel root (root @ comps (f_path f)) = f_path f"
      by (simp_all add: ys)
    then show ?thesis unfolding visited_def by force
  qed
  moreover have "visited root ?ys \<subseteq> f_path ` set (files_of m)"
  proof
    fix q assume "q \<in> visited root ?ys"
    then obtain p n where "(p, n) \<in> set ?ys" "n \<noteq> Dir" "q = fs_rel root p" by (auto simp: visited_def)
    with file_at [of p n] show "q \<in> f_path ` set (files_of m)" by (auto simp: want intro: rev_image_eqI)
  qed
  ultimately have "set seen = f_path ` set (files_of m)" "distinct seen"
    using so_far by (auto simp: verified_so_far_def)
  then have "length seen = length (remdups (map f_path (files_of m)))"
    by (simp add: length_remdups_card_conv distinct_card [symmetric])
  moreover have "validate (plat E) m = None" using v(2) by (simp add: validate_iff)
  ultimately show ?thesis
    using v(1) root walk by (simp add: verify_tree_def os_lstat_def Let_def)
qed

section \<open>The walk of Build\<close>

lemma hash_file_Inr:
  assumes "hash_file E p rel w = (Inr f, w')" "look w p = Some (Reg i)"
  obtains x where "ino w i = Some x" "same_fs w w'"
    "f = \<lparr>f_path = rel, f_sha256 = sha256_hex (i_data x), f_size = int (length (i_data x)), f_mode = fmt_mode (perm (i_mode x))\<rparr>"
proof -
  from assms(1) obtain fh w1 where o: "os_open E p w = (Inr fh, w1)"
    by (auto simp: hash_file_def split: sum.splits prod.splits)
  then show thesis
  proof (cases rule: os_open_Inr)
    case (reg j x)
    with assms o os_open_same [OF o] show ?thesis
      by (auto simp: hash_file_def io_read_all_Inr intro!: that split: sum.splits)
  next
    case dir
    with assms(2) show ?thesis by simp
  qed
qed

text \<open>Every digest the program computes passes \<open>isSHA256\<close>.\<close>

lemma is_sha256_hex: "is_sha256 (sha256_hex d)"
  using hex_encode_lower [of "sha256 d"]
  by (auto simp: is_sha256_iff sha256_hex_def is_hex_lower_def list_all_iff)

definition built_so_far :: "fpath \<Rightarrow> 's world \<Rightarrow> (fpath \<times> node) list \<Rightarrow> mfile list \<Rightarrow> 's world \<Rightarrow> bool" where
  "built_so_far root w ys files w1 \<longleftrightarrow>
     same_fs w w1 \<and> map f_path files = map (\<lambda>(p, n). fs_rel root p) [x \<leftarrow> ys. snd x \<noteq> Dir] \<and>
     (\<forall>(p, n) \<in> set ys. n \<noteq> Dir \<longrightarrow> (\<exists>i. n = Reg i) \<and> fs_rel root p \<noteq> manifest_name) \<and>
     (\<forall>f \<in> set files. \<exists>p i x. (p, Reg i) \<in> set ys \<and> ino w i = Some x \<and>
        f = \<lparr>f_path = fs_rel root p, f_sha256 = sha256_hex (i_data x),
             f_size = int (length (i_data x)), f_mode = fmt_mode (perm (i_mode x))\<rparr>)"

lemma build_walk_step:
  assumes I: "built_so_far root w ys files w1" and n: "look w p = Some n"
    and run: "build_walk E root p (Some n) None files w1 = (c, w2)"
  shows "(\<exists>files'. c = WOk files' \<and> built_so_far root w (ys @ [(p, n)]) files' w2) \<or> (\<exists>e. c = WErr e)"
proof (cases n)
  case Dir
  then show ?thesis using I run by (auto simp: build_walk_def built_so_far_def)
next
  case (Special t)
  then show ?thesis using run by (auto simp: build_walk_def is_reg_def)
next
  case (Reg i)
  show ?thesis
  proof (cases "\<exists>e. c = WErr e")
    case False
    with run Reg obtain f where f: "hash_file E p (fs_rel root p) w1 = (Inr f, w2)" "c = WOk (files @ [f])"
      "fs_rel root p \<noteq> manifest_name"
      by (auto simp: build_walk_def is_reg_def Let_def split: if_splits prod.splits sum.splits)
    have same: "same_fs w w1" using I by (simp add: built_so_far_def)
    have "look w1 p = Some (Reg i)" using n Reg by (simp add: same_fs_look [OF same])
    from f(1) this obtain x where x: "ino w1 i = Some x" "same_fs w1 w2"
      "f = \<lparr>f_path = fs_rel root p, f_sha256 = sha256_hex (i_data x), f_size = int (length (i_data x)), f_mode = fmt_mode (perm (i_mode x))\<rparr>"
      by (rule hash_file_Inr)
    moreover have "ino w i = Some x" using x(1) by (simp add: same_fs_ino [OF same])
    moreover have "same_fs w w2" using same x(2) by (rule same.trans)
    moreover have "\<exists>p' i x. (p', Reg i) \<in> set (ys @ [(p, n)]) \<and> ino w i = Some x \<and>
        g = \<lparr>f_path = fs_rel root p', f_sha256 = sha256_hex (i_data x),
             f_size = int (length (i_data x)), f_mode = fmt_mode (perm (i_mode x))\<rparr>"
      if "g \<in> set (files @ [f])" for g
    proof (cases "g = f")
      case True
      with x(3) \<open>ino w i = Some x\<close> Reg show ?thesis by (intro exI [of _ p] exI [of _ i] exI [of _ x]) simp
    next
      case False
      with that have "g \<in> set files" by simp
      with I show ?thesis unfolding built_so_far_def by fastforce
    qed
    ultimately have "built_so_far root w (ys @ [(p, n)]) (files @ [f]) w2"
      using I f(3) Reg unfolding built_so_far_def by simp
    with f(2) show ?thesis by simp
  qed simp
qed

lemma build_walk_Inr:
  assumes "walk_dir E (build_walk E root) root [] w = (Inr files, w')"
  shows "built_so_far root w (entries_under w root) files w'" "look w root \<noteq> None"
proof -
  show root: "look w root \<noteq> None"
    using assms by (auto simp: walk_dir_def build_walk_def split: if_splits)
  have "case walk_entries E (build_walk E root) (entries_under w root) [] w of
      (Inr a', w') \<Rightarrow> built_so_far root w (entries_under w root) a' w' | (Inl e, w') \<Rightarrow> True"
  proof (rule walk_entries_rule)
    show "built_so_far root w [] [] w"
      by (simp add: built_so_far_def same.refl)
  next
    fix ys p n a and w1 :: "'a world"
    assume "built_so_far root w ys a w1" "(p, n) \<in> set (entries_under w root)"
    then show "case build_walk E root p (Some n) None a w1 of
        (WOk a1, w1) \<Rightarrow> built_so_far root w (ys @ [(p, n)]) a1 w1 | (WErr e, w1) \<Rightarrow> True | _ \<Rightarrow> False"
      using build_walk_step [of root w ys a w1 p n E]
      by (cases "build_walk E root p (Some n) None a w1") (fastforce simp: set_entries_under)
  next
    fix ys p a and w1 :: "'a world"
    assume "built_so_far root w ys a w1"
    then show "case sys E (SysReadDir p) w1 of (False, w1) \<Rightarrow> built_so_far root w ys a w1
       | (True, w1) \<Rightarrow> (case build_walk E root p (Some Dir) (Some (E_os EIO)) a w1 of (WErr e, w2) \<Rightarrow> True | _ \<Rightarrow> False)"
      by (auto simp: sys_def build_walk_def built_so_far_def same_fs_def split: bool.splits)
  qed
  with assms root show "built_so_far root w (entries_under w root) files w'" by (simp add: walk_dir_def)
qed

lemma perm_bits: "unat (perm m) < 512"
proof -
  have "perm m = take_bit 9 m" by (simp add: perm_def take_bit_eq_mask mask_eq_exp_minus_1)
  then show ?thesis using take_bit_nat_less_exp [of 9 "unat m"] by (simp add: unsigned_take_bit_eq)
qed

lemma built_entry_matches:
  "entry_matches P \<lparr>f_path = q, f_sha256 = sha256_hex d, f_size = int (length d), f_mode = fmt_mode (perm md)\<rparr> (EFile d md)"
  using file_mode_fmt [OF perm_bits, of md "\<lparr>f_path = q, f_sha256 = sha256_hex d, f_size = int (length d), f_mode = []\<rparr>"]
  by (simp add: entry_matches_def)

text \<open>What \<open>Build\<close> returns is a valid manifest that the tree matches, free of the reserved name.\<close>

lemma build_matches:
  assumes run: "build E root w = (Inr m, w')" and w: "wf w" and dir: "look w root = Some Dir"
  shows "m_version m = manifest_version" "valid_manifest (plat E) m" "tree_matches (plat E) m (tree_at w root)"
    "manifest_name \<notin> f_path ` set (files_of m)" "same_fs w w'"
proof -
  from run obtain files where walk: "walk_dir E (build_walk E root) root [] w = (Inr files, w')"
    and m: "m = \<lparr>m_version = manifest_version, m_files = (if files = [] then None else Some files)\<rparr>"
      "validate (plat E) m = None"
    by (auto simp: build_def Let_def split: prod.splits sum.splits option.splits)
  have files: "files_of m = files" using m(1) by (simp add: files_of_def)
  note so_far = build_walk_Inr(1) [OF walk]
  have ys: "(p, n) \<in> set (entries_under w root) \<longleftrightarrow> prefix root p \<and> look w p = Some n" for p n
    using dir by (simp add: set_entries_under)
  show "m_version m = manifest_version" using m(1) by simp
  show "valid_manifest (plat E) m" using m(2) by (simp add: validate_iff)
  show "same_fs w w'" using so_far by (simp add: built_so_far_def)
  have paths: "f_path ` set files = visited root (entries_under w root)"
  proof -
    have "map f_path files = map (\<lambda>(p, n). fs_rel root p) [x \<leftarrow> entries_under w root. snd x \<noteq> Dir]"
      using so_far by (simp add: built_so_far_def)
    then have "set (map f_path files) = set (map (\<lambda>(p, n). fs_rel root p) [x \<leftarrow> entries_under w root. snd x \<noteq> Dir])"
      by (simp only:)
    then show ?thesis by (simp add: visited_def)
  qed
  show "manifest_name \<notin> f_path ` set (files_of m)"
    using so_far unfolding files paths visited_def built_so_far_def by fastforce
  have "\<exists>e. tree_at w root (comps (f_path f)) = Some e \<and> entry_matches (plat E) f e" if "f \<in> set files" for f
  proof -
    from that so_far obtain p i x where p: "prefix root p" "look w p = Some (Reg i)" "ino w i = Some x"
      "f = \<lparr>f_path = fs_rel root p, f_sha256 = sha256_hex (i_data x), f_size = int (length (i_data x)), f_mode = fmt_mode (perm (i_mode x))\<rparr>"
      unfolding built_so_far_def by (auto simp: ys)
    from p(1) obtain r where r: "p = root @ r" by (auto simp: prefix_def)
    with dir p(2) have "r \<noteq> []" by auto
    have "comps (f_path f) = r" using rel_plain(2) [OF w _ \<open>r \<noteq> []\<close>] p r by simp
    with p r built_entry_matches [of "plat E"] show ?thesis by (auto simp: tree_at_def entry_of_def)
  qed
  moreover have "r \<in> (comps \<circ> f_path) ` set files" if t: "tree_at w root r = Some e" "e \<noteq> EDir" for r e
  proof -
    from t obtain n where n: "look w (root @ r) = Some n" "n \<noteq> Dir"
      by (cases "look w (root @ r)"; cases "the (look w (root @ r))") (auto simp: tree_at_def entry_of_def)
    with dir have "r \<noteq> []" by auto
    have "fs_rel root (root @ r) \<in> f_path ` set files"
      unfolding paths visited_def using n by (force simp: ys)
    then show ?thesis using rel_plain(2) [OF w n(1) \<open>r \<noteq> []\<close>] by force
  qed
  ultimately show "tree_matches (plat E) m (tree_at w root)"
    using dir by (auto simp: tree_matches_def tree_at_Dir_iff files)
qed

text \<open>What is built verifies.\<close>

lemma build_walk_same: "build_walk E root p d err files w = (r, w') \<Longrightarrow> same_fs w w'"
  by (auto simp: build_walk_def hash_file_def Let_def same.refl dest: os_open_same
      split: option.splits node.splits if_splits prod.splits sum.splits)

lemma build_same: "build E root w = (r, w') \<Longrightarrow> same_fs w w'"
  by (auto simp: build_def Let_def split: prod.splits sum.splits option.splits
      dest!: same.walk_dir_step [rotated, OF _ build_walk_same])

lemma build_verify:
  assumes nf: "\<And>t c. \<not> fault E t c" and w: "wf w" "look w root = Some Dir"
    and small: "\<And>i x. ino w i = Some x \<Longrightarrow> int (length (i_data x)) < max_int64"
    and run: "build E root w = (Inr m, w')"
  shows "same_fs w w' \<and> valid_manifest (plat E) m \<and> manifest_name \<notin> f_path ` set (files_of m) \<and>
    fst (verify_tree E root m w') = None"
proof -
  note b = build_matches [OF run w]
  have w': "wf w'" using same_fs_safe [OF b(5), of "{}"] w(1) by (simp add: safe_def)
  have t: "tree_matches (plat E) m (tree_at w' root)" using b(3) by (simp add: same_fs_tree [OF b(5)])
  have "f_size f < max_int64" if f: "f \<in> set (files_of m)" for f
  proof -
    obtain e where e: "tree_at w root (comps (f_path f)) = Some e" "entry_matches (plat E) f e"
      using b(3) f by (auto simp: tree_matches_def)
    then obtain d md where "e = EFile d md" "int (length d) = f_size f" by (auto simp: entry_matches_def split: entry.splits)
    moreover from this e(1) obtain i x where "ino w i = Some x" "i_data x = d"
      by (cases "look w (root @ comps (f_path f))")
        (auto simp: tree_at_def entry_of_def split: node.splits)
    ultimately show ?thesis using small [of i x] by simp
  qed
  then obtain w2 where "verify_tree E root m w' = (None, w2)"
    using verify_tree_complete [OF nf w' b(1,2) _ t] by blast
  with b show ?thesis by simp
qed

end
