(* ===== verification/PullHash.thy ===== *)
theory PullHash
  imports S3Api ManifestTree
begin

text \<open>
  \<open>pkg/pull/hash.go\<close>: hashing a local tree and indexing it by content. Go's map of files is
  an association list in walk order here; every use of it as a map goes through \<open>map_of\<close>, and
  \<open>by_content\<close>, which ranges over it, is shown not to depend on the order.
\<close>

record local_file =
  lf_hash :: string
  lf_size :: int
  lf_mode :: file_mode

type_synonym content_key = "string \<times> int"

record leftover =
  lo_path :: string
  lo_mode :: file_mode

definition hash_content :: "os_env \<Rightarrow> fpath \<Rightarrow> 's world \<Rightarrow> string res \<times> 's world" where
  "hash_content E path w =
     and_then (os_open E path w) (\<lambda>fh w.
       case io_read_all fh of Inl e \<Rightarrow> (Inl e, w) | Inr d \<Rightarrow> (Inr (sha256_hex d), w))"

definition is_not_exist :: "gerr \<Rightarrow> bool" where
  "is_not_exist e \<longleftrightarrow> errors_is e (E_os ENOENT)"

definition hash_walk :: "os_env \<Rightarrow> fpath \<Rightarrow> string \<Rightarrow> ((string \<times> local_file) list, 's) walk_fn" where
  "hash_walk E root skip p d err files w =
     (case (err, d) of
        (Some e, _) \<Rightarrow> (if p = root \<and> is_not_exist e then WSkipAll files else WErr e, w)
      | (None, None) \<Rightarrow> (WErr (E_os ENOENT), w)
      | (None, Some n) \<Rightarrow>
          if n = Dir \<and> skip \<noteq> [] \<and> p = root @ [skip] then (WSkipDir files, w)
          else (case n of
                  Reg i \<Rightarrow>
                    (case ino w i of
                       None \<Rightarrow> (WErr (E_os ENOENT), w)
                     | Some x \<Rightarrow>
                         (case hash_content E p w of
                            (Inl e, w) \<Rightarrow> (WErr e, w)
                          | (Inr h, w) \<Rightarrow>
                              (WOk (files @ [(fs_rel root p,
                                 \<lparr>lf_hash = h, lf_size = int (length (i_data x)), lf_mode = perm (i_mode x)\<rparr>)]), w)))
                | _ \<Rightarrow> (WOk files, w)))"

definition hash_tree :: "os_env \<Rightarrow> fpath \<Rightarrow> string \<Rightarrow> 's world \<Rightarrow> ((string \<times> local_file) list) res \<times> 's world" where
  "hash_tree E root skip w = walk_dir E (hash_walk E root skip) root [] w"

definition index_add :: "string \<times> local_file \<Rightarrow> (content_key \<rightharpoonup> leftover) \<Rightarrow> (content_key \<rightharpoonup> leftover)" where
  "index_add pf index =
     (let (p, lf) = pf; k = (lf_hash lf, lf_size lf)
      in case index k of
           None \<Rightarrow> index(k \<mapsto> \<lparr>lo_path = p, lo_mode = lf_mode lf\<rparr>)
         | Some have \<Rightarrow> if p < lo_path have then index(k \<mapsto> \<lparr>lo_path = p, lo_mode = lf_mode lf\<rparr>) else index)"

definition by_content :: "(string \<times> local_file) list \<Rightarrow> (content_key \<rightharpoonup> leftover)" where
  "by_content files = fold index_add files Map.empty"

section \<open>The index\<close>

definition content_of :: "local_file \<Rightarrow> content_key" where
  "content_of lf = (lf_hash lf, lf_size lf)"

text \<open>The leftover of a content is the file of that content with the lexically first path.\<close>

definition first_of :: "(string \<times> local_file) list \<Rightarrow> content_key \<Rightarrow> leftover \<Rightarrow> bool" where
  "first_of files k lo \<longleftrightarrow>
     (\<exists>lf. (lo_path lo, lf) \<in> set files \<and> content_of lf = k \<and> lo_mode lo = lf_mode lf) \<and>
     (\<forall>(p, lf) \<in> set files. content_of lf = k \<longrightarrow> lo_path lo \<le> p)"

lemma first_of_le: "first_of files k lo \<Longrightarrow> (p, lf) \<in> set files \<Longrightarrow> content_of lf = k \<Longrightarrow> lo_path lo \<le> p"
  by (auto simp: first_of_def)

definition indexed :: "(string \<times> local_file) list \<Rightarrow> (content_key \<rightharpoonup> leftover) \<Rightarrow> bool" where
  "indexed files index \<longleftrightarrow>
     (\<forall>k. case index k of None \<Rightarrow> \<forall>x \<in> set files. content_of (snd x) \<noteq> k | Some lo \<Rightarrow> first_of files k lo)"

lemma indexed_cases:
  assumes "indexed files index"
  shows "index k = None \<Longrightarrow> x \<in> set files \<Longrightarrow> content_of (snd x) \<noteq> k" "index k = Some lo \<Longrightarrow> first_of files k lo"
  using spec [OF assms [unfolded indexed_def], of k] by auto

lemma indexed_add:
  assumes "indexed seen index"
  shows "indexed (seen @ [(p, lf)]) (index_add (p, lf) index)"
  unfolding indexed_def
proof
  fix k
  let ?k = "content_of lf" and ?new = "\<lparr>lo_path = p, lo_mode = lf_mode lf\<rparr>"
  show "case index_add (p, lf) index k of None \<Rightarrow> \<forall>x \<in> set (seen @ [(p, lf)]). content_of (snd x) \<noteq> k
      | Some lo \<Rightarrow> first_of (seen @ [(p, lf)]) k lo"
  proof (cases "k = ?k")
    case False
    then have "index_add (p, lf) index k = index k"
      by (auto simp: index_add_def content_of_def Let_def split: option.splits)
    with indexed_cases [OF assms, of k] False show ?thesis
      by (auto simp: first_of_def split: option.splits)
  next
    case True
    show ?thesis
    proof (cases "index ?k")
      case None
      then have "index_add (p, lf) index k = Some ?new"
        using True by (auto simp: index_add_def content_of_def)
      with indexed_cases(1) [OF assms None] True show ?thesis
        by (auto simp: first_of_def)
    next
      case (Some lo)
      note f = indexed_cases(2) [OF assms Some]
      show ?thesis
      proof (cases "p < lo_path lo")
        case less: True
        then have "index_add (p, lf) index k = Some ?new"
          using True Some by (auto simp: index_add_def content_of_def)
        moreover have "p \<le> q" if "(q, lg) \<in> set seen" "content_of lg = ?k" for q lg
          using first_of_le [OF f that] less by simp
        ultimately show ?thesis using True by (auto simp: first_of_def)
      next
        case False
        then have "index_add (p, lf) index k = Some lo"
          using True Some by (auto simp: index_add_def content_of_def)
        with f True False show ?thesis by (auto simp: first_of_def)
      qed
    qed
  qed
qed

lemma indexed_fold: "indexed seen index \<Longrightarrow> indexed (seen @ files) (fold index_add files index)"
proof (induction files arbitrary: seen index)
  case Nil
  then show ?case by simp
next
  case (Cons x files)
  then show ?case using Cons.IH [OF indexed_add [of seen index "fst x" "snd x"]] by simp
qed

lemma by_content_indexed: "indexed files (by_content files)"
  using indexed_fold [of "[]" Map.empty files] by (simp add: by_content_def indexed_def)

lemma first_of_unique:
  assumes "distinct (map fst files)" "first_of files k a" "first_of files k b"
  shows "a = (b :: leftover)"
proof -
  obtain lf where a: "(lo_path a, lf) \<in> set files" "content_of lf = k" "lo_mode a = lf_mode lf"
    using assms(2) by (auto simp: first_of_def)
  obtain lg where b: "(lo_path b, lg) \<in> set files" "content_of lg = k" "lo_mode b = lf_mode lg"
    using assms(3) by (auto simp: first_of_def)
  have eq: "lo_path a = lo_path b"
    using first_of_le [OF assms(2) b(1,2)] first_of_le [OF assms(3) a(1,2)] by (rule order_antisym)
  then have "lf = lg" using assms(1) a(1) b(1) by (metis eq_key_imp_eq_value)
  with eq a b show ?thesis by simp
qed

lemma first_of_cong: "set files' = set files \<Longrightarrow> first_of files' = first_of files"
  by (intro ext) (simp add: first_of_def)

lemma by_content_order:
  assumes "distinct (map fst files)" "set files' = set files"
  shows "by_content files' = by_content files"
proof
  fix k
  note A = indexed_cases [OF by_content_indexed, of files k]
    and B = indexed_cases [OF by_content_indexed, of files' k, unfolded first_of_cong [OF assms(2)]]
  show "by_content files' k = by_content files k"
  proof (cases "by_content files k")
    case None
    then have "first_of files k lo \<Longrightarrow> False" for lo
      using A(1) by (force simp: first_of_def)
    with None B(2) show ?thesis by (cases "by_content files' k") auto
  next
    case (Some lo)
    note f = A(2) [OF Some]
    then have "by_content files' k \<noteq> None"
      using B(1) assms(2) by (force simp: first_of_def)
    with B(2) f Some show ?thesis
      using first_of_unique [OF assms(1)] by (cases "by_content files' k") auto
  qed
qed

lemma by_content_Some:
  assumes "by_content files k = Some lo"
  obtains lf where "(lo_path lo, lf) \<in> set files" "content_of lf = k" "lo_mode lo = lf_mode lf"
  using indexed_cases(2) [OF by_content_indexed assms] by (auto simp: first_of_def)

lemma by_content_None_iff: "by_content files k = None \<longleftrightarrow> (\<forall>x \<in> set files. content_of (snd x) \<noteq> k)"
proof
  assume "by_content files k = None"
  then show "\<forall>x \<in> set files. content_of (snd x) \<noteq> k"
    using indexed_cases(1) [OF by_content_indexed] by blast
next
  assume none: "\<forall>x \<in> set files. content_of (snd x) \<noteq> k"
  show "by_content files k = None"
  proof (rule ccontr)
    assume "by_content files k \<noteq> None"
    then obtain lo where "by_content files k = Some lo" by auto
    then show False using none by (auto elim!: by_content_Some)
  qed
qed

section \<open>Hashing a tree\<close>

lemma hash_content_same: "hash_content E p w = (r, w') \<Longrightarrow> same_fs w w'"
  unfolding hash_content_def
  by (erule same.and_then_step) (auto dest: os_open_same simp: same.refl split: sum.splits)

lemma hash_walk_same: "hash_walk E root skip p d err files w = (r, w') \<Longrightarrow> same_fs w w'"
  by (auto simp: hash_walk_def same.refl dest: hash_content_same
      split: option.splits node.splits if_splits prod.splits sum.splits)

lemma hash_tree_same: "hash_tree E root skip w = (r, w') \<Longrightarrow> same_fs w w'"
  unfolding hash_tree_def by (erule same.walk_dir_step [rotated]) (rule hash_walk_same)

end
