(* ===== verification/PullWrite.thy ===== *)
theory PullWrite
  imports PullHash
begin

text \<open>
  Writing one staged file, from \<open>pkg/pull/stage.go\<close>: \<open>checkStaged\<close>, \<open>chmod\<close>,
  \<open>writeVerified\<close>, \<open>copyFile\<close>, \<open>downloadWhole\<close> and \<open>copyFromSource\<close>. Each creates a
  fresh file, so it leaves every other file as it is, and leaves the entry's verified bytes
  behind when it succeeds.
\<close>

definition check_staged :: "mfile \<Rightarrow> int \<Rightarrow> bytes \<Rightarrow> gerr option" where
  "check_staged f n hashed =
     (if n > f_size f then Some (E_mismatch (f_path f) ''body exceeds the manifest's bytes'')
      else if n < f_size f then Some (E_mismatch (f_path f) ''body is shorter than the manifest says'')
      else if sha256_hex hashed \<noteq> f_sha256 f
      then Some (E_mismatch (f_path f) (''bytes hash '' @ sha256_hex hashed))
      else None)"

definition chmod :: "os_env \<Rightarrow> fpath \<Rightarrow> file_mode \<Rightarrow> 's world \<Rightarrow> gerr option \<times> 's world" where
  "chmod E p m w =
     (case os_chmod E p m w of
        (Some e, w) \<Rightarrow> (if goos (plat E) \<noteq> ''windows'' then Some e else None, w)
      | (None, w) \<Rightarrow> (None, w))"

text \<open>Close a handle after an operation on it: its error counts when there was none before.\<close>

definition close_after :: "os_env \<Rightarrow> nat \<Rightarrow> 'a res \<times> 's world \<Rightarrow> 'a res \<times> 's world" where
  "close_after E i p =
     (case p of
        (Inl e, w) \<Rightarrow> (Inl e, snd (os_close E i w))
      | (Inr x, w) \<Rightarrow>
          (case os_close E i w of (Some e, w) \<Rightarrow> (Inl e, w) | (None, w) \<Rightarrow> (Inr x, w)))"

definition as_err :: "gerr + gerr option \<Rightarrow> gerr option" where
  "as_err r = (case r of Inl e \<Rightarrow> Some e | Inr x \<Rightarrow> x)"

definition write_verified ::
  "os_env \<Rightarrow> 'z reader_scheme \<Rightarrow> mfile \<Rightarrow> fpath \<Rightarrow> file_mode \<Rightarrow> 's world \<Rightarrow> gerr option \<times> 's world" where
  "write_verified E r f dst mode w =
     (case os_create E dst mode w of
        (Inl e, w) \<Rightarrow> (Some e, w)
      | (Inr fh, w) \<Rightarrow>
          (case close_after E fh (io_copy E fh r (wrap64 (f_size f + 1)) w) of
             (Inl e, w) \<Rightarrow> (Some e, w)
           | (Inr d, w) \<Rightarrow>
               if_ok (check_staged f (int (length d)) d, w) (chmod E dst mode)))"

definition copy_file ::
  "os_env \<Rightarrow> fpath \<Rightarrow> string \<Rightarrow> mfile \<Rightarrow> fpath \<Rightarrow> file_mode \<Rightarrow> 's world \<Rightarrow> gerr option \<times> 's world" where
  "copy_file E src from f dst mode w =
     (case os_open E src w of
        (Inl e, w) \<Rightarrow> (Some e, w)
      | (Inr fh, w) \<Rightarrow>
          wrap_err (\<lambda>e. E_wrap ''pull: copying %s %s: %w'' [from, f_path f] [e]) (write_verified E fh f dst mode w))"

definition download_whole ::
  "os_env \<Rightarrow> 's get_fn \<Rightarrow> string \<Rightarrow> string \<Rightarrow> mfile \<Rightarrow> fpath \<Rightarrow> file_mode \<Rightarrow> 's world \<Rightarrow> gerr option \<times> 's world" where
  "download_whole E get bucket pre f dst mode w =
     (let key = path_join pre (f_path f)
      in case s3_call get (get_request bucket key) w of
           (Inl e, w) \<Rightarrow> (Some (E_wrap ''pull: fetching %s: %w'' [key] [e]), w)
         | (Inr out, w) \<Rightarrow>
             wrap_err (\<lambda>e. E_wrap ''pull: downloading %s: %w'' [key] [e]) (write_verified E (go_body out) f dst mode w))"

definition copy_from_source ::
  "os_env \<Rightarrow> fpath \<Rightarrow> mfile \<Rightarrow> fpath \<Rightarrow> file_mode \<Rightarrow> 's world \<Rightarrow> bool res \<times> 's world" where
  "copy_from_source E source f dst mode w =
     (let src = fs_join source (f_path f)
      in case os_lstat w src of
           Inl e \<Rightarrow> (Inl (E_wrap ''pull: source %s: %w'' [f_path f] [e]), w)
         | Inr n \<Rightarrow>
             if \<not> is_reg n then (Inl (E_new ''pull: source %s: not a regular file'' [f_path f]), w)
             else (case os_open E src w of
                     (Inl e, w) \<Rightarrow> (Inl e, w)
                   | (Inr fh, w) \<Rightarrow>
                       (case write_verified E fh f dst mode w of
                          (Some e, w) \<Rightarrow> (Inl (E_wrap ''pull: copying source %s: %w'' [f_path f] [e]), w)
                        | (None, w) \<Rightarrow> (Inr False, w))))"

section \<open>A file under one name\<close>

text \<open>The inode has at most the one name \<open>p\<close>.\<close>

definition only_name :: "'s world \<Rightarrow> nat \<Rightarrow> fpath \<Rightarrow> bool" where
  "only_name w i p \<longleftrightarrow> (\<forall>q. look w q = Some (Reg i) \<longrightarrow> q = p)"

definition same_names :: "'s world \<Rightarrow> 's world \<Rightarrow> bool" where
  "same_names w w' \<longleftrightarrow> look w' = look w"

interpretation names: step_order same_names
  by unfold_locales (auto simp: same_names_def fun_eq_iff)

lemma same_fs_names: "same_fs w w' \<Longrightarrow> same_names w w'"
  by (simp add: same_names_def same_fs_look)

lemma only_name_names: "same_names w w' \<Longrightarrow> only_name w' i p = only_name w i p"
  by (simp add: only_name_def same_names_def)

lemma os_write_names: "os_write E i d w = (r, w') \<Longrightarrow> same_names w w'"
  by (auto simp: os_write_def sys_def Let_def same_names_def fun_eq_iff split: if_splits)

lemma io_copy_names: "same_names w (snd (io_copy E i r lim w))"
proof -
  obtain e w1 where "os_write E i (take (nat lim) (r_data r)) w = (e, w1)" by fastforce
  then show ?thesis using os_write_names by (auto simp: io_copy_def Let_def split: option.splits)
qed

lemma snd_close_after: "snd (close_after E i (r, w)) = snd (os_close E i w)"
  by (auto simp: close_after_def split: sum.splits prod.splits option.splits)

lemma close_after_same: "same_fs (snd p) (snd (close_after E i p))"
proof (cases p)
  case (Pair r w)
  then show ?thesis using os_close_same [of E i w "fst (os_close E i w)" "snd (os_close E i w)"]
    by (simp add: snd_close_after)
qed

lemma os_create_Inr:
  assumes "os_create E p m w = (Inr i, w')" "wf w"
  shows "only_name w' i p" "look w' p = Some (Reg i)" "ino w' i = Some \<lparr>i_data = [], i_mode = m AND NOT (umask E)\<rparr>"
    "look w p = None" "p \<noteq> []" "i = w_next w" "\<And>q. q \<noteq> p \<Longrightarrow> look w' q = look w q"
    "look w (parent p) = Some Dir"
proof -
  have l: "look w p = None" "look w (parent p) = Some Dir" "i = w_next w" "p \<noteq> []" and w': "w' = (set_name p (Reg (w_next w))
      (set_inode (w_next w) \<lparr>i_data = [], i_mode = m AND NOT (umask E)\<rparr> (w\<lparr>w_tick := Suc (w_tick w)\<rparr>)))\<lparr>w_next := Suc (w_next w)\<rparr>"
    using assms(1) by (auto simp: os_create_def sys_def Let_def split: if_splits)
  then show "only_name w' i p" using wf_next_unused(1) [OF assms(2)] by (auto simp: only_name_def)
  from l w' show "look w' p = Some (Reg i)" "ino w' i = Some \<lparr>i_data = [], i_mode = m AND NOT (umask E)\<rparr>"
    "look w p = None" "p \<noteq> []" "i = w_next w" "\<And>q. q \<noteq> p \<Longrightarrow> look w' q = look w q" "look w (parent p) = Some Dir"
    by simp_all
qed

lemma io_copy_safe:
  assumes "\<And>q. q \<in> S \<Longrightarrow> look w q \<noteq> Some (Reg i)"
  shows "safe S w (snd (io_copy E i r lim w))"
proof -
  obtain e w1 where w: "os_write E i (take (nat lim) (r_data r)) w = (e, w1)" by fastforce
  then have "safe S w w1" using assms by (rule os_write_safe)
  with w show ?thesis by (auto simp: io_copy_def Let_def split: option.splits)
qed

lemma close_after_safe: "safe S w (snd p) \<Longrightarrow> safe S w (snd (close_after E i p))"
  by (erule keep.trans) (rule same_fs_safe [OF close_after_same])

lemma chmod_safe:
  assumes "\<And>i. look w p = Some (Reg i) \<Longrightarrow> only_name w i p" "p \<notin> S"
  shows "safe S w (snd (chmod E p m w))"
proof -
  obtain e w1 where c: "os_chmod E p m w = (e, w1)" by fastforce
  then have "safe S w w1"
  proof (rule os_chmod_safe)
    fix q i assume "look w p = Some (Reg i)" "q \<in> S"
    then show "look w q \<noteq> Some (Reg i)" using assms unfolding only_name_def by blast
  qed
  with c show ?thesis by (auto simp: chmod_def split: option.splits)
qed

section \<open>writeVerified\<close>

lemma write_verified_safe:
  assumes "dst \<notin> S" "plain_comp (last dst)"
  shows "safe S w (snd (write_verified E r f dst mode w))"
proof (cases "wf w")
  case True
  obtain c w1 where create: "os_create E dst mode w = (c, w1)" by fastforce
  then have s1: "safe S w w1" using assms by (rule os_create_safe)
  show ?thesis
  proof (cases c)
    case (Inl e)
    with create s1 show ?thesis by (simp add: write_verified_def)
  next
    case (Inr i)
    note cr = os_create_Inr [OF create [unfolded Inr] True]
    let ?p = "close_after E i (io_copy E i r (wrap64 (f_size f + 1)) w1)"
    have s2: "safe S w1 (snd ?p)"
      using cr(1) assms(1) by (intro close_after_safe io_copy_safe) (auto simp: only_name_def)
    have "same_names w1 (snd ?p)"
      using names.trans [OF io_copy_names same_fs_names [OF close_after_same]] .
    then have pr: "only_name (snd ?p) j dst" if "look (snd ?p) dst = Some (Reg j)" for j
      using cr(1,2) that by (simp add: only_name_names) (simp add: same_names_def)
    have "safe S (snd ?p) (snd (chmod E dst mode (snd ?p)))"
      using pr assms(1) by (rule chmod_safe)
    then have s3: "safe S w1 (snd (chmod E dst mode (snd ?p)))"
      by (rule keep.trans [OF s2])
    have "snd (write_verified E r f dst mode w) \<in> {snd ?p, snd (chmod E dst mode (snd ?p))}"
      using create Inr by (auto simp: write_verified_def if_ok_def split: sum.splits prod.splits option.splits)
    with keep.trans [OF s1 s2] keep.trans [OF s1 s3] show ?thesis by auto
  qed
qed (simp add: safe_def)

lemma check_staged_Some: "check_staged f n d = Some e \<Longrightarrow> \<exists>t. e = E_mismatch (f_path f) t"
  by (auto simp: check_staged_def split: if_splits)

lemma check_staged_None: "check_staged f n d = None \<longleftrightarrow> n = f_size f \<and> sha256_hex d = f_sha256 f"
  by (auto simp: check_staged_def)

text \<open>The file at \<open>dst\<close> holds the entry's bytes, under that one name, with the mode asked for.\<close>

definition holds :: "os_env \<Rightarrow> mfile \<Rightarrow> file_mode \<Rightarrow> fpath \<Rightarrow> 's world \<Rightarrow> bool" where
  "holds E f mode dst w \<longleftrightarrow>
     (\<exists>i x. look w dst = Some (Reg i) \<and> only_name w i dst \<and> ino w i = Some x \<and>
       int (length (i_data x)) = f_size f \<and> sha256_hex (i_data x) = f_sha256 f \<and>
       (goos (plat E) = ''windows'' \<or> i_mode x = mode))"

lemma io_copy_Inr:
  assumes "io_copy E i r lim w = (Inr d, w')" "ino w i = Some x"
  shows "ino w' i = Some (x\<lparr>i_data := i_data x @ d\<rparr>)" "d = take (nat lim) (r_data r)"
  using assms
  by (auto simp: io_copy_def os_write_def sys_def Let_def ino_append_inode split: if_splits option.splits prod.splits)

lemma chmod_None:
  assumes "chmod E p m w = (None, w')" "look w p = Some (Reg i)" "ino w i = Some x"
  obtains y where "ino w' i = Some y" "i_data y = i_data x" "goos (plat E) = ''windows'' \<or> i_mode y = m" "same_names w w'"
  using assms
  by (auto simp: chmod_def os_chmod_def sys_def Let_def same_names_def fun_eq_iff
      split: prod.splits if_splits option.splits)

lemma close_after_Inr:
  assumes "close_after E i p = (Inr x, w')"
  shows "\<exists>w. p = (Inr x, w) \<and> same_fs w w'"
  using assms os_close_same [of E i]
  by (cases p) (auto simp: close_after_def split: sum.splits prod.splits option.splits)

lemma write_verified_None:
  assumes run: "write_verified E r f dst mode w = (None, w')" and w: "wf w"
  shows "holds E f mode dst w'" "look w dst = None" "\<And>q. q \<noteq> dst \<Longrightarrow> look w' q = look w q"
    "look w (parent dst) = Some Dir"
proof -
  from run obtain i w1 d w2 where create: "os_create E dst mode w = (Inr i, w1)"
    and copy: "close_after E i (io_copy E i r (wrap64 (f_size f + 1)) w1) = (Inr d, w2)"
    and check: "check_staged f (int (length d)) d = None" and ch: "chmod E dst mode w2 = (None, w')"
    by (auto simp: write_verified_def if_ok_def split: sum.splits prod.splits option.splits)
  note cr = os_create_Inr [OF create w]
  from close_after_Inr [OF copy] obtain w1' where io: "io_copy E i r (wrap64 (f_size f + 1)) w1 = (Inr d, w1')"
    and same: "same_fs w1' w2" by blast
  have x: "ino w2 i = Some \<lparr>i_data = d, i_mode = mode AND NOT (umask E)\<rparr>"
    using io_copy_Inr(1) [OF io cr(3)] by (simp add: same_fs_ino [OF same])
  have n12: "same_names w1 w2"
    using io_copy_names [of w1 E i r "wrap64 (f_size f + 1)"] io same_fs_names [OF same] names.trans by fastforce
  then have l: "look w2 dst = Some (Reg i)" using cr(2) by (simp add: same_names_def)
  from chmod_None [OF ch l x] obtain y where y: "ino w' i = Some y" "i_data y = d"
      "goos (plat E) = ''windows'' \<or> i_mode y = mode" "same_names w2 w'" by auto
  have n: "same_names w1 w'" using n12 y(4) by (rule names.trans)
  have "look w' dst = Some (Reg i)" "only_name w' i dst"
    using n cr(1,2) by (simp_all add: only_name_names) (simp add: same_names_def)
  with y(1-3) check show "holds E f mode dst w'"
    by (auto simp: holds_def check_staged_None)
  show "look w dst = None" by (fact cr(4))
  show "look w' q = look w q" if "q \<noteq> dst" for q using cr(7) [OF that] n by (simp add: same_names_def)
  show "look w (parent dst) = Some Dir" by (fact cr(8))
qed

text \<open>A body of other length or hash fails with the mismatch error of the entry.\<close>

lemma write_verified_mismatch:
  assumes nf: "\<And>t c. \<not> fault E t c" and r: "r_err r = None"
    and free: "look w dst = None" "look w (parent dst) = Some Dir"
    and size: "0 \<le> f_size f" "f_size f < max_int64"
    and bad: "int (length (r_data r)) \<noteq> f_size f \<or> sha256_hex (r_data r) \<noteq> f_sha256 f"
  shows "\<exists>d w'. write_verified E r f dst mode w = (Some (E_mismatch (f_path f) d), w')"
proof -
  have lim: "wrap64 (f_size f + 1) = f_size f + 1"
    using size by (intro wrap64_id) (simp add: is_int64_def max_int64_def)
  let ?d = "take (nat (f_size f + 1)) (r_data r)"
  have "check_staged f (int (length ?d)) ?d \<noteq> None"
    using bad size(1) by (auto simp: check_staged_None)
  then obtain d where "check_staged f (int (length ?d)) ?d = Some (E_mismatch (f_path f) d)"
    using check_staged_Some by blast
  with nf r free lim show ?thesis
    by (simp add: write_verified_def os_create_def sys_def io_copy_def os_write_def close_after_def os_close_def Let_def)
qed

section \<open>The other writers\<close>

lemma copy_file_safe:
  assumes "dst \<notin> S" "plain_comp (last dst)"
  shows "safe S w (snd (copy_file E src from f dst mode w))"
proof -
  obtain o1 w1 where o: "os_open E src w = (o1, w1)" by fastforce
  have "safe S w w1" using os_open_same [OF o] by (rule same_fs_safe)
  with o show ?thesis
    by (auto simp: copy_file_def intro: keep.trans write_verified_safe [OF assms] split: sum.splits)
qed

lemma download_whole_safe:
  assumes "dst \<notin> S" "plain_comp (last dst)"
  shows "safe S w (snd (download_whole E get bucket pre f dst mode w))"
proof -
  obtain o1 w1 where o: "s3_call get (get_request bucket (path_join pre (f_path f))) w = (o1, w1)" by fastforce
  have "safe S w w1" using s3_call_same [OF o] by (rule same_fs_safe)
  with o show ?thesis
    by (auto simp: download_whole_def Let_def intro: keep.trans write_verified_safe [OF assms] split: sum.splits)
qed

lemma copy_from_source_safe:
  assumes "dst \<notin> S" "plain_comp (last dst)"
  shows "safe S w (snd (copy_from_source E source f dst mode w))"
proof -
  obtain o1 w1 where o: "os_open E (fs_join source (f_path f)) w = (o1, w1)" by fastforce
  have s: "safe S w w1" using os_open_same [OF o] by (rule same_fs_safe)
  have "snd (copy_from_source E source f dst mode w) \<in>
      {w, w1} \<union> (\<lambda>fh. snd (write_verified E fh f dst mode w1)) ` {fh. o1 = Inr fh}"
    using o by (auto simp: copy_from_source_def Let_def split: sum.splits prod.splits option.splits)
  with s write_verified_safe [OF assms] keep.trans keep.refl show ?thesis by fastforce
qed

end
