(* ===== verification/Json.thy ===== *)
theory Json
  imports Prelude
begin

text \<open>
  What the program uses of \<open>encoding/json\<close>: UTF-8 as \<open>unicode/utf8\<close> decodes it, string
  quoting and unquoting, the decoder's scanner (one token at a time, an explicit stack of
  open arrays and objects, Go's depth limit), and the indented encoder. Numbers keep their
  text; strings are unquoted.
\<close>

section \<open>UTF-8\<close>

abbreviation byte :: "char \<Rightarrow> nat" where
  "byte c \<equiv> of_char c"

definition cont :: "char \<Rightarrow> bool" where
  "cont c \<longleftrightarrow> 128 \<le> byte c \<and> byte c \<le> 191"

definition byte_in :: "nat \<Rightarrow> nat \<Rightarrow> char \<Rightarrow> bool" where
  "byte_in lo hi c \<longleftrightarrow> lo \<le> byte c \<and> byte c \<le> hi"

text \<open>The length of the rune at the head, or 0 where \<open>DecodeRune\<close> reports an invalid byte.\<close>

definition rune_len :: "bytes \<Rightarrow> nat" where
  "rune_len s =
     (case s of
        [] \<Rightarrow> 0
      | a # r \<Rightarrow>
          if byte a < 128 then 1
          else if byte_in 194 223 a then (case r of b # _ \<Rightarrow> if cont b then 2 else 0 | _ \<Rightarrow> 0)
          else if byte_in 224 239 a then
            (case r of b # c # _ \<Rightarrow>
               if (if byte a = 224 then byte_in 160 191 b else if byte a = 237 then byte_in 128 159 b else cont b) \<and> cont c
               then 3 else 0
             | _ \<Rightarrow> 0)
          else if byte_in 240 244 a then
            (case r of b # c # d # _ \<Rightarrow>
               if (if byte a = 240 then byte_in 144 191 b else if byte a = 244 then byte_in 128 143 b else cont b)
                  \<and> cont c \<and> cont d
               then 4 else 0
             | _ \<Rightarrow> 0)
          else 0)"

text \<open>\<open>utf8.EncodeRune\<close> for a code point outside the surrogates.\<close>

definition encode_rune :: "nat \<Rightarrow> bytes" where
  "encode_rune r =
     (if r < 128 then [char_of r]
      else if r < 2048 then [char_of (192 + r div 64), char_of (128 + r mod 64)]
      else if r < 65536
      then [char_of (224 + r div 4096), char_of (128 + r div 64 mod 64), char_of (128 + r mod 64)]
      else [char_of (240 + r div 262144), char_of (128 + r div 4096 mod 64),
            char_of (128 + r div 64 mod 64), char_of (128 + r mod 64)])"

definition replacement :: bytes where
  "replacement = [CHR 0xEF, CHR 0xBF, CHR 0xBD]"

text \<open>A string cut into runes; \<open>None\<close> stands for an invalid byte.\<close>

function runes :: "bytes \<Rightarrow> bytes option list" where
  "runes s =
     (if s = [] then []
      else if rune_len s = 0 then None # runes (tl s)
      else Some (take (rune_len s) s) # runes (drop (rune_len s) s))"
  by pat_completeness auto
termination
  by (relation "measure length") (auto simp: neq_Nil_conv)

declare runes.simps [simp del]

definition valid_utf8 :: "bytes \<Rightarrow> bool" where
  "valid_utf8 s \<longleftrightarrow> None \<notin> set (runes s)"

text \<open>A string as JSON stores it: every invalid byte becomes the replacement rune.\<close>

definition coerce_utf8 :: "bytes \<Rightarrow> bytes" where
  "coerce_utf8 s = concat (map (\<lambda>r. case r of None \<Rightarrow> replacement | Some x \<Rightarrow> x) (runes s))"

section \<open>Quoting\<close>

abbreviation quote :: char where "quote \<equiv> CHR 0x22"
abbreviation bslash :: char where "bslash \<equiv> CHR 0x5C"

definition hex_char :: "nat \<Rightarrow> char" where
  "hex_char n = ''0123456789abcdef'' ! n"

definition u_escape :: "nat \<Rightarrow> string" where
  "u_escape n = [bslash, CHR ''u'', hex_char (n div 4096 mod 16), hex_char (n div 256 mod 16),
     hex_char (n div 16 mod 16), hex_char (n mod 16)]"

definition quote_char :: "char \<Rightarrow> string" where
  "quote_char c =
     (if c = bslash \<or> c = quote then [bslash, c]
      else if byte c = 8 then [bslash, CHR ''b'']
      else if byte c = 12 then [bslash, CHR ''f'']
      else if byte c = 10 then [bslash, CHR ''n'']
      else if byte c = 13 then [bslash, CHR ''r'']
      else if byte c = 9 then [bslash, CHR ''t'']
      else if byte c < 32 \<or> c = CHR ''<'' \<or> c = CHR ''>'' \<or> c = CHR ''&'' then u_escape (byte c)
      else [c])"

definition quote_rune :: "bytes option \<Rightarrow> string" where
  "quote_rune r =
     (case r of
        None \<Rightarrow> u_escape 65533
      | Some [c] \<Rightarrow> quote_char c
      | Some x \<Rightarrow> if x = encode_rune 8232 then u_escape 8232
                  else if x = encode_rune 8233 then u_escape 8233 else x)"

definition quote_body :: "bytes \<Rightarrow> string" where
  "quote_body s = concat (map quote_rune (runes s))"

definition quote_json :: "bytes \<Rightarrow> string" where
  "quote_json s = quote # quote_body s @ [quote]"

section \<open>Unquoting\<close>

definition hex4 :: "string \<Rightarrow> nat option" where
  "hex4 s =
     (let v = (\<lambda>c. if char_between CHR ''0'' CHR ''9'' c then Some (byte c - 48)
                   else if char_between CHR ''a'' CHR ''f'' c then Some (byte c - 87)
                   else if char_between CHR ''A'' CHR ''F'' c then Some (byte c - 55) else None)
      in case s of
           a # b # c # d # _ \<Rightarrow>
             (case (v a, v b, v c, v d) of
                (Some a, Some b, Some c, Some d) \<Rightarrow> Some (a * 4096 + b * 256 + c * 16 + d)
              | _ \<Rightarrow> None)
         | _ \<Rightarrow> None)"

text \<open>The body of a string literal up to its closing quote, checked as the scanner checks it.\<close>

function scan_string :: "bytes \<Rightarrow> (bytes \<times> bytes) option" where
  "scan_string [] = None"
| "scan_string (c # s) =
     (if c = quote then Some ([], s)
      else if byte c < 32 then None
      else if c \<noteq> bslash then map_option (\<lambda>(b, r). (c # b, r)) (scan_string s)
      else (case s of
              [] \<Rightarrow> None
            | e # t \<Rightarrow>
                if e = CHR ''u'' then
                  (if hex4 t = None then None
                   else map_option (\<lambda>(b, r). (c # e # take 4 t @ b, r)) (scan_string (drop 4 t)))
                else if e \<in> {quote, bslash, CHR ''/'', CHR ''b'', CHR ''f'', CHR ''n'', CHR ''r'', CHR ''t''}
                then map_option (\<lambda>(b, r). (c # e # b, r)) (scan_string t)
                else None))"
  by pat_completeness auto
termination
  by (relation "measure length") auto

definition simple_escape :: "char \<Rightarrow> char" where
  "simple_escape e =
     (if e = CHR ''b'' then char_of (8::nat) else if e = CHR ''f'' then char_of (12::nat)
      else if e = CHR ''n'' then char_of (10::nat) else if e = CHR ''r'' then char_of (13::nat)
      else if e = CHR ''t'' then char_of (9::nat) else e)"

definition surrogate :: "nat \<Rightarrow> bool" where
  "surrogate r \<longleftrightarrow> 55296 \<le> r \<and> r < 57344"

text \<open>\<open>utf16.DecodeRune\<close>: a high and a low surrogate make one code point.\<close>

definition join_surrogates :: "nat \<Rightarrow> nat option \<Rightarrow> nat option" where
  "join_surrogates hi lo =
     (case lo of
        Some l \<Rightarrow> if 55296 \<le> hi \<and> hi < 56320 \<and> 56320 \<le> l \<and> l < 57344
                  then Some ((hi - 55296) * 1024 + (l - 56320) + 65536) else None
      | None \<Rightarrow> None)"

definition next_u_escape :: "bytes \<Rightarrow> nat option" where
  "next_u_escape s = (case s of a # b # t \<Rightarrow> if a = bslash \<and> b = CHR ''u'' then hex4 t else None | _ \<Rightarrow> None)"

function unquote :: "bytes \<Rightarrow> bytes" where
  "unquote [] = []"
| "unquote (c # s) =
     (if c = bslash then
        (case s of
           [] \<Rightarrow> []
         | e # t \<Rightarrow>
             if e = CHR ''u'' then
               (case hex4 t of
                  None \<Rightarrow> []
                | Some r \<Rightarrow>
                    if surrogate r then
                      (case join_surrogates r (next_u_escape (drop 4 t)) of
                         Some x \<Rightarrow> encode_rune x @ unquote (drop 10 t)
                       | None \<Rightarrow> replacement @ unquote (drop 4 t))
                    else encode_rune r @ unquote (drop 4 t))
             else simple_escape e # unquote t)
      else if rune_len (c # s) = 0 then replacement @ unquote s
      else take (rune_len (c # s)) (c # s) @ unquote (drop (rune_len (c # s)) (c # s)))"
  by pat_completeness auto
termination
  by (relation "measure length") auto

section \<open>Tokens\<close>

datatype json =
    JNull
  | JBool bool
  | JNum string
  | JStr bytes
  | JArr "json list"
  | JObj "(bytes \<times> json) list"

datatype token = TOpenA | TCloseA | TOpenO | TCloseO | TColon | TComma | TLit json

definition is_ws :: "char \<Rightarrow> bool" where
  "is_ws c \<longleftrightarrow> byte c \<in> {32, 9, 13, 10}"

definition is_digit :: "char \<Rightarrow> bool" where
  "is_digit c \<longleftrightarrow> char_between CHR ''0'' CHR ''9'' c"

definition scan_digits :: "bytes \<Rightarrow> (bytes \<times> bytes) option" where
  "scan_digits s = (if takeWhile is_digit s = [] then None else Some (takeWhile is_digit s, dropWhile is_digit s))"

definition scan_frac :: "bytes \<Rightarrow> (bytes \<times> bytes) option" where
  "scan_frac s =
     (case s of
        c # t \<Rightarrow> if c = CHR ''.'' then map_option (\<lambda>(d, r). (c # d, r)) (scan_digits t) else Some ([], s)
      | [] \<Rightarrow> Some ([], s))"

definition scan_exp :: "bytes \<Rightarrow> (bytes \<times> bytes) option" where
  "scan_exp s =
     (case s of
        c # t \<Rightarrow>
          if c = CHR ''e'' \<or> c = CHR ''E'' then
            (case t of
               sg # u \<Rightarrow>
                 if sg = CHR ''+'' \<or> sg = CHR ''-'' then map_option (\<lambda>(d, r). (c # sg # d, r)) (scan_digits u)
                 else map_option (\<lambda>(d, r). (c # d, r)) (scan_digits t)
             | [] \<Rightarrow> None)
          else Some ([], s)
      | [] \<Rightarrow> Some ([], s))"

text \<open>An integer part without leading zeros, then a fraction and an exponent.\<close>

definition scan_number :: "bytes \<Rightarrow> (bytes \<times> bytes) option" where
  "scan_number s =
     (let (sg, t) = (case s of c # t \<Rightarrow> if c = CHR ''-'' then ([c], t) else ([], s) | [] \<Rightarrow> ([], s))
      in case t of
           c # u \<Rightarrow>
             (case (if c = CHR ''0'' then Some ([c], u) else scan_digits t) of
                None \<Rightarrow> None
              | Some (i, r) \<Rightarrow>
                  (case scan_frac r of
                     None \<Rightarrow> None
                   | Some (f, r) \<Rightarrow>
                       (case scan_exp r of None \<Rightarrow> None | Some (e, r) \<Rightarrow> Some (sg @ i @ f @ e, r))))
         | [] \<Rightarrow> None)"

definition scan_word :: "string \<Rightarrow> json \<Rightarrow> bytes \<Rightarrow> (token \<times> bytes) option" where
  "scan_word w j s = (if prefix w s then Some (TLit j, drop (length w) s) else None)"

definition next_token :: "bytes \<Rightarrow> (token \<times> bytes) option" where
  "next_token inp =
     (case dropWhile is_ws inp of
        [] \<Rightarrow> None
      | c # s \<Rightarrow>
          if c = CHR ''['' then Some (TOpenA, s)
          else if c = CHR '']'' then Some (TCloseA, s)
          else if c = CHR ''{'' then Some (TOpenO, s)
          else if c = CHR ''}'' then Some (TCloseO, s)
          else if c = CHR '':'' then Some (TColon, s)
          else if c = CHR '','' then Some (TComma, s)
          else if c = quote then map_option (\<lambda>(b, r). (TLit (JStr (unquote b)), r)) (scan_string s)
          else if c = CHR ''t'' then scan_word ''true'' (JBool True) (c # s)
          else if c = CHR ''f'' then scan_word ''false'' (JBool False) (c # s)
          else if c = CHR ''n'' then scan_word ''null'' JNull (c # s)
          else map_option (\<lambda>(n, r). (TLit (JNum n), r)) (scan_number (c # s)))"

section \<open>The parser\<close>

text \<open>
  \<open>run_json\<close> reads one value: the mode says what may come next, the stack holds the open
  arrays and objects with what they have so far, last first. Like Go's scanner it refuses
  more than 10000 open ones.
\<close>

datatype frame = FArr "json list" | FObj "(bytes \<times> json) list" | FKey "(bytes \<times> json) list" bytes

datatype mode = MVal | MValOrClose | MKeyOrClose | MKey | MColon | MAfter json

definition max_depth :: nat where
  "max_depth = 10000"

lemma next_token_shorter:
  assumes "next_token s = Some (t, r)"
  shows "length r < length s"
proof -
  have str: "scan_string s = Some (b, r) \<Longrightarrow> length r < length s" for s b r
    by (induction s arbitrary: b r rule: scan_string.induct)
      (auto split: if_splits option.splits list.splits, fastforce+)
  have dig: "scan_digits s = Some (d, r) \<Longrightarrow> length r < length s" for s d r
  proof -
    assume "scan_digits s = Some (d, r)"
    then have "takeWhile is_digit s \<noteq> []" "r = dropWhile is_digit s"
      by (auto simp: scan_digits_def split: if_splits)
    then show ?thesis by (cases s) (auto simp: le_imp_less_Suc length_dropWhile_le split: if_splits)
  qed
  have frac: "scan_frac s = Some (d, r) \<Longrightarrow> length r \<le> length s" for s d r
    by (auto simp: scan_frac_def split: list.splits if_splits dest: dig)
  have ex: "scan_exp s = Some (d, r) \<Longrightarrow> length r \<le> length s" for s d r
    by (auto simp: scan_exp_def split: list.splits if_splits dest: dig)
  have num: "scan_number s = Some (d, r) \<Longrightarrow> length r < length s" for s d r
    by (auto simp: scan_number_def Let_def split: list.splits if_splits option.splits prod.splits
        dest!: frac ex dig)
  have "length (dropWhile is_ws s) \<le> length s" by (rule length_dropWhile_le)
  moreover have "length r < length (dropWhile is_ws s)"
    using assms
    by (auto simp: next_token_def scan_word_def split: list.splits if_splits dest!: str num
        dest: arg_cong [where f = length])
  ultimately show ?thesis by linarith
qed

definition begin_value :: "token \<Rightarrow> frame list \<Rightarrow> (mode \<times> frame list) option" where
  "begin_value t st =
     (case t of
        TLit j \<Rightarrow> Some (MAfter j, st)
      | TOpenA \<Rightarrow> if length st < max_depth then Some (MValOrClose, FArr [] # st) else None
      | TOpenO \<Rightarrow> if length st < max_depth then Some (MKeyOrClose, FObj [] # st) else None
      | _ \<Rightarrow> None)"

definition end_value :: "json \<Rightarrow> token \<Rightarrow> frame list \<Rightarrow> (mode \<times> frame list) option" where
  "end_value v t st =
     (case st of
        FArr vs # fs \<Rightarrow>
          if t = TComma then Some (MVal, FArr (v # vs) # fs)
          else if t = TCloseA then Some (MAfter (JArr (rev (v # vs))), fs) else None
      | FKey kvs k # fs \<Rightarrow>
          if t = TComma then Some (MKey, FObj ((k, v) # kvs) # fs)
          else if t = TCloseO then Some (MAfter (JObj (rev ((k, v) # kvs))), fs) else None
      | _ \<Rightarrow> None)"

definition key_token :: "token \<Rightarrow> frame list \<Rightarrow> (mode \<times> frame list) option" where
  "key_token t st =
     (case st of
        FObj kvs # fs \<Rightarrow> (case t of TLit (JStr k) \<Rightarrow> Some (MColon, FKey kvs k # fs) | _ \<Rightarrow> None)
      | _ \<Rightarrow> None)"

definition json_step :: "mode \<Rightarrow> frame list \<Rightarrow> token \<Rightarrow> (mode \<times> frame list) option" where
  "json_step m st t =
     (case m of
        MVal \<Rightarrow> begin_value t st
      | MValOrClose \<Rightarrow> if t = TCloseA then Some (MAfter (JArr []), tl st) else begin_value t st
      | MKeyOrClose \<Rightarrow> if t = TCloseO then Some (MAfter (JObj []), tl st) else key_token t st
      | MKey \<Rightarrow> key_token t st
      | MColon \<Rightarrow> if t = TColon then Some (MVal, st) else None
      | MAfter v \<Rightarrow> end_value v t st)"

function run_json :: "mode \<Rightarrow> frame list \<Rightarrow> bytes \<Rightarrow> (json \<times> bytes) option" where
  "run_json m st inp =
     (case m of
        MAfter v \<Rightarrow>
          if st = [] then Some (v, inp)
          else (case next_token inp of
                  None \<Rightarrow> None
                | Some (t, r) \<Rightarrow> (case json_step m st t of None \<Rightarrow> None | Some (m', st') \<Rightarrow> run_json m' st' r))
      | _ \<Rightarrow>
          (case next_token inp of
             None \<Rightarrow> None
           | Some (t, r) \<Rightarrow> (case json_step m st t of None \<Rightarrow> None | Some (m', st') \<Rightarrow> run_json m' st' r)))"
  by pat_completeness auto
termination
  by (relation "measure (\<lambda>(m, st, inp). length inp)") (auto dest: next_token_shorter)

declare run_json.simps [simp del]

text \<open>\<open>Decoder.Decode\<close> reads the first value; \<open>Unmarshal\<close> allows only white space after it.\<close>

definition decode_value :: "bytes \<Rightarrow> json option" where
  "decode_value s = map_option fst (run_json MVal [] s)"

definition unmarshal_value :: "bytes \<Rightarrow> json option" where
  "unmarshal_value s =
     (case run_json MVal [] s of
        Some (j, r) \<Rightarrow> if dropWhile is_ws r = [] then Some j else None
      | None \<Rightarrow> None)"

section \<open>Printing\<close>

fun dec_digits :: "nat \<Rightarrow> string" where
  "dec_digits n = (if n < 10 then [char_of (48 + n)] else dec_digits (n div 10) @ [char_of (48 + n mod 10)])"

declare dec_digits.simps [simp del]

definition fmt_int :: "int \<Rightarrow> string" where
  "fmt_int i = (if i < 0 then CHR ''-'' # dec_digits (nat (- i)) else dec_digits (nat i))"

definition newline :: "nat \<Rightarrow> string" where
  "newline d = CHR 0x0A # replicate (2 * d) CHR '' ''"

text \<open>\<open>SetIndent("", "  ")\<close>, and the compact form of \<open>json.Marshal\<close>.\<close>

fun render :: "nat \<Rightarrow> json \<Rightarrow> string" where
  "render d JNull = ''null''"
| "render d (JBool b) = (if b then ''true'' else ''false'')"
| "render d (JNum n) = n"
| "render d (JStr s) = quote_json s"
| "render d (JArr js) =
     (if js = [] then ''[]''
      else ''['' @ newline (Suc d) @ join_with ('','' @ newline (Suc d)) (map (render (Suc d)) js) @ newline d @ '']'')"
| "render d (JObj kvs) =
     (if kvs = [] then ''{}''
      else ''{'' @ newline (Suc d)
        @ join_with ('','' @ newline (Suc d)) (map (\<lambda>(k, j). quote_json k @ '': '' @ render (Suc d) j) kvs)
        @ newline d @ ''}'')"

fun compact :: "json \<Rightarrow> string" where
  "compact JNull = ''null''"
| "compact (JBool b) = (if b then ''true'' else ''false'')"
| "compact (JNum n) = n"
| "compact (JStr s) = quote_json s"
| "compact (JArr js) = ''['' @ join_with '','' (map compact js) @ '']''"
| "compact (JObj kvs) =
     ''{'' @ join_with '','' (map (\<lambda>(k, j). quote_json k @ '':'' @ compact j) kvs) @ ''}''"

section \<open>Fields\<close>

definition json_error :: gerr where
  "json_error = E_new ''json: cannot unmarshal'' []"

text \<open>
  \<open>foldName\<close>: ASCII letters fold to upper case, and so do the two other runes that fold to
  an ASCII letter, the long s and the Kelvin sign.
\<close>

fun fold_name :: "bytes \<Rightarrow> bytes" where
  "fold_name s =
     (case s of
        [] \<Rightarrow> []
      | c # t \<Rightarrow>
          if prefix [CHR 0xC5, CHR 0xBF] s then CHR ''S'' # fold_name (tl t)
          else if prefix [CHR 0xE2, CHR 0x84, CHR 0xAA] s then CHR ''K'' # fold_name (tl (tl t))
          else upper_char c # fold_name t)"

declare fold_name.simps [simp del]

text \<open>The struct field a key names: the field itself, else the one it equals up to case.\<close>

definition field_of :: "string list \<Rightarrow> bytes \<Rightarrow> string option" where
  "field_of fields k =
     (if k \<in> set fields then Some k
      else find (\<lambda>f. fold_name f = fold_name k) fields)"

fun dec_string :: "json \<Rightarrow> string \<Rightarrow> string res" where
  "dec_string JNull s = Inr s"
| "dec_string (JStr t) s = Inr t"
| "dec_string _ s = Inl json_error"

fun parse_dec :: "nat \<Rightarrow> string \<Rightarrow> nat option" where
  "parse_dec n [] = Some n"
| "parse_dec n (c # cs) = (if is_digit c then parse_dec (n * 10 + (byte c - 48)) cs else None)"

text \<open>\<open>strconv.ParseInt\<close> in base 10 for 64 bits.\<close>

definition parse_int :: "string \<Rightarrow> int option" where
  "parse_int s =
     (let (neg, ds) = (case s of c # t \<Rightarrow> if c = CHR ''-'' then (True, t) else if c = CHR ''+'' then (False, t) else (False, s)
                       | [] \<Rightarrow> (False, []))
      in if ds = [] then None
         else (case parse_dec 0 ds of
                 None \<Rightarrow> None
               | Some n \<Rightarrow> (let i = (if neg then - int n else int n) in if is_int64 i then Some i else None)))"

fun dec_int :: "json \<Rightarrow> int \<Rightarrow> int res" where
  "dec_int JNull i = Inr i"
| "dec_int (JNum t) i = (case parse_int t of None \<Rightarrow> Inl json_error | Some k \<Rightarrow> Inr k)"
| "dec_int _ i = Inl json_error"

text \<open>An object decodes member by member into the struct; \<open>null\<close> leaves it as it is.\<close>

fun dec_members :: "(bytes \<Rightarrow> json \<Rightarrow> 'a \<Rightarrow> 'a res) \<Rightarrow> (bytes \<times> json) list \<Rightarrow> 'a \<Rightarrow> 'a res" where
  "dec_members f [] x = Inr x"
| "dec_members f ((k, j) # kvs) x = (case f k j x of Inl e \<Rightarrow> Inl e | Inr y \<Rightarrow> dec_members f kvs y)"

fun dec_struct :: "(bytes \<Rightarrow> json \<Rightarrow> 'a \<Rightarrow> 'a res) \<Rightarrow> json \<Rightarrow> 'a \<Rightarrow> 'a res" where
  "dec_struct f JNull x = Inr x"
| "dec_struct f (JObj kvs) x = dec_members f kvs x"
| "dec_struct f _ x = Inl json_error"

end
