(* ===== verification/ManifestCodec.thy ===== *)
theory ManifestCodec
  imports Json ManifestTree
begin

text \<open>
  \<open>Encode\<close> and \<open>Decode\<close> of \<open>pkg/manifest/manifest.go\<close>: a manifest as indented JSON, sorted
  by path, and back. A \<open>files\<close> member given again decodes into the slice already there, as Go's
  decoder does: the old entries are overwritten field by field, and those beyond the new length
  stay in the slice's capacity, to be seen again by a third member.
\<close>

text \<open>\<open>sort.Slice\<close> is not stable; entries with different paths it puts in this order too.\<close>

definition sort_files :: "manifest \<Rightarrow> manifest" where
  "sort_files m = m\<lparr>m_files := map_option (sort_key f_path) (m_files m)\<rparr>"

definition file_json :: "mfile \<Rightarrow> json" where
  "file_json f = JObj [(''path'', JStr (f_path f)), (''sha256'', JStr (f_sha256 f)),
     (''size'', JNum (fmt_int (f_size f))), (''mode'', JStr (f_mode f))]"

definition manifest_json :: "manifest \<Rightarrow> json" where
  "manifest_json m = JObj [(''version'', JNum (fmt_int (m_version m))),
     (''files'', case m_files m of None \<Rightarrow> JNull | Some fs \<Rightarrow> JArr (map file_json fs))]"

text \<open>\<open>Encode\<close> sorts the manifest's own slice and gives the bytes.\<close>

definition encode :: "manifest \<Rightarrow> manifest \<times> bytes" where
  "encode m = (let s = sort_files m in (s, render 0 (manifest_json s) @ [CHR 0x0A]))"

definition zero_file :: mfile where
  "zero_file = \<lparr>f_path = [], f_sha256 = [], f_size = 0, f_mode = []\<rparr>"

definition dec_file_field :: "bytes \<Rightarrow> json \<Rightarrow> mfile \<Rightarrow> mfile res" where
  "dec_file_field k j f =
     (case field_of [''path'', ''sha256'', ''size'', ''mode''] k of
        None \<Rightarrow> Inr f
      | Some n \<Rightarrow>
          if n = ''path'' then map_sum id (\<lambda>s. f\<lparr>f_path := s\<rparr>) (dec_string j (f_path f))
          else if n = ''sha256'' then map_sum id (\<lambda>s. f\<lparr>f_sha256 := s\<rparr>) (dec_string j (f_sha256 f))
          else if n = ''size'' then map_sum id (\<lambda>i. f\<lparr>f_size := i\<rparr>) (dec_int j (f_size f))
          else map_sum id (\<lambda>s. f\<lparr>f_mode := s\<rparr>) (dec_string j (f_mode f)))"

fun dec_elements :: "json list \<Rightarrow> mfile list \<Rightarrow> (mfile list) res" where
  "dec_elements [] have = Inr []"
| "dec_elements (j # js) have =
     (case dec_struct dec_file_field j (case have of [] \<Rightarrow> zero_file | f # _ \<Rightarrow> f) of
        Inl e \<Rightarrow> Inl e
      | Inr f \<Rightarrow> map_sum id (Cons f) (dec_elements js (tl have)))"

text \<open>The slice and what its capacity holds beyond its length.\<close>

type_synonym slice_state = "mfile list option \<times> mfile list"

fun dec_files :: "json \<Rightarrow> slice_state \<Rightarrow> slice_state res" where
  "dec_files JNull st = Inr (None, [])"
| "dec_files (JArr js) (have, beyond) =
     (let backing = (case have of None \<Rightarrow> [] | Some fs \<Rightarrow> fs) @ beyond
      in if js = [] then Inr (Some [], [])
         else map_sum id (\<lambda>fs. (Some fs, drop (length fs) backing)) (dec_elements js backing))"
| "dec_files _ st = Inl json_error"

definition dec_manifest_field :: "bytes \<Rightarrow> json \<Rightarrow> manifest \<times> mfile list \<Rightarrow> (manifest \<times> mfile list) res" where
  "dec_manifest_field k j st =
     (case st of (m, beyond) \<Rightarrow>
        (case field_of [''version'', ''files''] k of
           None \<Rightarrow> Inr (m, beyond)
         | Some n \<Rightarrow>
             if n = ''version'' then map_sum id (\<lambda>i. (m\<lparr>m_version := i\<rparr>, beyond)) (dec_int j (m_version m))
             else map_sum id (\<lambda>(fs, beyond). (m\<lparr>m_files := fs\<rparr>, beyond)) (dec_files j (m_files m, beyond))))"

definition zero_manifest :: manifest where
  "zero_manifest = \<lparr>m_version = 0, m_files = None\<rparr>"

definition decode :: "platform \<Rightarrow> bytes \<Rightarrow> manifest res" where
  "decode P raw =
     (case (case decode_value raw of
              None \<Rightarrow> Inl (E_new ''json: syntax error'' [])
            | Some j \<Rightarrow> dec_struct dec_manifest_field j (zero_manifest, [])) of
        Inl e \<Rightarrow> Inl (E_wrap ''manifest: decode: %w'' [] [e])
      | Inr (m, beyond) \<Rightarrow>
          if m_version m \<noteq> manifest_version
          then Inl (E_new ''manifest: unsupported version %d (this build reads version %d)'' [fmt_int (m_version m), fmt_int manifest_version])
          else (case validate P m of Some e \<Rightarrow> Inl e | None \<Rightarrow> Inr m))"

text \<open>\<open>Decode\<close> of a stream: an error of the stream shows when no value was complete before it.\<close>

definition decode_reader :: "platform \<Rightarrow> 'z reader_scheme \<Rightarrow> manifest res" where
  "decode_reader P r =
     (case decode P (r_data r) of
        Inr m \<Rightarrow> Inr m
      | Inl e \<Rightarrow>
          (case r_err r of
             None \<Rightarrow> Inl e
           | Some x \<Rightarrow> Inl (if decode_value (r_data r) = None then E_wrap ''manifest: decode: %w'' [] [x] else e)))"

lemma decode_valid:
  "decode P raw = Inr m \<Longrightarrow> m_version m = manifest_version \<and> valid_manifest P m"
  by (auto simp: decode_def validate_iff split: sum.splits if_splits option.splits)

lemma decode_reader_decode: "decode_reader P r = Inr m \<Longrightarrow> decode P (r_data r) = Inr m"
  by (auto simp: decode_reader_def split: sum.splits option.splits)

lemma decode_reader_clean: "r_err r = None \<Longrightarrow> decode_reader P r = decode P (r_data r)"
  by (auto simp: decode_reader_def split: sum.splits)

lemmas decode_reader_valid = decode_valid [OF decode_reader_decode]

end
