(* ===== verification/PullResume.thy ===== *)
theory PullResume
  imports PullWrite ManifestCodec
begin

text \<open>
  \<open>pkg/pull/resume.go\<close>: the prefixes of cut-off downloads. A prefix is a data file, its
  sidecar and, while it is copied forward, its previous name, all content-addressed below the
  resume directory of a tree. \<open>resume_or_fetch\<close> continues one with a ranged GET or fetches
  the object whole. The lemmas show that nothing outside the resume directory and the staged
  path changes, and that whatever ends up staged has the entry's size and hash, whatever the
  prefix held and whatever the server answered.
\<close>

definition resume_dir :: string where
  "resume_dir = ''.pinsync-resume''"

definition min_resume_size :: int where
  "min_resume_size = 1048576"

definition err_discard_prefix :: gerr where
  "err_discard_prefix = E_new ''kept prefix does not continue the object'' []"

definition err_prefix_stuck :: gerr where
  "err_prefix_stuck = E_new ''cannot use the kept partial download'' []"

lemma err_exists_sentinels [simp]:
  "err_exists P err_discard_prefix = P err_discard_prefix"
  "err_exists P err_prefix_stuck = P err_prefix_stuck"
  "err_prefix_stuck \<noteq> err_discard_prefix" "err_discard_prefix \<noteq> err_prefix_stuck"
  by (simp_all add: err_discard_prefix_def err_prefix_stuck_def)

definition stuck :: "gerr \<Rightarrow> gerr" where
  "stuck e = E_wrap ''%w: %w'' [] [err_prefix_stuck, e]"

record prefix_info =
  px_sha256 :: string
  px_size :: int
  px_etag :: string
  px_version :: string

record prefix_files =
  pf_data :: fpath
  pf_prev :: fpath
  pf_info :: fpath

definition prefix_files_in :: "fpath \<Rightarrow> string \<Rightarrow> prefix_files" where
  "prefix_files_in root dg =
     \<lparr>pf_data = root @ [resume_dir, dg], pf_prev = root @ [resume_dir, dg @ ''.prev''],
      pf_info = root @ [resume_dir, dg @ ''.json'']\<rparr>"

definition with_suffix :: "fpath \<Rightarrow> string \<Rightarrow> fpath" where
  "with_suffix p suf = butlast p @ [last p @ suf]"

section \<open>Which entries may resume\<close>

definition resume_off :: "manifest \<Rightarrow> bool" where
  "resume_off m \<longleftrightarrow>
     list_ex (\<lambda>f. fold_name (takeWhile (\<lambda>c. c \<noteq> slash) (f_path f)) = fold_name resume_dir) (files_of m)"

text \<open>The function \<open>resumeSlots\<close> returns, with the contents claimed so far as its state.\<close>

definition resumable :: "manifest \<Rightarrow> mfile \<Rightarrow> string list \<Rightarrow> bool \<times> string list" where
  "resumable m f claimed =
     (if resume_off m then (False, claimed)
      else if f_size f < min_resume_size \<or> f_sha256 f \<in> set claimed then (False, claimed)
      else (True, f_sha256 f # claimed))"

section \<open>The sidecar\<close>

definition info_json :: "prefix_info \<Rightarrow> json" where
  "info_json x = JObj ([(''sha256'', JStr (px_sha256 x)), (''size'', JNum (fmt_int (px_size x))), (''etag'', JStr (px_etag x))]
     @ (if px_version x = [] then [] else [(''version_id'', JStr (px_version x))]))"

definition marshal_info :: "prefix_info \<Rightarrow> bytes" where
  "marshal_info x = compact (info_json x)"

definition dec_info_field :: "bytes \<Rightarrow> json \<Rightarrow> prefix_info \<Rightarrow> prefix_info res" where
  "dec_info_field k j x =
     (case field_of [''sha256'', ''size'', ''etag'', ''version_id''] k of
        None \<Rightarrow> Inr x
      | Some n \<Rightarrow>
          if n = ''sha256'' then map_sum id (\<lambda>s. x\<lparr>px_sha256 := s\<rparr>) (dec_string j (px_sha256 x))
          else if n = ''size'' then map_sum id (\<lambda>i. x\<lparr>px_size := i\<rparr>) (dec_int j (px_size x))
          else if n = ''etag'' then map_sum id (\<lambda>s. x\<lparr>px_etag := s\<rparr>) (dec_string j (px_etag x))
          else map_sum id (\<lambda>s. x\<lparr>px_version := s\<rparr>) (dec_string j (px_version x)))"

definition unmarshal_info :: "bytes \<Rightarrow> prefix_info option" where
  "unmarshal_info raw =
     (case unmarshal_value raw of
        None \<Rightarrow> None
      | Some j \<Rightarrow>
          (case dec_struct dec_info_field j \<lparr>px_sha256 = [], px_size = 0, px_etag = [], px_version = []\<rparr> of
             Inl e \<Rightarrow> None | Inr x \<Rightarrow> Some x))"

section \<open>The prefix files\<close>

text \<open>\<open>Lstat\<close>'s size of a regular file.\<close>

definition reg_size :: "'s world \<Rightarrow> fpath \<Rightarrow> int option" where
  "reg_size w p =
     (case look w p of Some (Reg i) \<Rightarrow> map_option (\<lambda>x. int (length (i_data x))) (ino w i) | _ \<Rightarrow> None)"

definition inspect :: "os_env \<Rightarrow> prefix_files \<Rightarrow> mfile \<Rightarrow> 's world \<Rightarrow> (int \<times> prefix_info) option \<times> 's world" where
  "inspect E p f w =
     (let data = (if exists w (pf_prev p) then pf_prev p else pf_data p)
      in case os_open E (pf_info p) w of
           (Inl e, w) \<Rightarrow> (None, w)
         | (Inr fh, w) \<Rightarrow>
             (case io_read fh 4096 of
                Inl e \<Rightarrow> (None, w)
              | Inr raw \<Rightarrow>
                  (case unmarshal_info raw of
                     None \<Rightarrow> (None, w)
                   | Some info \<Rightarrow>
                       if px_sha256 info \<noteq> f_sha256 f \<or> px_size info \<noteq> f_size f \<or> px_etag info = [] then (None, w)
                       else (case reg_size w data of
                               None \<Rightarrow> (None, w)
                             | Some n \<Rightarrow> if n = 0 \<or> n > f_size f then (None, w) else (Some (n, info), w)))))"

definition load_prefix :: "os_env \<Rightarrow> prefix_files \<Rightarrow> mfile \<Rightarrow> 's world \<Rightarrow> (int \<times> prefix_info) option \<times> 's world" where
  "load_prefix E p f w =
     (if exists w (pf_prev p)
      then (case os_rename E (pf_prev p) (pf_data p) w of
              (Some e, w) \<Rightarrow> (None, w)
            | (None, w) \<Rightarrow> inspect E p f w)
      else inspect E p f w)"

definition remove_present :: "os_env \<Rightarrow> fpath \<Rightarrow> 's world \<Rightarrow> gerr option \<times> 's world" where
  "remove_present E p w =
     (case os_remove E p w of
        (Some e, w) \<Rightarrow> (if is_not_exist e then None else Some e, w)
      | (None, w) \<Rightarrow> (None, w))"

fun remove_names :: "os_env \<Rightarrow> fpath list \<Rightarrow> 's world \<Rightarrow> gerr option \<times> 's world" where
  "remove_names E [] w = (None, w)"
| "remove_names E (p # ps) w = if_ok (remove_present E p w) (remove_names E ps)"

definition discard :: "os_env \<Rightarrow> prefix_files \<Rightarrow> 's world \<Rightarrow> gerr option \<times> 's world" where
  "discard E p w = remove_names E [pf_data p, pf_prev p, pf_info p, with_suffix (pf_info p) ''.tmp''] w"

text \<open>Close the handle after an operation that gives an error or nothing.\<close>

definition close_err :: "os_env \<Rightarrow> nat \<Rightarrow> gerr option \<times> 's world \<Rightarrow> gerr option \<times> 's world" where
  "close_err E i p =
     (case p of (e, w) \<Rightarrow> (case os_close E i w of (c, w) \<Rightarrow> (if e = None then c else e, w)))"

definition write_info :: "os_env \<Rightarrow> prefix_files \<Rightarrow> prefix_info \<Rightarrow> 's world \<Rightarrow> gerr option \<times> 's world" where
  "write_info E p info w =
     (let tmp = with_suffix (pf_info p) ''.tmp''
      in if_ok (remove_present E tmp w) (\<lambda>w.
           case os_create E tmp 420 w of
             (Inl e, w) \<Rightarrow> (Some e, w)
           | (Inr fh, w) \<Rightarrow>
               if_ok (close_err E fh (os_write E fh (marshal_info info) w)) (os_rename E tmp (pf_info p))))"

definition install :: "os_env \<Rightarrow> prefix_files \<Rightarrow> fpath \<Rightarrow> file_mode \<Rightarrow> 's world \<Rightarrow> gerr option \<times> 's world" where
  "install E p dst mode w =
     if_ok (wrap_err stuck (os_rename E (pf_data p) dst w)) (\<lambda>w.
       case os_remove E (pf_info p) w of (_, w) \<Rightarrow> chmod E dst mode w)"

definition range_refused :: "gerr \<Rightarrow> bool" where
  "range_refused e \<longleftrightarrow>
     http_status e = Some 412 \<or> http_status e = Some 416 \<or>
     api_code e = Some ''PreconditionFailed'' \<or> api_code e = Some ''InvalidRange''"

definition create_data :: "os_env \<Rightarrow> fpath \<Rightarrow> file_mode \<Rightarrow> 's world \<Rightarrow> nat res \<times> 's world" where
  "create_data E p mode w = os_create E p (mode OR 128) w"

definition copy_prefix :: "os_env \<Rightarrow> nat \<Rightarrow> fpath \<Rightarrow> int \<Rightarrow> 's world \<Rightarrow> bytes res \<times> 's world" where
  "copy_prefix E fh src n w =
     and_then (os_open E src w) (\<lambda>inp w.
     and_then (io_copy E fh inp n w) (\<lambda>d w.
       if int (length d) \<noteq> n
       then (Inl (E_wrap ''%w: it shrank to %d bytes'' [] [err_discard_prefix]), w)
       else (Inr d, w)))"

definition is_discard :: "gerr \<Rightarrow> bool" where
  "is_discard e \<longleftrightarrow> errors_is e err_discard_prefix"

definition is_stuck :: "gerr \<Rightarrow> bool" where
  "is_stuck e \<longleftrightarrow> errors_is e err_prefix_stuck"

text \<open>
  Copying the prefix forward and removing its old name; a failure other than
  \<open>errDiscardPrefix\<close> is a stuck prefix file.
\<close>

definition copy_forward :: "os_env \<Rightarrow> nat \<Rightarrow> prefix_files \<Rightarrow> int \<Rightarrow> 's world \<Rightarrow> bytes res \<times> 's world" where
  "copy_forward E fh p n w =
     map_err (\<lambda>e. if is_discard e then e else stuck e)
       (and_then (copy_prefix E fh (pf_prev p) n w) (\<lambda>d w.
          case os_remove E (pf_prev p) w of (Some e, w) \<Rightarrow> (Inl e, w) | (None, w) \<Rightarrow> (Inr d, w)))"

text \<open>The prefix and the rest of the object written to the new data file: their bytes.\<close>

definition extend_copy ::
  "os_env \<Rightarrow> nat \<Rightarrow> prefix_files \<Rightarrow> mfile \<Rightarrow> int \<Rightarrow> reader \<Rightarrow> 's world \<Rightarrow> (bytes \<times> bytes) res \<times> 's world" where
  "extend_copy E fh p f n rest w =
     close_after E fh
       (and_then (copy_forward E fh p n w) (\<lambda>d w.
        and_then (io_copy E fh rest (wrap64 (f_size f - n + 1)) w) (\<lambda>got w. (Inr (d, got), w))))"

definition extend ::
  "os_env \<Rightarrow> prefix_files \<Rightarrow> mfile \<Rightarrow> int \<Rightarrow> reader \<Rightarrow> fpath \<Rightarrow> file_mode \<Rightarrow> 's world \<Rightarrow> gerr option \<times> 's world" where
  "extend E p f n rest dst mode w =
     if_ok (wrap_err stuck (os_rename E (pf_data p) (pf_prev p) w)) (\<lambda>w.
       case create_data E (pf_data p) mode w of
         (Inl e, w) \<Rightarrow> (Some (stuck e), w)
       | (Inr fh, w) \<Rightarrow>
           (case extend_copy E fh p f n rest w of
              (Inl e, w) \<Rightarrow> (Some e, w)
            | (Inr (d, got), w) \<Rightarrow>
                (case check_staged f (n + int (length got)) (d @ got) of
                   Some e \<Rightarrow> (Some (E_wrap ''%w: %v'' [] [err_discard_prefix]), w)
                 | None \<Rightarrow> install E p dst mode w)))"

section \<open>Downloading through them\<close>

definition extend_err :: "string \<Rightarrow> gerr \<Rightarrow> gerr" where
  "extend_err key e = (if is_discard e then e else E_wrap ''pull: resuming %s: %w'' [key] [e])"

definition content_range :: "int \<Rightarrow> int \<Rightarrow> string" where
  "content_range n sz = ''bytes '' @ fmt_int n @ ''-'' @ fmt_int (sz - 1) @ ''/'' @ fmt_int sz"

definition check_continues :: "get_out \<Rightarrow> mfile \<Rightarrow> int \<Rightarrow> prefix_info \<Rightarrow> gerr option" where
  "check_continues out f n info =
     (let vid = to_string (go_version out)
      in if to_string (go_range out) \<noteq> content_range n (f_size f)
         then Some (E_wrap ''%w: Content-Range %q, want %q'' [to_string (go_range out)] [err_discard_prefix])
         else if to_string (go_etag out) \<noteq> px_etag info
         then Some (E_wrap ''%w: ETag %s, the prefix is from %s'' [to_string (go_etag out), px_etag info] [err_discard_prefix])
         else if vid \<noteq> [] \<and> px_version info \<noteq> [] \<and> vid \<noteq> px_version info
         then Some (E_wrap ''%w: version %s, the prefix is from %s'' [vid, px_version info] [err_discard_prefix])
         else None)"

definition range_request :: "string \<Rightarrow> string \<Rightarrow> int \<Rightarrow> prefix_info \<Rightarrow> get_in" where
  "range_request bucket key n info =
     \<lparr>gi_bucket = bucket, gi_key = key, gi_checksum = False, gi_range = Some (''bytes='' @ fmt_int n @ ''-''),
      gi_if_match = Some (px_etag info), gi_relaxed = True\<rparr>"

definition empty_reader :: reader where
  "empty_reader = \<lparr>r_data = [], r_err = None\<rparr>"

text \<open>Success is \<open>Inr None\<close>: the file is staged; \<open>Inr (Some out)\<close> is a whole object to use instead.\<close>

definition continue_prefix ::
  "os_env \<Rightarrow> 's get_fn \<Rightarrow> string \<Rightarrow> string \<Rightarrow> mfile \<Rightarrow> prefix_files \<Rightarrow> int \<Rightarrow> prefix_info \<Rightarrow> fpath \<Rightarrow> file_mode
   \<Rightarrow> 's world \<Rightarrow> (get_out option) res \<times> 's world" where
  "continue_prefix E get bucket key f p n info dst mode w =
     (let done = (\<lambda>rest w. case wrap_err (extend_err key) (extend E p f n rest dst mode w) of
                     (Some e, w) \<Rightarrow> (Inl e, w) | (None, w) \<Rightarrow> (Inr None, w))
      in if n = f_size f then done empty_reader w
         else (case s3_call get (range_request bucket key n info) w of
                 (Inl e, w) \<Rightarrow>
                   (if range_refused e then Inl (E_wrap ''%w: %w'' [] [err_discard_prefix, e])
                    else Inl (E_wrap ''pull: fetching %s: %w'' [key] [e]), w)
               | (Inr out, w) \<Rightarrow>
                   if go_range out = None \<and> to_int64 (go_length out) = f_size f then (Inr (Some out), w)
                   else (case check_continues out f n info of
                           Some e \<Rightarrow> (Inl e, w)
                         | None \<Rightarrow> done (go_body out) w)))"

definition fetch_whole ::
  "os_env \<Rightarrow> 's get_fn \<Rightarrow> string \<Rightarrow> string \<Rightarrow> mfile \<Rightarrow> prefix_files \<Rightarrow> get_out option \<Rightarrow> fpath \<Rightarrow> file_mode
   \<Rightarrow> 's world \<Rightarrow> gerr option \<times> 's world" where
  "fetch_whole E get bucket key f p whole dst mode w =
     (case (case whole of
              Some out \<Rightarrow> (Inr out, w)
            | None \<Rightarrow> s3_call get (get_request bucket key) w) of
        (Inl e, w) \<Rightarrow> (Some (E_wrap ''pull: fetching %s: %w'' [key] [e]), w)
      | (Inr out, w) \<Rightarrow>
          if to_string (go_etag out) = []
          then wrap_err (\<lambda>e. E_wrap ''pull: downloading %s: %w'' [key] [e]) (write_verified E (go_body out) f dst mode w)
          else if_ok (wrap_err stuck (write_info E p
                   \<lparr>px_sha256 = f_sha256 f, px_size = f_size f, px_etag = to_string (go_etag out),
                    px_version = to_string (go_version out)\<rparr> w)) (\<lambda>w.
                 case create_data E (pf_data p) mode w of
                   (Inl e, w) \<Rightarrow> (Some (stuck e), w)
                 | (Inr fh, w) \<Rightarrow>
                     (case close_after E fh (io_copy E fh (go_body out) (wrap64 (f_size f + 1)) w) of
                        (Inl e, w) \<Rightarrow> (Some (E_wrap ''pull: downloading %s: %w'' [key] [e]), w)
                      | (Inr d, w) \<Rightarrow>
                          (case check_staged f (int (length d)) d of
                             Some e \<Rightarrow>
                               (case discard E p w of (_, w) \<Rightarrow> (Some (E_wrap ''pull: downloading %s: %w'' [key] [e]), w))
                           | None \<Rightarrow> install E p dst mode w))))"

text \<open>The last part of \<open>resumeOrFetch\<close>: discard what is kept and fetch the whole object.\<close>

definition start_over ::
  "os_env \<Rightarrow> 's get_fn \<Rightarrow> string \<Rightarrow> string \<Rightarrow> mfile \<Rightarrow> prefix_files \<Rightarrow> get_out option \<Rightarrow> fpath \<Rightarrow> file_mode
   \<Rightarrow> 's world \<Rightarrow> bool res \<times> 's world" where
  "start_over E get bucket key f p whole dst mode w =
     (case discard E p w of
        (Some e, w) \<Rightarrow> (Inl (stuck e), w)
      | (None, w) \<Rightarrow>
          (case fetch_whole E get bucket key f p whole dst mode w of
             (Some e, w) \<Rightarrow> (Inl e, w) | (None, w) \<Rightarrow> (Inr False, w)))"

definition resume_or_fetch ::
  "os_env \<Rightarrow> 's get_fn \<Rightarrow> string \<Rightarrow> string \<Rightarrow> fpath \<Rightarrow> mfile \<Rightarrow> fpath \<Rightarrow> file_mode \<Rightarrow> 's world \<Rightarrow> bool res \<times> 's world" where
  "resume_or_fetch E get bucket pre tmp f dst mode w =
     (let key = path_join pre (f_path f);
          p = prefix_files_in tmp (f_sha256 f)
      in case os_mkdir_all E (parent (pf_data p)) w of
           (Some e, w) \<Rightarrow> (Inl (stuck e), w)
         | (None, w) \<Rightarrow>
             (case load_prefix E p f w of
                (None, w) \<Rightarrow> start_over E get bucket key f p None dst mode w
              | (Some (n, info), w) \<Rightarrow>
                  (case continue_prefix E get bucket key f p n info dst mode w of
                     (Inl e, w) \<Rightarrow>
                       if is_discard e then start_over E get bucket key f p None dst mode w else (Inl e, w)
                   | (Inr None, w) \<Rightarrow> (Inr True, w)
                   | (Inr (Some out), w) \<Rightarrow> start_over E get bucket key f p (Some out) dst mode w)))"

definition download_resumable ::
  "os_env \<Rightarrow> 's get_fn \<Rightarrow> string \<Rightarrow> string \<Rightarrow> fpath \<Rightarrow> mfile \<Rightarrow> fpath \<Rightarrow> file_mode \<Rightarrow> 's world \<Rightarrow> bool res \<times> 's world" where
  "download_resumable E get bucket pre tmp f dst mode w =
     (case resume_or_fetch E get bucket pre tmp f dst mode w of
        (Inl e, w) \<Rightarrow>
          if is_stuck e
          then (case download_whole E get bucket pre f dst mode w of
                  (Some e, w) \<Rightarrow> (Inl e, w) | (None, w) \<Rightarrow> (Inr False, w))
          else (Inl e, w)
      | (Inr b, w) \<Rightarrow> (Inr b, w))"

section \<open>What changes\<close>

text \<open>No name is new.\<close>

definition no_new_links :: "'s world \<Rightarrow> 's world \<Rightarrow> bool" where
  "no_new_links w w' \<longleftrightarrow> (\<forall>q n. look w' q = Some n \<longrightarrow> look w q = Some n)"

interpretation links: step_order no_new_links
  by unfold_locales (auto simp: no_new_links_def)

lemma names_no_new: "same_names w w' \<Longrightarrow> no_new_links w w'"
  by (simp add: same_names_def no_new_links_def)

lemma only_name_kept: "only_name w i p \<Longrightarrow> no_new_links w w' \<Longrightarrow> only_name w' i p"
  by (auto simp: only_name_def no_new_links_def)

lemma os_remove_no_new: "no_new_links w (snd (os_remove E p w))"
  by (auto simp: os_remove_def sys_def Let_def no_new_links_def split: if_splits)

lemma open_no_new: "no_new_links w (snd (os_open E p w))"
  by (metis names_no_new os_open_same prod.collapse same_fs_names)

lemma io_copy_no_new: "no_new_links w (snd (io_copy E i r lim w))"
  by (rule names_no_new [OF io_copy_names])

definition sole :: "'s world \<Rightarrow> fpath \<Rightarrow> bool" where
  "sole w p \<longleftrightarrow> (\<forall>i. look w p = Some (Reg i) \<longrightarrow> only_name w i p)"

text \<open>What \<open>extend\<close> and \<open>fetchWhole\<close> write into a new file stays in that file.\<close>

lemma copy_prefix_effect:
  assumes "only_name w i d" "d \<notin> S"
  shows "safe S w (snd (copy_prefix E i src n w))" "no_new_links w (snd (copy_prefix E i src n w))"
proof -
  show "safe S w (snd (copy_prefix E i src n w))"
    unfolding copy_prefix_def
  proof (rule keep.seq_step [OF open_keep])
    fix fh :: handle and w1
    assume "os_open E src w = (Inr fh, w1)"
    then have "only_name w1 i d" using assms(1) only_name_names [OF same_fs_names [OF os_open_same]] by blast
    then have "safe S w1 (snd (io_copy E i fh n w1))"
      using assms(2) by (intro io_copy_safe) (auto simp: only_name_def)
    then show "safe S w1 (snd (and_then (io_copy E i fh n w1) (\<lambda>d w.
        if int (length d) \<noteq> n then (Inl (E_wrap ''%w: it shrank to %d bytes'' [] [err_discard_prefix]), w) else (Inr d, w))))"
      by (rule keep.seq_step) simp
  qed
  show "no_new_links w (snd (copy_prefix E i src n w))"
    unfolding copy_prefix_def
    by (intro links.seq_step open_no_new io_copy_no_new) (simp add: links.refl)
qed

lemma copy_forward_effect:
  assumes "only_name w i d" "d \<notin> S" "clear S (pf_prev p)"
  shows "safe S w (snd (copy_forward E i p n w))" "no_new_links w (snd (copy_forward E i p n w))"
proof -
  note cp = copy_prefix_effect [OF assms(1,2), of E "pf_prev p" n]
  show "safe S w (snd (copy_forward E i p n w))"
    unfolding copy_forward_def
    by (intro keep.map_err_step keep.seq_step cp keep.case_err_step remove_keep assms(3)) simp_all
  show "no_new_links w (snd (copy_forward E i p n w))"
    unfolding copy_forward_def
    by (intro links.map_err_step links.seq_step cp links.case_err_step os_remove_no_new) (simp_all add: links.refl)
qed

lemma rename_only_name:
  assumes "os_rename E frm to w = (None, w')" "only_name w i frm" "look w frm = Some (Reg i)" "frm \<noteq> to"
  shows "only_name w' i to" "look w' to = Some (Reg i)" "ino w' = ino w"
proof -
  have "look w to \<noteq> Some (Reg i)" using assms(2,4) by (auto simp: only_name_def)
  then have w': "w' = move_names frm to (w\<lparr>w_tick := Suc (w_tick w)\<rparr>)"
    and np: "\<not> prefix frm to" "\<not> prefix to frm"
    using assms(1,3,4) by (auto simp: os_rename_def sys_def Let_def is_reg_def split: if_splits)
  note l = look_move_names [OF np(2,1)]
  show "look w' to = Some (Reg i)" using assms(3) by (simp add: w' l)
  show "ino w' = ino w" by (simp add: w' fun_eq_iff)
  have "q = to" if "look w' q = Some (Reg i)" for q
  proof (cases "prefix to q")
    case True
    then obtain r where q: "q = to @ r" by (auto simp: prefix_def)
    with that have "look w (frm @ r) = Some (Reg i)" by (simp add: w' l)
    with assms(2) have "frm @ r = frm" unfolding only_name_def by blast
    with q show ?thesis by simp
  next
    case False
    with that have "look w q = Some (Reg i)" "\<not> prefix frm q" by (auto simp: w' l split: if_splits)
    with assms(2) show ?thesis unfolding only_name_def by auto
  qed
  then show "only_name w' i to" by (simp add: only_name_def)
qed

lemma install_safe:
  assumes "sole w (pf_data p)" "clear S (pf_data p)" "clear S (pf_info p)" "clear S dst" "plain_comp (last dst)"
  shows "safe S w (snd (install E p dst mode w))"
proof -
  have "safe S w1 (snd (chmod E dst mode w2))"
    if r: "os_rename E (pf_data p) dst w = (None, w1)" and rm: "os_remove E (pf_info p) w1 = (e, w2)" for w1 w2 e
  proof -
    have s2: "safe S w1 w2" using remove_keep [OF assms(3), of w1 E] rm by simp
    have no: "no_new_links w1 w2" using os_remove_no_new [of w1 E "pf_info p"] rm by simp
    have "only_name w2 i dst" if "look w2 dst = Some (Reg i)" for i
    proof -
      from that no have l1: "look w1 dst = Some (Reg i)" by (simp add: no_new_links_def)
      have d: "look w (pf_data p) = Some (Reg i)"
        using r l1
        by (auto simp: os_rename_def sys_def Let_def is_reg_def look_move_names split: if_splits option.splits node.splits)
      with assms(1) have o: "only_name w i (pf_data p)" by (simp add: sole_def)
      show ?thesis
      proof (cases "pf_data p = dst")
        case True
        with r have "w1 = w\<lparr>w_tick := Suc (w_tick w)\<rparr>"
          by (auto simp: os_rename_def sys_def Let_def split: if_splits option.splits)
        with o True have "only_name w1 i dst" by (simp add: only_name_def)
        with no show ?thesis by (rule only_name_kept [rotated])
      next
        case False
        from rename_only_name(1) [OF r o d this] no show ?thesis by (rule only_name_kept)
      qed
    qed
    then have "safe S w2 (snd (chmod E dst mode w2))"
      using clear_notin [OF assms(4)] by (rule chmod_safe)
    with s2 show ?thesis by (rule keep.trans)
  qed
  then show ?thesis
    unfolding install_def
    by (intro keep.if_ok_step keep.wrap_step rename_keep assms) (auto simp: wrap_err_None split: prod.splits)
qed

definition pf_paths :: "prefix_files \<Rightarrow> fpath list" where
  "pf_paths p = [pf_data p, pf_prev p, pf_info p, with_suffix (pf_info p) ''.tmp'']"

text \<open>The prefix files and the staged path lie where nothing of \<open>S\<close> is.\<close>

definition pf_clear :: "fpath set \<Rightarrow> prefix_files \<Rightarrow> fpath \<Rightarrow> bool" where
  "pf_clear S p dst \<longleftrightarrow> (\<forall>x \<in> set (dst # pf_paths p). clear S x \<and> plain_comp (last x))"

lemma pf_clearD:
  assumes "pf_clear S p dst"
  shows "clear S (pf_data p)" "clear S (pf_prev p)" "clear S (pf_info p)" "clear S (with_suffix (pf_info p) ''.tmp'')"
    "clear S dst" "plain_comp (last dst)" "plain_comp (last (pf_data p))" "plain_comp (last (pf_prev p))"
    "plain_comp (last (pf_info p))" "plain_comp (last (with_suffix (pf_info p) ''.tmp''))"
  using assms by (simp_all add: pf_clear_def pf_paths_def)

lemma sole_after: "only_name w i d \<Longrightarrow> look w d = Some (Reg i) \<Longrightarrow> no_new_links w w' \<Longrightarrow> sole w' d"
  using only_name_kept by (fastforce simp: sole_def no_new_links_def)

lemma remove_names_keep: "(\<And>x. x \<in> set ps \<Longrightarrow> clear S x) \<Longrightarrow> safe S w (snd (remove_names E ps w))"
proof (induction ps arbitrary: w)
  case Nil
  then show ?case by (simp add: keep.refl)
next
  case (Cons x ps)
  have "safe S w (snd (remove_present E x w))"
    unfolding remove_present_def
    by (intro keep.case_err_step remove_keep) (auto simp: Cons.prems keep.refl)
  then show ?case
    using Cons by (auto intro!: keep.if_ok_step)
qed

lemma discard_keep: "pf_clear S p dst \<Longrightarrow> safe S w (snd (discard E p w))"
  unfolding discard_def by (rule remove_names_keep) (auto simp: pf_clear_def pf_paths_def)

lemma inspect_same: "inspect E p f w = (r, w') \<Longrightarrow> same_fs w w'"
  by (auto simp: inspect_def Let_def dest: os_open_same split: sum.splits prod.splits option.splits if_splits)

lemma inspect_keep: "safe S w (snd (inspect E p f w))"
  by (metis inspect_same prod.collapse same_fs_safe)

lemma load_prefix_keep: "pf_clear S p dst \<Longrightarrow> safe S w (snd (load_prefix E p f w))"
  unfolding load_prefix_def
  by (intro keep.if_step keep.case_err_step rename_keep inspect_keep) (auto dest: pf_clearD simp: keep.refl)

lemma create_then:
  assumes "clear S d" "plain_comp (last d)"
    and "\<And>e w1. safe S w1 (snd (f e w1))"
    and "\<And>i w1. wf w1 \<Longrightarrow> only_name w1 i d \<Longrightarrow> look w1 d = Some (Reg i) \<Longrightarrow> safe S w1 (snd (g i w1))"
  shows "safe S w (snd (case os_create E d m w of (Inl e, w) \<Rightarrow> f e w | (Inr i, w) \<Rightarrow> g i w))"
proof (cases "wf w")
  case True
  show ?thesis
  proof (rule keep.case_res_step [OF create_keep [OF assms(1,2)]])
    fix i w1 assume c: "os_create E d m w = (Inr i, w1)"
    have "wf w1" using create_keep [OF assms(1,2), of w E m] c True by (simp add: safe_def)
    then show "safe S w1 (snd (g i w1))"
      using os_create_Inr [OF c True] assms(4) by blast
  qed (rule assms(3))
qed (simp add: safe_def)

lemma write_info_keep:
  assumes "pf_clear S p dst"
  shows "safe S w (snd (write_info E p info w))"
proof -
  let ?t = "with_suffix (pf_info p) ''.tmp''"
  have "safe S w1 (snd (close_err E i (os_write E i d w1)))" if "only_name w1 i ?t" for i d w1
  proof -
    have "safe S w1 (snd (os_write E i d w1))"
      using that clear_notin [OF pf_clearD(4) [OF assms]] by (intro write_keep) (auto simp: only_name_def)
    then show ?thesis unfolding close_err_def by (intro keep.pair_step close_keep) (auto simp: keep.refl)
  qed
  moreover have "safe S w (snd (remove_present E ?t w))"
    unfolding remove_present_def
    by (intro keep.case_err_step remove_keep) (auto simp: pf_clearD [OF assms] keep.refl)
  ultimately show ?thesis
    unfolding write_info_def
    by (intro keep.let_step keep.if_ok_step create_then rename_keep) (auto simp: pf_clearD [OF assms] keep.refl)
qed

lemma extend_copy_effect:
  assumes "pf_clear S p dst" "only_name w i (pf_data p)" "look w (pf_data p) = Some (Reg i)"
  shows "safe S w (snd (extend_copy E i p f n rest w))" "sole (snd (extend_copy E i p f n rest w)) (pf_data p)"
proof -
  note c = pf_clearD [OF assms(1)]
  note cf = copy_forward_effect [OF assms(2) clear_notin [OF c(1)] c(2), of E n]
  let ?y = "and_then (copy_forward E i p n w) (\<lambda>d w.
      and_then (io_copy E i rest (wrap64 (f_size f - n + 1)) w) (\<lambda>got w. (Inr (d, got), w)))"
  have "safe S w (snd ?y)"
  proof (rule keep.seq_step [OF cf(1)])
    fix d w2 assume "copy_forward E i p n w = (Inr d, w2)"
    then have "only_name w2 i (pf_data p)" using cf(2) assms(2) only_name_kept by fastforce
    then show "safe S w2 (snd (and_then (io_copy E i rest (wrap64 (f_size f - n + 1)) w2) (\<lambda>got w. (Inr (d, got), w))))"
      using clear_notin [OF c(1)] by (intro keep.seq_step io_copy_safe) (auto simp: only_name_def keep.refl)
  qed
  then show "safe S w (snd (extend_copy E i p f n rest w))"
    unfolding extend_copy_def by (rule close_after_safe)
  have "no_new_links w (snd ?y)"
    by (intro links.seq_step cf io_copy_no_new) (simp add: links.refl)
  then have "no_new_links w (snd (close_after E i ?y))"
    by (rule links.trans) (rule names_no_new [OF same_fs_names [OF close_after_same]])
  then show "sole (snd (extend_copy E i p f n rest w)) (pf_data p)"
    unfolding extend_copy_def by (rule sole_after [OF assms(2,3)])
qed

lemma extend_keep:
  assumes "pf_clear S p dst"
  shows "safe S w (snd (extend E p f n rest dst mode w))"
proof -
  note c = pf_clearD [OF assms]
  have tail: "safe S w1 (snd (case extend_copy E i p f n rest w1 of
              (Inl e, w) \<Rightarrow> (Some e, w)
            | (Inr (d, got), w) \<Rightarrow>
                (case check_staged f (n + int (length got)) (d @ got) of
                   Some e \<Rightarrow> (Some (E_wrap ''%w: %v'' [] [err_discard_prefix]), w)
                 | None \<Rightarrow> install E p dst mode w)))"
    if "only_name w1 i (pf_data p)" "look w1 (pf_data p) = Some (Reg i)" for i w1
  proof -
    obtain r w2 where x: "extend_copy E i p f n rest w1 = (r, w2)" by fastforce
    with extend_copy_effect [OF assms that, of E f n rest] have s: "safe S w1 w2" "sole w2 (pf_data p)" by simp_all
    have "safe S w2 (snd (install E p dst mode w2))"
      by (intro install_safe c s(2))
    with s(1) have "safe S w1 (snd (install E p dst mode w2))" by (rule keep.trans)
    with s(1) x show ?thesis by (auto split: sum.splits option.splits)
  qed
  show ?thesis
    unfolding extend_def create_data_def
    by (intro keep.if_ok_step keep.wrap_step rename_keep create_then c keep.done_step keep.refl tail)
qed

lemma s3_call_keep: "safe S w (snd (s3_call get q w))"
  by (metis prod.collapse s3_call_same same_fs_safe)

lemma check_continues_discard: "check_continues out f n info = Some e \<Longrightarrow> is_discard e"
  by (auto simp: check_continues_def is_discard_def errors_is_def Let_def split: if_splits)

lemma continue_prefix_keep:
  assumes "pf_clear S p dst"
  shows "safe S w (snd (continue_prefix E get bucket key f p n info dst mode w))"
proof -
  have fin: "safe S w (snd (case wrap_err (extend_err key) (extend E p f n rest dst mode w) of
      (Some e, w) \<Rightarrow> (Inl e, w) | (None, w) \<Rightarrow> (Inr None, w)))" for rest w
    by (intro keep.case_err_step keep.wrap_step extend_keep [OF assms]) (simp_all add: keep.refl)
  show ?thesis
    unfolding continue_prefix_def
    by (intro keep.let_step keep.if_step keep.case_res_step keep.option_step s3_call_keep fin keep.done_step keep.refl)
qed

lemma fetch_whole_keep:
  assumes "pf_clear S p dst"
  shows "safe S w (snd (fetch_whole E get bucket key f p whole dst mode w))"
proof -
  note c = pf_clearD [OF assms]
  have call: "safe S w (snd (case whole of Some out \<Rightarrow> (Inr out, w) | None \<Rightarrow> s3_call get q w))" for q w
    by (cases whole) (auto simp: keep.refl s3_call_keep)
  have tail: "safe S w1 (snd (case close_after E i (io_copy E i r lim w1) of
                        (Inl e, w) \<Rightarrow> (Some (g e), w)
                      | (Inr d, w) \<Rightarrow>
                          (case check_staged f (int (length d)) d of
                             Some e \<Rightarrow> (case discard E p w of (_, w) \<Rightarrow> (Some (h e), w))
                           | None \<Rightarrow> install E p dst mode w)))"
    if i: "only_name w1 i (pf_data p)" "look w1 (pf_data p) = Some (Reg i)" for i w1 lim g h and r :: reader
  proof -
    obtain q w2 where x: "close_after E i (io_copy E i r lim w1) = (q, w2)" by fastforce
    have "safe S w1 (snd (close_after E i (io_copy E i r lim w1)))"
      using i(1) clear_notin [OF c(1)] by (intro close_after_safe io_copy_safe) (auto simp: only_name_def)
    with x have s: "safe S w1 w2" by simp
    have "no_new_links w1 (snd (close_after E i (io_copy E i r lim w1)))"
      using links.trans [OF io_copy_no_new names_no_new [OF same_fs_names [OF close_after_same]]] .
    with x have "sole w2 (pf_data p)" using sole_after [OF i] by simp
    then have "safe S w2 (snd (install E p dst mode w2))" by (intro install_safe c)
    moreover have "safe S w2 (snd (discard E p w2))" by (rule discard_keep [OF assms])
    ultimately show ?thesis
      using keep.trans [OF s] s x by (auto split: sum.splits option.splits prod.splits)
  qed
  show ?thesis
    unfolding fetch_whole_def create_data_def
    by (intro keep.case_res_step call keep.if_step keep.wrap_step keep.if_ok_step write_verified_safe write_info_keep
        [OF assms] create_then tail keep.done_step keep.refl c clear_notin)
qed

lemma plain_suffix: "plain_comp c \<Longrightarrow> slash \<notin> set suf \<Longrightarrow> 2 < length suf \<Longrightarrow> plain_comp (c @ suf)"
  by (auto simp: plain_comp_def append_eq_Cons_conv)

lemma prefix_files_clear:
  assumes "apart S tmp" "plain_comp dg" "prefix tmp dst" "plain_comp (last dst)"
  shows "pf_clear S (prefix_files_in tmp dg) dst"
  using assms(2,4) apart_clear [OF assms(1)] assms(3)
  by (auto simp: pf_clear_def pf_paths_def prefix_files_in_def with_suffix_def butlast_append intro!: plain_suffix)

lemma resume_dir_plain: "plain_comp resume_dir"
  by (simp add: resume_dir_def plain_comp_def)

lemma start_over_keep:
  "pf_clear S p dst \<Longrightarrow> safe S w (snd (start_over E get bucket key f p whole dst mode w))"
  unfolding start_over_def
  by (intro keep.case_err_step discard_keep fetch_whole_keep keep.done_step keep.refl)

lemma resume_or_fetch_keep:
  assumes "apart S tmp" "plain_comp (f_sha256 f)" "prefix tmp dst" "plain_comp (last dst)" "plain_comps tmp"
  shows "safe S w (snd (resume_or_fetch E get bucket pre tmp f dst mode w))"
proof -
  let ?p = "prefix_files_in tmp (f_sha256 f)"
  have c: "pf_clear S ?p dst" by (rule prefix_files_clear [OF assms(1-4)])
  have pd: "parent (pf_data ?p) = tmp @ [resume_dir]" by (simp add: prefix_files_in_def parent_def butlast_append)
  have mk: "safe S w (snd (os_mkdir_all E (parent (pf_data ?p)) w))" for w
    unfolding pd
  proof (rule mkdir_all_keep)
    show "q \<notin> S" if "prefix q (tmp @ [resume_dir])" for q
      using that by (rule apart_above [OF assms(1), rotated]) simp
  qed (simp add: assms(5) resume_dir_plain)
  note steps = start_over_keep [OF c] continue_prefix_keep [OF c] load_prefix_keep [OF c]
  show ?thesis
    unfolding resume_or_fetch_def Let_def
    by (intro keep.case_err_step mk keep.pair_step keep.option_step keep.sum_step keep.tuple_step keep.if_step steps
        keep.done_step keep.refl)
qed

lemma download_resumable_keep:
  assumes "apart S tmp" "plain_comp (f_sha256 f)" "prefix tmp dst" "plain_comp (last dst)" "plain_comps tmp"
  shows "safe S w (snd (download_resumable E get bucket pre tmp f dst mode w))"
  unfolding download_resumable_def
  by (intro keep.case_res_step resume_or_fetch_keep [OF assms] keep.if_step keep.case_err_step download_whole_safe
      keep.done_step keep.refl clear_notin [OF apart_clear [OF assms(1,3)]] assms(4))

section \<open>What is staged\<close>

lemma os_remove_ino: "ino (snd (os_remove E p w)) = ino w"
  by (auto simp: os_remove_def sys_def Let_def fun_eq_iff)

lemma os_remove_other: "q \<noteq> p \<Longrightarrow> look (snd (os_remove E p w)) q = look w q"
  by (auto simp: os_remove_def sys_def Let_def)

lemma install_None:
  assumes run: "install E p dst mode w = (None, w')"
    and i: "look w (pf_data p) = Some (Reg i)" "only_name w i (pf_data p)" "ino w i = Some x"
    and ne: "pf_data p \<noteq> dst" "pf_info p \<noteq> dst"
  obtains y where "look w' dst = Some (Reg i)" "only_name w' i dst" "ino w' i = Some y" "i_data y = i_data x"
    "goos (plat E) = ''windows'' \<or> i_mode y = mode"
proof -
  from run obtain w1 e w2 where r: "os_rename E (pf_data p) dst w = (None, w1)"
    and rm: "os_remove E (pf_info p) w1 = (e, w2)" and ch: "chmod E dst mode w2 = (None, w')"
    by (auto simp: install_def wrap_err_None elim!: if_ok_NoneE split: prod.splits)
  note m = rename_only_name [OF r i(2,1) ne(1)]
  have l2: "look w2 dst = Some (Reg i)" using os_remove_other [OF ne(2) [symmetric], of E w1] rm m(2) by simp
  have i2: "ino w2 i = Some x" using os_remove_ino [of E "pf_info p" w1] rm m(3) i(3) by simp
  have "no_new_links w1 w2" using os_remove_no_new [of w1 E "pf_info p"] rm by simp
  then have o2: "only_name w2 i dst" using m(1) by (rule only_name_kept [rotated])
  from chmod_None [OF ch l2 i2] obtain y where y: "ino w' i = Some y" "i_data y = i_data x"
    "goos (plat E) = ''windows'' \<or> i_mode y = mode" "same_names w2 w'" by blast
  with l2 o2 show thesis
    by (intro that [of y]) (simp_all add: only_name_names, simp add: same_names_def)
qed

lemma copy_forward_Inr:
  assumes "copy_forward E i p n w = (Inr d, w')" "ino w i = Some x"
  shows "ino w' i = Some (x\<lparr>i_data := i_data x @ d\<rparr>)" "int (length d) = n"
proof -
  from assms(1) obtain fh w1 w2 where o: "os_open E (pf_prev p) w = (Inr fh, w1)"
    and c: "io_copy E i fh n w1 = (Inr d, w2)" "int (length d) = n" and rm: "os_remove E (pf_prev p) w2 = (None, w')"
    by (auto simp: copy_forward_def copy_prefix_def elim!: map_errE and_then_InrE split: if_splits prod.splits option.splits)
  have "ino w1 i = Some x" using assms(2) by (simp add: same_fs_ino [OF os_open_same [OF o]])
  from io_copy_Inr(1) [OF c(1) this] os_remove_ino [of E "pf_prev p" w2] rm
  show "ino w' i = Some (x\<lparr>i_data := i_data x @ d\<rparr>)" by simp
  show "int (length d) = n" by (fact c(2))
qed

lemma extend_copy_Inr:
  assumes "extend_copy E i p f n rest w = (Inr (d, got), w')" "ino w i = Some x"
  shows "ino w' i = Some (x\<lparr>i_data := i_data x @ d @ got\<rparr>)" "int (length d) = n"
proof -
  from close_after_Inr [OF assms(1) [unfolded extend_copy_def]] obtain w2 w1 where
    cf: "copy_forward E i p n w = (Inr d, w1)" and io: "io_copy E i rest (wrap64 (f_size f - n + 1)) w1 = (Inr got, w2)"
    and same: "same_fs w2 w'"
    by (auto elim!: and_then_InrE)
  note c = copy_forward_Inr [OF cf assms(2)]
  from io_copy_Inr(1) [OF io c(1)] show "ino w' i = Some (x\<lparr>i_data := i_data x @ d @ got\<rparr>)"
    by (simp add: same_fs_ino [OF same])
  show "int (length d) = n" by (fact c(2))
qed

lemma extend_copy_no_new: "no_new_links w (snd (extend_copy E i p f n rest w))"
proof -
  have "no_new_links w (snd (copy_forward E i p n w))"
    unfolding copy_forward_def copy_prefix_def
    by (intro links.map_err_step links.seq_step links.case_err_step links.if_step open_no_new io_copy_no_new
        os_remove_no_new links.done_step links.refl)
  then have "no_new_links w (snd (and_then (copy_forward E i p n w) (\<lambda>d w.
      and_then (io_copy E i rest (wrap64 (f_size f - n + 1)) w) (\<lambda>got w. (Inr (d, got), w)))))"
    by (intro links.seq_step io_copy_no_new links.done_step links.refl)
  then show ?thesis
    unfolding extend_copy_def by (rule links.trans) (rule names_no_new [OF same_fs_names [OF close_after_same]])
qed

lemma look_kept: "no_new_links w w' \<Longrightarrow> look w' p = Some n \<Longrightarrow> look w p = Some n"
  by (simp add: no_new_links_def)

lemma install_data:
  assumes "install E p dst mode w = (None, w')" shows "look w (pf_data p) \<noteq> None"
  using assms
  by (auto simp: install_def os_rename_def sys_def Let_def if_ok_def wrap_err_def split: if_splits option.splits prod.splits)

text \<open>A completed resume leaves the entry's bytes, the prefix's and the new ones.\<close>

lemma extend_None:
  assumes run: "extend E p f n rest dst mode w = (None, w')" and w: "wf w"
    and c: "pf_clear {} p dst" and ne: "pf_data p \<noteq> dst" "pf_info p \<noteq> dst"
  shows "holds E f mode dst w'"
proof -
  from run obtain w1 i w2 d got w3 where r: "os_rename E (pf_data p) (pf_prev p) w = (None, w1)"
    and cr: "os_create E (pf_data p) (mode OR 128) w1 = (Inr i, w2)"
    and ex: "extend_copy E i p f n rest w2 = (Inr (d, got), w3)"
    and ok: "check_staged f (n + int (length got)) (d @ got) = None"
    and ins: "install E p dst mode w3 = (None, w')"
    by (auto simp: extend_def create_data_def wrap_err_None elim!: if_ok_NoneE
        split: prod.splits sum.splits option.splits)
  have "wf w1" using rename_keep [of "{}" "pf_data p" "pf_prev p" w E] w r pf_clearD [OF c] by (simp add: safe_def)
  note cr' = os_create_Inr [OF cr this]
  note x = extend_copy_Inr [OF ex cr'(3)]
  have no: "no_new_links w2 w3" using extend_copy_no_new [of w2 E i p f n rest] ex by simp
  have l3: "look w3 (pf_data p) = Some (Reg i)"
    using install_data [OF ins] look_kept [OF no, of "pf_data p"] cr'(2) by force
  have o3: "only_name w3 i (pf_data p)" using cr'(1) no by (rule only_name_kept)
  from install_None [OF ins l3 o3 x(1) ne] obtain y where "look w' dst = Some (Reg i)" "only_name w' i dst"
    "ino w' i = Some y" "i_data y = d @ got" "goos (plat E) = ''windows'' \<or> i_mode y = mode" by auto
  with ok x(2) show ?thesis by (auto simp: holds_def check_staged_None)
qed

lemma fetch_whole_None:
  assumes run: "fetch_whole E get bucket key f p whole dst mode w = (None, w')" and w: "wf w"
    and c: "pf_clear {} p dst" and ne: "pf_data p \<noteq> dst" "pf_info p \<noteq> dst"
  shows "holds E f mode dst w'"
proof -
  from run obtain out w1 where o: "(case whole of Some out \<Rightarrow> (Inr out, w)
      | None \<Rightarrow> s3_call get (get_request bucket key) w) = (Inr out, w1)"
    by (auto simp: fetch_whole_def split: prod.splits sum.splits)
  have "same_fs w w1"
    using o s3_call_same [of get "get_request bucket key" w] by (auto simp: same.refl split: option.splits)
  then have w1: "wf w1" using w same_fs_safe by (auto simp: safe_def)
  show ?thesis
  proof (cases "to_string (go_etag out) = []")
    case True
    with run o have "write_verified E (go_body out) f dst mode w1 = (None, w')"
      by (simp add: fetch_whole_def wrap_err_None)
    then show ?thesis using w1 by (rule write_verified_None)
  next
    case False
    with run o obtain info w2 i w3 d w4 where wi: "write_info E p info w1 = (None, w2)"
      and cr: "os_create E (pf_data p) (mode OR 128) w2 = (Inr i, w3)"
      and cp: "close_after E i (io_copy E i (go_body out) (wrap64 (f_size f + 1)) w3) = (Inr d, w4)"
      and ok: "check_staged f (int (length d)) d = None" and ins: "install E p dst mode w4 = (None, w')"
      by (auto simp: fetch_whole_def create_data_def wrap_err_None elim!: if_ok_NoneE
          split: prod.splits sum.splits option.splits)
    have "wf w2" using write_info_keep [OF c, of w1 E info] w1 wi by (simp add: safe_def)
    note cr' = os_create_Inr [OF cr this]
    from close_after_Inr [OF cp] obtain w3' where io: "io_copy E i (go_body out) (wrap64 (f_size f + 1)) w3 = (Inr d, w3')"
      and same: "same_fs w3' w4" by blast
    have x: "ino w4 i = Some \<lparr>i_data = d, i_mode = (mode OR 128) AND NOT (umask E)\<rparr>"
      using io_copy_Inr(1) [OF io cr'(3)] by (simp add: same_fs_ino [OF same])
    have "same_names w3 w3'" using io_copy_names [of w3 E i "go_body out"] io by (metis snd_conv)
    then have n: "same_names w3 w4" using same_fs_names [OF same] by (rule names.trans)
    have l4: "look w4 (pf_data p) = Some (Reg i)" using n cr'(2) by (simp add: same_names_def)
    have o4: "only_name w4 i (pf_data p)" using cr'(1) only_name_names [OF n] by simp
    from install_None [OF ins l4 o4 x ne] obtain y where "look w' dst = Some (Reg i)" "only_name w' i dst"
      "ino w' i = Some y" "i_data y = d" "goos (plat E) = ''windows'' \<or> i_mode y = mode" by auto
    with ok show ?thesis by (auto simp: holds_def check_staged_None)
  qed
qed

lemma start_over_Inr:
  assumes "start_over E get bucket key f p whole dst mode w = (Inr b, w')" "wf w"
    and "pf_clear {} p dst" "pf_data p \<noteq> dst" "pf_info p \<noteq> dst"
  shows "holds E f mode dst w' \<and> \<not> b"
proof -
  from assms(1) obtain w1 where d: "discard E p w = (None, w1)"
    and f: "fetch_whole E get bucket key f p whole dst mode w1 = (None, w')" and "\<not> b"
    by (auto simp: start_over_def split: prod.splits option.splits)
  have "wf w1" using discard_keep [OF assms(3), of w E] assms(2) d by (simp add: safe_def)
  from fetch_whole_None [OF f this assms(3-5)] \<open>\<not> b\<close> show ?thesis by simp
qed

lemma continue_prefix_None:
  assumes "continue_prefix E get bucket key f p n info dst mode w = (Inr None, w')" "wf w"
    and "pf_clear {} p dst" "pf_data p \<noteq> dst" "pf_info p \<noteq> dst"
  shows "holds E f mode dst w'"
proof -
  from assms(1) obtain rest w1 where e: "extend E p f n rest dst mode w1 = (None, w')" and "same_fs w w1"
    by (auto simp: continue_prefix_def Let_def wrap_err_None same.refl
        split: if_splits prod.splits sum.splits option.splits dest!: s3_call_same)
  then have "wf w1" using assms(2) same_fs_safe by (auto simp: safe_def)
  from extend_None [OF e this assms(3-5)] show ?thesis .
qed

text \<open>
  Whatever prefix was kept and whatever the server answered, a resumable download that
  succeeds leaves the entry's bytes at \<open>dst\<close>.
\<close>

lemma download_resumable_Inr:
  assumes run: "download_resumable E get bucket pre tmp f dst mode w = (Inr b, w')" and w: "wf w"
    and tmp: "plain_comps tmp" "plain_comp (f_sha256 f)" and dst: "prefix tmp dst" "plain_comp (last dst)"
    and out: "\<not> prefix (tmp @ [resume_dir]) dst"
  shows "holds E f mode dst w'"
proof -
  let ?p = "prefix_files_in tmp (f_sha256 f)" and ?key = "path_join pre (f_path f)"
  have apart: "apart {} tmp" by (simp add: apart_def)
  have c: "pf_clear {} ?p dst" by (rule prefix_files_clear [OF apart tmp(2) dst])
  have ne: "pf_data ?p \<noteq> dst" "pf_info ?p \<noteq> dst"
    using out by (auto simp: prefix_files_in_def)
  have wf_keep: "wf w1 \<Longrightarrow> safe {} w1 w2 \<Longrightarrow> wf w2" for w1 w2 :: "'a world"
    by (simp add: safe_def)
  show ?thesis
  proof (cases "resume_or_fetch E get bucket pre tmp f dst mode w")
    case (Pair r w1)
    have w1: "wf w1"
      using wf_keep [OF w resume_or_fetch_keep [OF apart tmp(2) dst tmp(1), of w E get bucket pre mode]] Pair by simp
    show ?thesis
    proof (cases r)
      case (Inl e)
      with run Pair have "download_whole E get bucket pre f dst mode w1 = (None, w')"
        by (auto simp: download_resumable_def split: if_splits prod.splits option.splits)
      then obtain out w2 where "s3_call get (get_request bucket ?key) w1 = (Inr out, w2)"
        "write_verified E (go_body out) f dst mode w2 = (None, w')"
        by (auto simp: download_whole_def Let_def wrap_err_None split: prod.splits sum.splits)
      with wf_keep [OF w1 same_fs_safe [OF s3_call_same]] show ?thesis
        using write_verified_None(1) by metis
    next
      case (Inr b')
      with run Pair have "resume_or_fetch E get bucket pre tmp f dst mode w = (Inr b', w')"
        by (simp add: download_resumable_def)
      then obtain w2 x w3 where mk: "os_mkdir_all E (parent (pf_data ?p)) w = (None, w2)"
        and ld: "load_prefix E ?p f w2 = (x, w3)"
        and rest: "(case (x, w3) of (None, w) \<Rightarrow> start_over E get bucket ?key f ?p None dst mode w
              | (Some (n, info), w) \<Rightarrow>
                  (case continue_prefix E get bucket ?key f ?p n info dst mode w of
                     (Inl e, w) \<Rightarrow>
                       if is_discard e then start_over E get bucket ?key f ?p None dst mode w else (Inl e, w)
                   | (Inr None, w) \<Rightarrow> (Inr True, w)
                   | (Inr (Some out), w) \<Rightarrow> start_over E get bucket ?key f ?p (Some out) dst mode w)) = (Inr b', w')"
        by (auto simp: resume_or_fetch_def Let_def split: prod.splits option.splits)
      have "wf w2"
        using os_mkdir_all_safe [OF mk, of "{}"] tmp(1) w resume_dir_plain
        by (simp add: safe_def prefix_files_in_def parent_def butlast_append)
      then have w3: "wf w3" using load_prefix_keep [OF c, of w2 E f] ld by (simp add: safe_def)
      show ?thesis
      proof (cases x)
        case None
        with rest start_over_Inr [OF _ w3 c ne] show ?thesis by auto
      next
        case (Some y)
        obtain n info where y: "y = (n, info)" by (cases y)
        obtain q w4 where q: "continue_prefix E get bucket ?key f ?p n info dst mode w3 = (q, w4)" by fastforce
        have w4: "wf w4" using continue_prefix_keep [OF c, of w3 E get bucket ?key f n info mode] w3 q by (simp add: safe_def)
        show ?thesis
          using rest Some y q continue_prefix_None [OF _ w3 c ne] start_over_Inr [OF _ w4 c ne]
          by (auto split: sum.splits option.splits if_splits)
      qed
    qed
  qed
qed

end
