(* ===== verification/PullRecover.thy ===== *)
theory PullRecover
  imports PullResume
begin

text \<open>
  \<open>pkg/pull/recover.go\<close> and \<open>soleName\<close> of \<open>link_unix.go\<close>, \<open>link_windows.go\<close> and
  \<open>link_other.go\<close>: what happens before any sync. An interrupted swap is finished or rolled
  back; a leftover staging tree becomes the partial tree, without any file that has another
  name. The lemmas show that the live tree survives as it is, or comes back from the old
  tree, and that no kept file has a second name.
\<close>

section \<open>Names of a file\<close>

definition unix_goos :: "string list" where
  "unix_goos = [''aix'', ''android'', ''darwin'', ''dragonfly'', ''freebsd'', ''illumos'', ''ios'', ''linux'',
     ''netbsd'', ''openbsd'', ''solaris'']"

definition sole_name :: "os_env \<Rightarrow> fpath \<Rightarrow> 's world \<Rightarrow> bool res \<times> 's world" where
  "sole_name E p w =
     (if goos (plat E) \<notin> set unix_goos \<and> goos (plat E) \<noteq> ''windows''
      then (Inl (E_os EUNSUPPORTED), w)
      else (let (f, w) = sys E (SysLinks p) w
            in if f then (Inl (E_os EIO), w)
               else (case look w p of
                       None \<Rightarrow> (Inl (E_os ENOENT), w)
                     | Some (Reg i) \<Rightarrow> (Inr (nlink w i = 1), w)
                     | Some Dir \<Rightarrow> (Inr False, w)
                     | Some (Special t) \<Rightarrow> (Inr True, w))))"

definition drop_walk :: "os_env \<Rightarrow> (unit, 's) walk_fn" where
  "drop_walk E p d err a w =
     (case (err, d) of
        (Some e, _) \<Rightarrow> (WErr e, w)
      | (None, Some Dir) \<Rightarrow> (WOk (), w)
      | (None, _) \<Rightarrow>
          (case sole_name E p w of
             (r, w) \<Rightarrow>
               if r = Inr True then (WOk (), w)
               else (case os_remove E p w of (Some e, w) \<Rightarrow> (WErr e, w) | (None, w) \<Rightarrow> (WOk (), w))))"

definition drop_shared :: "os_env \<Rightarrow> fpath \<Rightarrow> 's world \<Rightarrow> gerr option \<times> 's world" where
  "drop_shared E root w =
     (case walk_dir E (drop_walk E) root () w of (Inl e, w) \<Rightarrow> (Some e, w) | (Inr _, w) \<Rightarrow> (None, w))"

section \<open>Keeping a staging tree\<close>

fun stash_list :: "os_env \<Rightarrow> fpath \<Rightarrow> fpath \<Rightarrow> string list \<Rightarrow> 's world \<Rightarrow> 's world" where
  "stash_list E frm to [] w = w"
| "stash_list E frm to (n # ns) w =
     (if exists w (to @ [n]) then stash_list E frm to ns w
      else stash_list E frm to ns (snd (os_rename E (frm @ [n]) (to @ [n]) w)))"

definition stash_prefixes :: "os_env \<Rightarrow> fpath \<Rightarrow> fpath \<Rightarrow> 's world \<Rightarrow> 's world" where
  "stash_prefixes E tmp partial w =
     (let frm = tmp @ [resume_dir]; to = partial @ [resume_dir]
      in case os_read_dir E frm w of
           (Inl e, w) \<Rightarrow> w
         | (Inr names, w) \<Rightarrow>
             if names = [] then w
             else (case os_mkdir_all E to w of
                     (Some e, w) \<Rightarrow> w
                   | (None, w) \<Rightarrow> stash_list E frm to names w))"

definition remove_stale :: "os_env \<Rightarrow> fpath \<Rightarrow> 's world \<Rightarrow> gerr option \<times> 's world" where
  "remove_stale E p w = wrap_err (\<lambda>e. E_wrap ''pull: removing stale %s: %w'' [] [e]) (os_remove_all E p w)"

definition keep_staged :: "os_env \<Rightarrow> fpath \<Rightarrow> fpath \<Rightarrow> 's world \<Rightarrow> gerr option \<times> 's world" where
  "keep_staged E tmp partial w =
     (if \<not> exists w tmp then (None, w)
      else (case drop_shared E tmp w of
              (Some e, w) \<Rightarrow> remove_stale E tmp w
            | (None, w) \<Rightarrow>
                if \<not> exists w partial
                then (case os_rename E tmp partial w of
                        (None, w) \<Rightarrow> (None, w)
                      | (Some e, w) \<Rightarrow> remove_stale E tmp (stash_prefixes E tmp partial w))
                else remove_stale E tmp (stash_prefixes E tmp partial w)))"

definition unshare_partial :: "os_env \<Rightarrow> fpath \<Rightarrow> 's world \<Rightarrow> gerr option \<times> 's world" where
  "unshare_partial E partial w =
     (if \<not> exists w partial then (None, w)
      else (case drop_shared E partial w of
              (None, w) \<Rightarrow> (None, w)
            | (Some e, w) \<Rightarrow>
                wrap_err (\<lambda>e. E_wrap ''pull: removing %s, which may share live files: %w'' [] [e])
                  (os_remove_all E partial w)))"

section \<open>Recovery\<close>

definition restore_old :: "os_env \<Rightarrow> fpath \<Rightarrow> fpath \<Rightarrow> 's world \<Rightarrow> gerr option \<times> 's world" where
  "restore_old E dest old w =
     (if \<not> exists w old then (None, w)
      else if exists w dest then remove_stale E old w
      else wrap_err (\<lambda>e. E_wrap ''pull: restoring %s from %s: %w'' [] [e]) (os_rename E old dest w))"

definition recover_interrupted ::
  "os_env \<Rightarrow> fpath \<Rightarrow> fpath \<Rightarrow> fpath \<Rightarrow> fpath \<Rightarrow> 's world \<Rightarrow> gerr option \<times> 's world" where
  "recover_interrupted E dest tmp old partial w =
     (case restore_old E dest old w of
        (old_err, w) \<Rightarrow>
          (case keep_staged E tmp partial w of
             (err, w) \<Rightarrow>
               (case unshare_partial E partial w of
                  (unshare_err, w) \<Rightarrow> (errors_join [old_err, err, unshare_err], w))))"

definition tmp_suffix :: string where "tmp_suffix = ''.pinsync-tmp''"
definition old_suffix :: string where "old_suffix = ''.pinsync-old''"
definition partial_suffix :: string where "partial_suffix = ''.pinsync-partial''"

text \<open>\<open>Recover\<close>, on a cleaned absolute destination.\<close>

definition recover :: "os_env \<Rightarrow> fpath \<Rightarrow> 's world \<Rightarrow> gerr option \<times> 's world" where
  "recover E dest w =
     (case sys E SysCtx w of
        (True, w) \<Rightarrow> (Some (E_new ''context canceled'' []), w)
      | (False, w) \<Rightarrow>
          recover_interrupted E dest (sibling dest tmp_suffix) (sibling dest old_suffix) (sibling dest partial_suffix) w)"

section \<open>What stays as it is\<close>

lemma sole_name_same: "sole_name E p w = (r, w') \<Longrightarrow> same_fs w w'"
  by (auto simp: sole_name_def sys_def Let_def same_fs_def split: if_splits option.splits node.splits)

lemma drop_walk_keep: "clear S p \<Longrightarrow> safe S w (snd (drop_walk E p d err a w))"
proof -
  assume c: "clear S p"
  obtain r w1 where s: "sole_name E p w = (r, w1)" by fastforce
  have s1: "safe S w w1" using sole_name_same [OF s] by (rule same_fs_safe)
  obtain e w2 where rm: "os_remove E p w1 = (e, w2)" by fastforce
  have s2: "safe S w1 w2" using remove_keep [OF c, of w1 E] rm by simp
  from keep.trans [OF s1 s2] s1 show ?thesis
    using s rm by (auto simp: drop_walk_def keep.refl split: option.splits node.splits)
qed

lemma drop_shared_keep:
  assumes "clear S root"
  shows "safe S w (snd (drop_shared E root w))"
proof -
  obtain r w1 where wd: "walk_dir E (drop_walk E) root () w = (r, w1)" by fastforce
  have "safe S w w1"
  proof (rule keep.walk_dir_step [OF _ wd])
    fix p n err a w c w' assume p: "prefix root p" "drop_walk E p n err a w = (c, w')"
    show "safe S w w'" using drop_walk_keep [OF clear_below [OF assms p(1)], of w E n err a] p(2) by simp
  qed
  with wd show ?thesis by (auto simp: drop_shared_def split: sum.splits)
qed

lemma stash_list_keep:
  assumes "clear S frm" "clear S to" "list_all plain_comp ns"
  shows "safe S w (stash_list E frm to ns w)"
  using assms(3)
proof (induction ns arbitrary: w)
  case Nil
  then show ?case by (simp add: keep.refl)
next
  case (Cons n ns)
  have "safe S w (snd (os_rename E (frm @ [n]) (to @ [n]) w))"
    using assms Cons.prems by (intro rename_keep) auto
  with Cons keep.trans [OF this] show ?case by auto
qed

lemma os_read_dir_plain:
  assumes "os_read_dir E p w = (Inr names, w')" "wf w"
  shows "list_all plain_comp names"
proof -
  have "plain_comp (last q)" if "(q, n) \<in> set (w_names w)" "q \<noteq> []" for q n
    using key_look [OF that(1)] wf_last [OF assms(2) _ that(2)] by blast
  with assms(1) show ?thesis
    by (auto simp: os_read_dir_def sys_def Let_def list_all_iff split: if_splits)
qed

lemma stash_prefixes_keep:
  assumes "apart S tmp" "apart S partial" "plain_comps partial"
  shows "safe S w (stash_prefixes E tmp partial w)"
proof (cases "wf w")
  case True
  let ?frm = "tmp @ [resume_dir]" and ?to = "partial @ [resume_dir]"
  obtain r w1 where rd: "os_read_dir E ?frm w = (r, w1)" by fastforce
  have s1: "safe S w w1" using os_read_dir_same [OF rd] by (rule same_fs_safe)
  obtain e w2 where mk: "os_mkdir_all E ?to w1 = (e, w2)" by fastforce
  have "safe S w1 w2"
  proof -
    have "safe S w1 (snd (os_mkdir_all E ?to w1))"
    proof (rule mkdir_all_keep)
      show "q \<notin> S" if "prefix q ?to" for q
        using that by (rule apart_above [OF assms(2), rotated]) simp
    qed (simp add: assms(3) resume_dir_plain)
    with mk show ?thesis by simp
  qed
  with s1 have s2: "safe S w w2" by (rule keep.trans)
  have "safe S w2 (stash_list E ?frm ?to names w2)" if "r = Inr names" for names
    using os_read_dir_plain [OF rd [unfolded that] True] apart_clear [OF assms(1)] apart_clear [OF assms(2)]
    by (intro stash_list_keep) auto
  with s1 s2 keep.trans [OF s2] rd mk show ?thesis
    by (auto simp: stash_prefixes_def Let_def split: sum.splits option.splits)
qed (simp add: safe_def)

lemma remove_stale_keep: "clear S p \<Longrightarrow> safe S w (snd (remove_stale E p w))"
  unfolding remove_stale_def by (intro keep.wrap_step remove_all_keep)

text \<open>Neither keeping nor clearing the sibling trees touches what lies apart from them.\<close>

lemma keep_staged_keep:
  assumes "apart S tmp" "apart S partial" "plain_comps partial" "partial \<noteq> []"
  shows "safe S w (snd (keep_staged E tmp partial w))"
proof -
  note c = apart_clear [OF assms(1) prefix_order.refl] apart_clear [OF assms(2) prefix_order.refl]
  have stash: "safe S w (snd (remove_stale E tmp (stash_prefixes E tmp partial w)))" for w
    using stash_prefixes_keep [OF assms(1-3)] remove_stale_keep [OF c(1)] by (rule keep.trans)
  have "plain_comp (last partial)" using assms(3,4) by (auto simp: list_all_iff)
  then show ?thesis
    unfolding keep_staged_def
    by (intro keep.if_step keep.case_err_step drop_shared_keep c remove_stale_keep rename_keep keep.done_step keep.refl stash)
      (auto intro!: keep.pair_step keep.option_step keep.if_step drop_shared_keep c remove_stale_keep stash rename_keep keep.refl)
qed

lemma unshare_partial_keep:
  assumes "clear S partial"
  shows "safe S w (snd (unshare_partial E partial w))"
proof -
  obtain e w1 where d: "drop_shared E partial w = (e, w1)" by fastforce
  then have "safe S w w1" using drop_shared_keep [OF assms, of w E] by simp
  with d keep.trans [OF this remove_all_keep [OF assms]] show ?thesis
    by (auto simp: unshare_partial_def keep.refl split: option.splits)
qed

section \<open>No second names\<close>

lemma nlink_sole:
  assumes "look w p = Some (Reg i)" "nlink w i = 1"
  shows "only_name w i p"
proof -
  let ?xs = "[p \<leftarrow> remdups (map fst (w_names w)). look w p = Some (Reg i)]"
  have "q \<in> set ?xs" if "look w q = Some (Reg i)" for q
    using that look_Some_key [of w q] by force
  moreover from assms(2) obtain y where "?xs = [y]" by (auto simp: nlink_def length_Suc_conv)
  ultimately have y: "q = y" if "look w q = Some (Reg i)" for q using that by (metis empty_iff empty_set set_ConsD)
  from y [OF assms(1)] y show ?thesis by (simp add: only_name_def)
qed

definition no_shared :: "(fpath \<Rightarrow> bool) \<Rightarrow> 's world \<Rightarrow> bool" where
  "no_shared P w \<longleftrightarrow> (\<forall>p. P p \<longrightarrow> sole w p)"

lemma sole_kept: "sole w p \<Longrightarrow> no_new_links w w' \<Longrightarrow> sole w' p"
  unfolding sole_def by (meson look_kept only_name_kept)

lemma sole_name_True:
  assumes "sole_name E p w = (Inr True, w')"
  shows "sole w p"
proof (cases "look w p")
  case (Some n)
  show ?thesis
  proof (cases n)
    case (Reg i)
    with assms Some have "nlink (w\<lparr>w_tick := Suc (w_tick w)\<rparr>) i = 1"
      by (auto simp: sole_name_def sys_def Let_def split: if_splits)
    then have "nlink w i = 1" by (simp add: nlink_def look_def cong: if_cong)
    with nlink_sole Some Reg show ?thesis by (simp add: sole_def)
  qed (simp_all add: sole_def Some)
qed (simp add: sole_def)

lemma drop_walk_step:
  assumes run: "drop_walk E p (Some n) None a w = (c, w')" and l: "look w p = None \<or> look w p = Some n"
  shows "no_new_links w w' \<and> (c = WOk () \<and> sole w' p \<or> (\<exists>e. c = WErr e))"
proof (cases "n = Dir")
  case True
  then show ?thesis using run l by (auto simp: drop_walk_def links.refl sole_def)
next
  case False
  obtain r w1 where s: "sole_name E p w = (r, w1)" by fastforce
  have no1: "no_new_links w w1" by (rule names_no_new [OF same_fs_names [OF sole_name_same [OF s]]])
  show ?thesis
  proof (cases "r = Inr True")
    case True
    with s have "sole w p" using sole_name_True by blast
    with sole_kept [OF this no1] no1 run s True False show ?thesis
      by (auto simp: drop_walk_def split: node.splits)
  next
    case r: False
    obtain e w2 where rm: "os_remove E p w1 = (e, w2)" by fastforce
    have no2: "no_new_links w1 w2" using os_remove_no_new [of w1 E p] rm by simp
    have "look w2 p = None" if "e = None"
      using rm that by (auto simp: os_remove_def sys_def Let_def split: if_splits)
    with links.trans [OF no1 no2] run s rm r False show ?thesis
      by (auto simp: drop_walk_def sole_def split: option.splits node.splits)
  qed
qed

lemma drop_shared_None:
  assumes "drop_shared E root w = (None, w')"
  shows "no_new_links w w'" "prefix root p \<Longrightarrow> sole w' p"
proof -
  let ?ys = "entries_under w root"
  define I :: "(fpath \<times> node) list \<Rightarrow> unit \<Rightarrow> 'a world \<Rightarrow> bool" where
    "I = (\<lambda>ys _ w1. no_new_links w w1 \<and> (\<forall>x \<in> set ys. sole w1 (fst x)))"
  have root: "look w root \<noteq> None" using assms by (auto simp: drop_shared_def walk_dir_def drop_walk_def split: if_splits)
  have "case walk_entries E (drop_walk E) ?ys () w of (Inr a', w') \<Rightarrow> I ?ys a' w' | (Inl e, w') \<Rightarrow> True"
  proof (rule walk_entries_rule)
    show "I [] () w" by (simp add: I_def links.refl)
  next
    fix ys p n and w1 :: "'a world" and a :: unit
    assume I: "I ys a w1" and p: "(p, n) \<in> set ?ys"
    have "look w1 p = None \<or> look w1 p = Some n"
      using I p look_kept [of w w1 p] by (cases "look w1 p") (auto simp: I_def set_entries_under)
    moreover obtain c w2 where "drop_walk E p (Some n) None a w1 = (c, w2)" by fastforce
    ultimately show "case drop_walk E p (Some n) None a w1 of
        (WOk a1, w1) \<Rightarrow> I (ys @ [(p, n)]) a1 w1 | (WErr e, w1) \<Rightarrow> True | _ \<Rightarrow> False"
      using drop_walk_step [of E p n a w1 c w2] I sole_kept links.trans by (fastforce simp: I_def)
  next
    fix ys p and w1 :: "'a world" and a :: unit
    assume "I ys a w1"
    then show "case sys E (SysReadDir p) w1 of (False, w1) \<Rightarrow> I ys a w1
       | (True, w1) \<Rightarrow> (case drop_walk E p (Some Dir) (Some (E_os EIO)) a w1 of (WErr e, w2) \<Rightarrow> True | _ \<Rightarrow> False)"
      by (auto simp: sys_def drop_walk_def I_def sole_def only_name_def no_new_links_def split: bool.splits)
  qed
  then have I: "I ?ys () w'" using assms root
    by (auto simp: drop_shared_def walk_dir_def split: prod.splits sum.splits)
  show "no_new_links w w'" using I by (simp add: I_def)
  show "sole w' p" if "prefix root p"
  proof (cases "look w' p")
    case (Some n)
    with I have "look w p = Some n" by (simp add: I_def no_new_links_def)
    with that root have "(p, n) \<in> set ?ys" by (simp add: set_entries_under)
    with I show ?thesis by (force simp: I_def)
  qed (simp add: sole_def)
qed

section \<open>Clearing\<close>

lemma remove_list_None:
  assumes "remove_list E ps err w = (None, w')"
  shows "err = None \<and> (\<forall>p \<in> set ps. look w' p = None) \<and> no_new_links w w'"
  using assms
proof (induction ps arbitrary: err w)
  case Nil
  then show ?case by (simp add: links.refl)
next
  case (Cons p ps)
  obtain e w1 where rm: "os_remove E p w = (e, w1)" by fastforce
  have no: "no_new_links w w1" using os_remove_no_new [of w E p] rm by simp
  have e: "e = None"
    using Cons.IH [of "if err = None then e else err" w1] Cons.prems rm by (cases e; cases err) auto
  then have n: "look w1 p = None" using rm by (auto simp: os_remove_def sys_def Let_def split: if_splits)
  have ih: "err = None \<and> (\<forall>p \<in> set ps. look w' p = None) \<and> no_new_links w1 w'"
    using Cons rm e by auto
  then have "look w' p = None" using n look_kept [of w1 w' p] by (cases "look w' p") auto
  with ih links.trans [OF no] show ?case by auto
qed

lemma os_remove_all_None:
  assumes "os_remove_all E p w = (None, w')"
  shows "no_new_links w w'" "prefix p q \<Longrightarrow> look w' q = None \<or> look w p = None"
proof -
  note r = remove_list_None [OF assms [unfolded os_remove_all_def]]
  then show "no_new_links w w'" by blast
  show "look w' q = None \<or> look w p = None" if "prefix p q"
  proof (cases "look w' q")
    case (Some n)
    with r have "look w q = Some n" by (simp add: no_new_links_def)
    with r that Some show ?thesis by (cases "look w p") (auto simp: set_paths_under)
  qed simp
qed

lemma remove_stale_None:
  assumes "remove_stale E p w = (None, w')"
  shows "look w' p = None" "no_new_links w w'"
proof -
  have r: "os_remove_all E p w = (None, w')" using assms by (simp add: remove_stale_def wrap_err_None)
  show no: "no_new_links w w'" using os_remove_all_None(1) [OF r] .
  show "look w' p = None" using os_remove_all_None(2) [OF r, of p] look_kept [OF no, of p] by (cases "look w' p") auto
qed

section \<open>The layout\<close>

text \<open>The destination and its three siblings: four names in one directory.\<close>

definition layout :: "fpath \<Rightarrow> fpath \<Rightarrow> fpath \<Rightarrow> fpath \<Rightarrow> bool" where
  "layout dest tmp old partial \<longleftrightarrow>
     distinct [dest, tmp, old, partial] \<and>
     (\<forall>p \<in> {dest, tmp, old, partial}. p \<noteq> [] \<and> length p = length dest \<and> plain_comps p \<and> butlast p = butlast dest)"

lemma suffix_plain: "plain_comps d \<Longrightarrow> d \<noteq> [] \<Longrightarrow> plain_comp (last d)"
  by (auto simp: list_all_iff)

lemma layout_siblings:
  assumes "dest \<noteq> []" "plain_comps dest"
  shows "layout dest (sibling dest tmp_suffix) (sibling dest old_suffix) (sibling dest partial_suffix)"
proof -
  have "plain_comps (butlast dest)" using assms(2) by (auto simp: list_all_iff dest: in_set_butlastD)
  moreover have "plain_comp (last dest @ s)" if "s \<in> {tmp_suffix, old_suffix, partial_suffix}" for s
    using suffix_plain [OF assms(2,1)] that
    by (auto simp: tmp_suffix_def old_suffix_def partial_suffix_def intro!: plain_suffix)
  ultimately have "plain_comps (sibling dest s)" if "s \<in> {tmp_suffix, old_suffix, partial_suffix}" for s
    using that by (simp add: sibling_def)
  then have pl: "plain_comps (sibling dest tmp_suffix)" "plain_comps (sibling dest old_suffix)"
      "plain_comps (sibling dest partial_suffix)" by blast+
  have sx: "tmp_suffix \<noteq> old_suffix" "tmp_suffix \<noteq> partial_suffix" "old_suffix \<noteq> partial_suffix"
      "tmp_suffix \<noteq> []" "old_suffix \<noteq> []" "partial_suffix \<noteq> []"
    by (simp_all add: tmp_suffix_def old_suffix_def partial_suffix_def)
  have d: "distinct [dest, sibling dest tmp_suffix, sibling dest old_suffix, sibling dest partial_suffix]"
    using sx by (simp add: sibling_inj sibling_neq [OF assms(1)] sibling_neq [OF assms(1), symmetric])
  have "p \<noteq> [] \<and> length p = length dest \<and> butlast p = butlast dest"
    if "p = dest \<or> (\<exists>s. p = sibling dest s)" for p
    using that assms(1) by (auto simp: length_sibling) (simp_all add: sibling_def)
  with d pl assms(2) show ?thesis unfolding layout_def by blast
qed

lemma layout_apart:
  assumes "layout dest tmp old partial" "a \<in> {dest, tmp, old, partial}" "b \<in> {dest, tmp, old, partial}" "a \<noteq> b"
  shows "apart (below a) b" "clear (below a) b" "\<not> prefix a b"
proof -
  have l: "length b = length a" using assms by (auto simp: layout_def)
  show "apart (below a) b" using l assms(4) by (intro apart_sibling) auto
  then show "clear (below a) b" by (rule apart_clear) simp
  show "\<not> prefix a b" using prefix_same_length [of a b b] l assms(4) by auto
qed

section \<open>Recovery keeps or restores the live tree\<close>

lemma keep_staged_gone:
  assumes "keep_staged E tmp partial w = (None, w')" "tmp \<noteq> partial"
  shows "look w' tmp = None"
proof (cases "exists w tmp")
  case True
  obtain e w1 where d: "drop_shared E tmp w = (e, w1)" by fastforce
  show ?thesis
  proof (cases "e = None \<and> \<not> exists w1 partial")
    case True
    obtain e2 w2 where r: "os_rename E tmp partial w1 = (e2, w2)" by fastforce
    show ?thesis
    proof (cases e2)
      case None
      with r True os_rename_moves(2) [of E tmp partial w1 w2] assms(2) have "look w2 tmp = None"
        by (auto simp: exists_def)
      with assms(1) d r True None \<open>exists w tmp\<close> show ?thesis by (simp add: keep_staged_def)
    next
      case (Some x)
      with assms(1) d r True \<open>exists w tmp\<close> show ?thesis by (auto simp: keep_staged_def dest: remove_stale_None)
    qed
  next
    case False
    with assms(1) d \<open>exists w tmp\<close> show ?thesis
      by (auto simp: keep_staged_def split: option.splits dest: remove_stale_None)
  qed
qed (use assms in \<open>auto simp: keep_staged_def exists_def\<close>)

lemma unshare_partial_None:
  assumes "unshare_partial E partial w = (None, w')" "wf w" "prefix partial p"
  shows "sole w' p"
proof (cases "exists w partial")
  case True
  obtain e w1 where d: "drop_shared E partial w = (e, w1)" by fastforce
  show ?thesis
  proof (cases e)
    case None
    with assms(1) d True have "drop_shared E partial w = (None, w')" by (simp add: unshare_partial_def)
    then show ?thesis using assms(3) by (rule drop_shared_None)
  next
    case (Some x)
    with assms(1) d True have r: "os_remove_all E partial w1 = (None, w')"
      by (simp add: unshare_partial_def wrap_err_None)
    have w1: "wf w1" using drop_shared_keep [of "{}" partial w E] d assms(2) by (simp add: safe_def clear_def)
    have "look w' p = None"
    proof (cases "look w1 partial")
      case None
      then have "look w1 p = None" using wf_below_None [OF w1, of partial] assms(3) by (auto simp: prefix_def) (metis append_Nil2 option.distinct(1))
      then show ?thesis using look_kept [OF os_remove_all_None(1) [OF r], of p] by (cases "look w' p") auto
    next
      case (Some n)
      then show ?thesis using os_remove_all_None(2) [OF r assms(3)] by simp
    qed
    then show ?thesis by (simp add: sole_def)
  qed
next
  case False
  then have "look w partial = None" by (simp add: exists_def)
  then have "look w p = None"
    using wf_below_None [OF assms(2), of partial] assms(3) by (auto simp: prefix_def) (metis append_Nil2 option.distinct(1))
  with False assms(1) show ?thesis by (simp add: unshare_partial_def sole_def)
qed

lemma restore_old_cases:
  assumes "restore_old E dest old w = (r, w')" "wf w" "layout dest tmp old partial"
  shows "safe (below partial \<union> below tmp) w w'"
    "exists w dest \<Longrightarrow> safe (below dest) w w' \<and> (r = None \<longrightarrow> look w' old = None)"
    "\<not> exists w dest \<Longrightarrow> exists w old \<Longrightarrow>
       (r = None \<and> tree_at w' dest = tree_at w old \<and> look w' old = None) \<or> (r \<noteq> None \<and> same_fs w w')"
    "\<not> exists w old \<Longrightarrow> w' = w"
proof -
  note ap = layout_apart [OF assms(3)]
  have c: "clear (below partial \<union> below tmp) old" "clear (below partial \<union> below tmp) dest" "clear (below dest) old"
    using ap(2) [of partial old] ap(2) [of tmp old] ap(2) [of partial dest] ap(2) [of tmp dest] ap(2) [of dest old] assms(3)
    by (auto simp: clear_def layout_def)
  have pl: "plain_comp (last dest)" using assms(3) suffix_plain by (auto simp: layout_def)
  have ne: "old \<noteq> dest" using assms(3) by (auto simp: layout_def)
  show "safe (below partial \<union> below tmp) w w'"
  proof -
    have "safe (below partial \<union> below tmp) w (snd (restore_old E dest old w))"
      unfolding restore_old_def
      by (intro keep.if_step keep.wrap_step remove_stale_keep rename_keep c pl keep.done_step keep.refl)
    with assms(1) show ?thesis by simp
  qed
  show "safe (below dest) w w' \<and> (r = None \<longrightarrow> look w' old = None)" if "exists w dest"
    using assms(1) that remove_stale_keep [OF c(3), of w E]
    by (auto simp: restore_old_def keep.refl exists_def dest: remove_stale_None split: if_splits)
  show "(r = None \<and> tree_at w' dest = tree_at w old \<and> look w' old = None) \<or> (r \<noteq> None \<and> same_fs w w')"
    if d: "\<not> exists w dest" and o: "exists w old"
  proof (cases "fst (os_rename E old dest w)")
    case None
    then have mv: "os_rename E old dest w = (None, snd (os_rename E old dest w))" by (metis prod.collapse)
    have "w' = snd (os_rename E old dest w)" "r = None" using assms(1) d o mv by (auto simp: restore_old_def wrap_err_def None)
    with os_rename_moves(1,2) [OF mv _ ne] d show ?thesis by (simp add: exists_def)
  next
    case (Some e)
    then have mv: "os_rename E old dest w = (Some e, snd (os_rename E old dest w))" by (metis prod.collapse)
    with os_rename_fails [OF mv] assms(1) d o show ?thesis
      by (auto simp: restore_old_def wrap_err_def same_fs_def)
  qed
  show "w' = w" if "\<not> exists w old" using assms(1) that by (simp add: restore_old_def)
qed


section \<open>The live tree\<close>

text \<open>What the program holds to be the live tree: the destination's or, when a swap was cut off
  between its renames, the old tree that the next recovery puts back.\<close>

definition live_tree :: "'s world \<Rightarrow> fpath \<Rightarrow> fpath \<Rightarrow> fpath \<Rightarrow> entry option" where
  "live_tree w dest old = (if exists w dest then tree_at w dest else tree_at w old)"

lemma live_tree_safe:
  assumes "safe (below dest \<union> below old) w w'" "wf w"
  shows "live_tree w' dest old = live_tree w dest old"
proof -
  have "look w' dest = look w dest" using assms by (simp add: safe_def frozen_def)
  then show ?thesis
    using safe_tree_at [OF assms, of dest] safe_tree_at [OF assms, of old]
    by (auto simp: live_tree_def exists_def)
qed

lemma safe_sub: "safe S w w' \<Longrightarrow> T \<subseteq> S \<Longrightarrow> safe T w w'"
  by (auto simp: safe_def frozen_def)

lemma safe_gone: "safe S w w' \<Longrightarrow> wf w \<Longrightarrow> p \<in> S \<Longrightarrow> look w' p = look w p"
  by (simp add: safe_def frozen_def)

lemma safe_wf: "safe S w w' \<Longrightarrow> wf w \<Longrightarrow> wf w'"
  by (simp add: safe_def)

lemma layout_parts:
  assumes "layout dest tmp old partial"
  shows "plain_comps dest" "plain_comps tmp" "plain_comps old" "plain_comps partial"
    "dest \<noteq> []" "tmp \<noteq> []" "old \<noteq> []" "partial \<noteq> []" "tmp \<noteq> partial" "dest \<noteq> old" "tmp \<noteq> dest" "tmp \<noteq> old"
    "parent old = parent dest" "parent tmp = parent dest" "parent partial = parent dest"
  using assms by (auto simp: layout_def parent_def)

lemma layout_keeps:
  assumes "layout dest tmp old partial"
  shows "apart (below dest \<union> below old) tmp" "apart (below dest \<union> below old) partial"
    "clear (below dest \<union> below old) tmp" "clear (below dest \<union> below old) partial"
    "clear (below dest \<union> below old \<union> below tmp) partial"
proof -
  note p = layout_parts [OF assms] and a = layout_apart [OF assms]
  show 1: "apart (below dest \<union> below old) tmp" "apart (below dest \<union> below old) partial"
    using assms a(1) [of dest tmp] a(1) [of old tmp] a(1) [of dest partial] a(1) [of old partial]
    by (auto simp: apart_Un layout_def)
  show "clear (below dest \<union> below old) tmp" "clear (below dest \<union> below old) partial"
    using 1 by (auto intro: apart_clear)
  have "apart (below dest \<union> below old \<union> below tmp) partial"
    using 1 assms a(1) [of tmp partial] by (auto simp: apart_Un layout_def)
  then show "clear (below dest \<union> below old \<union> below tmp) partial" by (rule apart_clear) simp
qed

lemma restore_old_live:
  assumes "restore_old E dest old w = (r, w')" "wf w" "layout dest tmp old partial"
  shows "live_tree w' dest old = live_tree w dest old" "wf w'" "r = None \<Longrightarrow> look w' old = None"
proof -
  note c = restore_old_cases [OF assms]
  show wf: "wf w'" using c(1) assms(2) by (rule safe_wf)
  consider "exists w dest" | "\<not> exists w dest" "exists w old" | "\<not> exists w old" by blast
  then have "live_tree w' dest old = live_tree w dest old \<and> (r = None \<longrightarrow> look w' old = None)"
  proof cases
    case 1
    note s = c(2) [OF 1]
    then have "look w' dest = look w dest" "tree_at w' dest = tree_at w dest"
      using assms(2) safe_gone [of "below dest" w w' dest] safe_tree_at [of "below dest" w w' dest] by simp_all
    with 1 s show ?thesis by (simp add: live_tree_def exists_def)
  next
    case 2
    from c(3) [OF 2] show ?thesis
    proof
      assume *: "r = None \<and> tree_at w' dest = tree_at w old \<and> look w' old = None"
      have "look w old \<noteq> None" using 2(2) by (simp add: exists_def)
      then have "tree_at w old [] \<noteq> None" by (simp add: tree_at_None_iff assms(2))
      then have "look w' dest \<noteq> None" using * by (metis append_Nil2 tree_at_None_iff wf)
      with * 2 show ?thesis by (simp add: live_tree_def exists_def)
    next
      assume *: "r \<noteq> None \<and> same_fs w w'"
      then have "look w' = look w" "tree_at w' D = tree_at w D" for D
        by (simp_all add: same_fs_look same_fs_tree)
      with * show ?thesis by (auto simp: live_tree_def exists_def)
    qed
  next
    case 3
    with c(4) show ?thesis by (simp add: exists_def)
  qed
  then show "live_tree w' dest old = live_tree w dest old" "r = None \<Longrightarrow> look w' old = None" by blast+
qed

lemma recover_interrupted_live:
  assumes run: "recover_interrupted E dest tmp old partial w = (r, w')" and w: "wf w" and l: "layout dest tmp old partial"
  shows "live_tree w' dest old = live_tree w dest old" "wf w'"
    "r = None \<Longrightarrow> look w' old = None \<and> look w' tmp = None \<and> (\<forall>p. prefix partial p \<longrightarrow> sole w' p)"
proof -
  note p = layout_parts [OF l] and k = layout_keeps [OF l]
  obtain r1 w1 where 1: "restore_old E dest old w = (r1, w1)" by fastforce
  obtain r2 w2 where 2: "keep_staged E tmp partial w1 = (r2, w2)" by fastforce
  obtain r3 w3 where 3: "unshare_partial E partial w2 = (r3, w3)" by fastforce
  from run 1 2 3 have r: "r = errors_join [r1, r2, r3]" "w' = w3" by (auto simp: recover_interrupted_def)
  note a = restore_old_live [OF 1 w l]
  have s2: "safe (below dest \<union> below old) w1 w2"
    using keep_staged_keep [OF k(1,2) p(4,8), of w1 E] 2 by simp
  have w2: "wf w2" using s2 a(2) by (rule safe_wf)
  have s3: "safe (below dest \<union> below old \<union> below tmp) w2 w3"
    using unshare_partial_keep [OF k(5), of w2 E] 3 by simp
  then have s3': "safe (below dest \<union> below old) w2 w3" by (rule safe_sub) auto
  have s: "safe (below dest \<union> below old) w1 w3" using s2 s3' by (rule keep.trans)
  show "live_tree w' dest old = live_tree w dest old"
    using live_tree_safe [OF s a(2)] a(1) by (simp add: r)
  show "wf w'" using s a(2) unfolding r(2) by (rule safe_wf)
  show "look w' old = None \<and> look w' tmp = None \<and> (\<forall>p. prefix partial p \<longrightarrow> sole w' p)" if n: "r = None"
  proof (intro conjI allI impI)
    have e: "r1 = None" "r2 = None" "r3 = None" using n unfolding r(1) errors_join_None by simp_all
    show "look w' old = None" using safe_gone [OF s a(2), of old] a(3) [OF e(1)] by (simp add: r)
    show "look w' tmp = None"
      using safe_gone [OF s3 w2, of tmp] keep_staged_gone [OF 2 [unfolded e(2)] p(9)] by (simp add: r)
    show "sole w' p" if "prefix partial p" for p
      using unshare_partial_None [OF 3 [unfolded e(3)] w2 that] by (simp add: r)
  qed
qed

text \<open>When no call fails, a swap that was cut off between its renames is rolled back.\<close>

lemma restore_old_calm:
  assumes nf: "\<And>t c. \<not> fault E t c" and w: "wf w" and l: "layout dest tmp old partial"
    and d: "look w dest = None" and o: "look w old = Some n"
  shows "\<exists>w'. restore_old E dest old w = (None, w') \<and> tree_at w' dest = tree_at w old \<and> look w' old = None"
proof -
  note p = layout_parts [OF l]
  have np: "\<not> prefix old dest" "\<not> prefix dest old"
    using layout_apart(3) [OF l, of old dest] layout_apart(3) [OF l, of dest old] p(10) by auto
  have "look w (parent old) = Some Dir" unfolding parent_def by (rule wf_up [OF w o p(7)])
  then have up: "look w (parent dest) = Some Dir" by (simp add: p(13))
  obtain e w' where r: "os_rename E old dest w = (e, w')" by fastforce
  have e: "e = None"
    using r nf d o up np p(7,10) by (auto simp: os_rename_def sys_def Let_def split: if_splits)
  note mv = os_rename_moves [OF r [unfolded e] disjI2 [OF d] p(10) [symmetric]]
  show ?thesis using r e d o mv(1,2) by (simp add: restore_old_def exists_def wrap_err_def)
qed

lemma recover_rolls_back:
  assumes nf: "\<And>t c. \<not> fault E t c" and w: "wf w" and dest: "dest \<noteq> []" "plain_comps dest"
    and d: "look w dest = None" and o: "look w (sibling dest old_suffix) = Some n"
    and run: "recover E dest w = (r, w')"
  shows "tree_at w' dest = tree_at w (sibling dest old_suffix)"
proof -
  let ?tmp = "sibling dest tmp_suffix" and ?old = "sibling dest old_suffix" and ?partial = "sibling dest partial_suffix"
  define w0 where "w0 = snd (sys E SysCtx w)"
  have s0: "same_fs w w0" by (simp add: w0_def sys_def same_fs_def Let_def)
  note l = layout_siblings [OF dest]
  note same = same_fs_look [OF s0] same_fs_tree [OF s0] safe_wf [OF same_fs_safe [OF s0] w]
  have run': "recover_interrupted E dest ?tmp ?old ?partial w0 = (r, w')"
    using run nf by (auto simp: recover_def w0_def sys_def Let_def split: prod.splits)
  obtain w1 where 1: "restore_old E dest ?old w0 = (None, w1)" "tree_at w1 dest = tree_at w0 ?old" "look w1 ?old = None"
    using restore_old_calm [OF nf same(3) l] d o same(1) by auto
  obtain r2 w2 where 2: "keep_staged E ?tmp ?partial w1 = (r2, w2)" by fastforce
  obtain r3 w3 where 3: "unshare_partial E ?partial w2 = (r3, w3)" by fastforce
  have w': "w' = w3" using run' 1(1) 2 3 by (auto simp: recover_interrupted_def)
  note k = layout_keeps [OF l] and p = layout_parts [OF l]
  have w1: "wf w1" using restore_old_live(2) [OF 1(1) same(3) l] .
  have s2: "safe (below dest \<union> below ?old) w1 w2"
    using keep_staged_keep [OF k(1,2) p(4,8), of w1 E] 2 by simp
  have s3: "safe (below dest \<union> below ?old \<union> below ?tmp) w2 w3"
    using unshare_partial_keep [OF k(5), of w2 E] 3 by simp
  then have s3': "safe (below dest \<union> below ?old) w2 w3" by (rule safe_sub) auto
  have "safe (below dest \<union> below ?old) w1 w3" using s2 s3' by (rule keep.trans)
  then have "tree_at w3 dest = tree_at w1 dest" by (rule safe_tree_at [OF _ w1]) auto
  with 1(2) same(2) w' show ?thesis by simp
qed

end
