(* ===== verification/PullStage.thy ===== *)
theory PullStage
  imports PullRecover
begin

text \<open>
  Staging, from \<open>pkg/pull/stage.go\<close>, with \<open>adoptPrefixes\<close> and \<open>resumeSlots\<close> of
  \<open>resume.go\<close> and the \<open>syncer\<close> of \<open>pull.go\<close>: every manifest entry becomes a job, the jobs
  on disk run before the downloads, and the partial tree goes in between. Workers take whole
  jobs; the order in which they run is the syncer's field \<open>sy_order\<close>, of which only
  that it permutes the jobs is ever used. The lemmas show that staging never touches the live
  tree or the old tree, and what a staged entry holds.
\<close>

section \<open>The data\<close>

datatype action = ActDownload | ActCopy | ActLink | ActReuse

record job =
  j_file :: mfile
  j_act :: action
  j_mode :: file_mode
  j_live :: file_mode
  j_in_live :: bool
  j_resume :: bool

text \<open>\<open>counters\<close>; \<open>c_leftovers\<close> are the keys of its map.\<close>

record counters =
  c_downloaded :: nat
  c_linked :: nat
  c_copied :: nat
  c_reused :: nat
  c_resumed :: nat
  c_leftovers :: "string list"

definition no_counts :: counters where
  "no_counts = \<lparr>c_downloaded = 0, c_linked = 0, c_copied = 0, c_reused = 0, c_resumed = 0, c_leftovers = []\<rparr>"

record stats =
  st_downloaded :: nat
  st_linked :: nat
  st_copied :: nat
  st_reused :: nat
  st_resumed :: nat
  st_total :: nat

text \<open>\<open>syncer\<close>; \<open>sy_client\<close> tells whether it has an S3 client, which its \<open>fetch\<close> then uses.\<close>

record 's syncer =
  sy_client :: bool
  sy_bucket :: string
  sy_prefix :: string
  sy_source :: fpath
  sy_dest :: fpath
  sy_tmp :: fpath
  sy_old :: fpath
  sy_partial :: fpath
  sy_parallel :: int
  sy_attempts :: int
  sy_manifest_key :: string
  sy_before :: "(bytes \<Rightarrow> 's \<Rightarrow> gerr option \<times> 's) option"
  sy_max_manifest :: int
  sy_max_content :: int
  sy_fetch :: "job \<Rightarrow> fpath \<Rightarrow> 's world \<Rightarrow> bool res \<times> 's world"
  sy_order :: "job list \<Rightarrow> job list"

type_synonym live_map = "(string \<times> local_file) list"
type_synonym partial_index = "content_key \<rightharpoonup> leftover"

section \<open>Classification\<close>

definition classify ::
  "platform \<Rightarrow> mfile \<Rightarrow> live_map \<Rightarrow> partial_index \<Rightarrow> (action \<times> file_mode) res" where
  "classify P f live partial =
     (case file_mode f of
        Inl e \<Rightarrow> Inl e
      | Inr mode \<Rightarrow>
          (let missing = (if partial (f_sha256 f, f_size f) \<noteq> None then Inr (ActReuse, mode) else Inr (ActDownload, mode))
           in case map_of live (f_path f) of
                None \<Rightarrow> missing
              | Some lf \<Rightarrow>
                  if lf_hash lf \<noteq> f_sha256 f \<or> lf_size lf \<noteq> f_size f then missing
                  else if goos P \<noteq> ''windows'' \<and> lf_mode lf \<noteq> mode then Inr (ActCopy, mode)
                  else Inr (ActLink, mode)))"

definition has_content :: "live_map \<Rightarrow> content_key \<Rightarrow> bool" where
  "has_content live k \<longleftrightarrow> list_ex (\<lambda>(p, lf). content_of lf = k) live"

definition live_mode :: "live_map \<Rightarrow> string \<Rightarrow> file_mode" where
  "live_mode live p = (case map_of live p of None \<Rightarrow> 0 | Some lf \<Rightarrow> lf_mode lf)"

text \<open>The first loop of \<open>stage\<close>: the local jobs and the downloads, in manifest order.\<close>

fun plan_jobs ::
  "platform \<Rightarrow> bool \<Rightarrow> manifest \<Rightarrow> live_map \<Rightarrow> partial_index \<Rightarrow> mfile list \<Rightarrow> string list
   \<Rightarrow> (job list \<times> job list) res" where
  "plan_jobs P client m live partial [] claimed = Inr ([], [])"
| "plan_jobs P client m live partial (f # fs) claimed =
     (case classify P f live partial of
        Inl e \<Rightarrow> Inl e
      | Inr (act, mode) \<Rightarrow>
          (let (res, claimed') = (if act = ActDownload \<and> client then resumable m f claimed else (False, claimed));
               j = \<lparr>j_file = f, j_act = act, j_mode = mode, j_live = live_mode live (f_path f),
                    j_in_live = (act = ActReuse \<and> has_content live (f_sha256 f, f_size f)), j_resume = res\<rparr>
           in case plan_jobs P client m live partial fs claimed' of
                Inl e \<Rightarrow> Inl e
              | Inr (loc, rem) \<Rightarrow> Inr (if act = ActDownload then (loc, j # rem) else (j # loc, rem))))"

section \<open>Staging one entry\<close>

definition read_only_on_windows :: "platform \<Rightarrow> file_mode \<Rightarrow> bool" where
  "read_only_on_windows P mode \<longleftrightarrow> goos P = ''windows'' \<and> mode AND 128 = 0"

definition link_or_copy ::
  "os_env \<Rightarrow> fpath \<Rightarrow> string \<Rightarrow> job \<Rightarrow> fpath \<Rightarrow> bool \<Rightarrow> 's world \<Rightarrow> bool res \<times> 's world" where
  "link_or_copy E src from j dst copy_only w =
     (let copied = (\<lambda>w. case copy_file E src from (j_file j) dst (j_mode j) w of
                      (Some e, w) \<Rightarrow> (Inl e, w) | (None, w) \<Rightarrow> (Inr False, w))
      in if copy_only then copied w
         else (case os_link E src dst w of (Some e, w) \<Rightarrow> copied w | (None, w) \<Rightarrow> (Inr True, w)))"

definition download ::
  "os_env \<Rightarrow> 's get_fn \<Rightarrow> string \<Rightarrow> string \<Rightarrow> fpath \<Rightarrow> job \<Rightarrow> fpath \<Rightarrow> 's world \<Rightarrow> bool res \<times> 's world" where
  "download E get bucket pre tmp j dst w =
     (if j_resume j then download_resumable E get bucket pre tmp (j_file j) dst (j_mode j) w
      else (case download_whole E get bucket pre (j_file j) dst (j_mode j) w of
              (Some e, w) \<Rightarrow> (Inl e, w) | (None, w) \<Rightarrow> (Inr False, w)))"

text \<open>A map read gives the zero value for an absent key.\<close>

definition leftover_for :: "partial_index \<Rightarrow> job \<Rightarrow> leftover" where
  "leftover_for partial j =
     (case partial (f_sha256 (j_file j), f_size (j_file j)) of None \<Rightarrow> \<lparr>lo_path = [], lo_mode = 0\<rparr> | Some lo \<Rightarrow> lo)"

definition stage_entry ::
  "os_env \<Rightarrow> 's syncer \<Rightarrow> partial_index \<Rightarrow> job \<Rightarrow> counters \<Rightarrow> 's world \<Rightarrow> (gerr option \<times> counters) \<times> 's world" where
  "stage_entry E s partial j c w =
     (let dst = fs_join (sy_tmp s) (f_path (j_file j))
      in case os_mkdir_all E (parent dst) w of
           (Some e, w) \<Rightarrow> ((Some e, c), w)
         | (None, w) \<Rightarrow>
             (case j_act j of
                ActDownload \<Rightarrow>
                  (case sy_fetch s j dst w of
                     (Inl e, w) \<Rightarrow> ((Some e, c), w)
                   | (Inr resumed, w) \<Rightarrow>
                       ((None, c\<lparr>c_downloaded := c_downloaded c + 1,
                                 c_resumed := (if resumed then c_resumed c + 1 else c_resumed c)\<rparr>), w))
              | ActReuse \<Rightarrow>
                  (let lo = leftover_for partial j;
                       taken = lo_path lo \<in> set (c_leftovers c);
                       c = c\<lparr>c_leftovers := List.insert (lo_path lo) (c_leftovers c)\<rparr>;
                       copy_only = taken \<or> j_in_live j \<or> (goos (plat E) \<noteq> ''windows'' \<and> lo_mode lo \<noteq> j_mode j)
                         \<or> read_only_on_windows (plat E) (lo_mode lo)
                   in case link_or_copy E (fs_join (sy_partial s) (lo_path lo)) ''partial'' j dst copy_only w of
                        (Inl e, w) \<Rightarrow> ((Some e, c), w)
                      | (Inr _, w) \<Rightarrow> ((None, c\<lparr>c_reused := c_reused c + 1\<rparr>), w))
              | _ \<Rightarrow>
                  (case link_or_copy E (fs_join (sy_dest s) (f_path (j_file j))) ''live'' j dst
                          (j_act j = ActCopy \<or> read_only_on_windows (plat E) (j_live j)) w of
                     (Inl e, w) \<Rightarrow> ((Some e, c), w)
                   | (Inr linked, w) \<Rightarrow>
                       ((None, if linked then c\<lparr>c_linked := c_linked c + 1\<rparr> else c\<lparr>c_copied := c_copied c + 1\<rparr>), w))))"

text \<open>\<open>stageAll\<close>: every job runs; the first error, in the order they ran, is the result.\<close>

fun stage_jobs ::
  "os_env \<Rightarrow> 's syncer \<Rightarrow> partial_index \<Rightarrow> job list \<Rightarrow> counters \<Rightarrow> 's world \<Rightarrow> (gerr option \<times> counters) \<times> 's world" where
  "stage_jobs E s partial [] c w = ((None, c), w)"
| "stage_jobs E s partial (j # js) c w =
     (case stage_entry E s partial j c w of
        ((e, c), w) \<Rightarrow>
          (case stage_jobs E s partial js c w of
             ((e', c), w) \<Rightarrow> ((if e = None then e' else e, c), w)))"

definition stage_all ::
  "os_env \<Rightarrow> 's syncer \<Rightarrow> partial_index \<Rightarrow> job list \<Rightarrow> counters \<Rightarrow> 's world \<Rightarrow> (gerr option \<times> counters) \<times> 's world" where
  "stage_all E s partial js c w = stage_jobs E s partial (sy_order s js) c w"

section \<open>The whole tree\<close>

definition adopt_move :: "os_env \<Rightarrow> fpath \<times> fpath \<Rightarrow> 's world \<Rightarrow> 's world" where
  "adopt_move E mv w =
     (if \<not> exists w (fst mv) then w
      else snd (if_ok (os_mkdir_all E (parent (snd mv)) w) (os_rename E (fst mv) (snd mv))))"

definition adopt_moves :: "'s syncer \<Rightarrow> job \<Rightarrow> (fpath \<times> fpath) list" where
  "adopt_moves s j =
     (if \<not> j_resume j then []
      else (let frm = prefix_files_in (sy_partial s) (f_sha256 (j_file j));
                to = prefix_files_in (sy_tmp s) (f_sha256 (j_file j))
            in [(pf_data frm, pf_data to), (pf_prev frm, pf_prev to), (pf_info frm, pf_info to)]))"

definition adopt_prefixes :: "os_env \<Rightarrow> 's syncer \<Rightarrow> job list \<Rightarrow> 's world \<Rightarrow> 's world" where
  "adopt_prefixes E s js w = fold (adopt_move E) (concat (map (adopt_moves s) js)) w"

definition clear_resume_dir :: "os_env \<Rightarrow> 's syncer \<Rightarrow> 's world \<Rightarrow> gerr option \<times> 's world" where
  "clear_resume_dir E s w =
     (let dir = sy_tmp s @ [resume_dir]
      in case os_remove_all E dir w of
           (None, w) \<Rightarrow> (None, w)
         | (Some e, w) \<Rightarrow>
             wrap_err (\<lambda>e. E_wrap ''pull: removing the staging tree's resume directory: %w'' [] [e])
               (os_remove_all E dir (stash_prefixes E (sy_tmp s) (sy_partial s) w)))"

text \<open>The partial tree goes, or at least no longer shares a file with another tree.\<close>

definition drop_partial :: "os_env \<Rightarrow> 's syncer \<Rightarrow> 's world \<Rightarrow> gerr option \<times> 's world" where
  "drop_partial E s w =
     (case os_remove_all E (sy_partial s) w of
        (None, w) \<Rightarrow> (None, w)
      | (Some e, w) \<Rightarrow>
          wrap_err (\<lambda>e. E_wrap ''pull: %s may share files with the new tree and cannot be removed: %w'' [] [e])
            (drop_shared E (sy_partial s) w))"

definition stats_of :: "counters \<Rightarrow> stats" where
  "stats_of c = \<lparr>st_downloaded = c_downloaded c, st_linked = c_linked c, st_copied = c_copied c,
     st_reused = c_reused c, st_resumed = c_resumed c, st_total = 0\<rparr>"

definition make_staging :: "os_env \<Rightarrow> 's syncer \<Rightarrow> 's world \<Rightarrow> gerr option \<times> 's world" where
  "make_staging E s w =
     if_ok (os_mkdir_all E (parent (sy_tmp s)) w) (\<lambda>w.
       wrap_err (\<lambda>e. E_wrap ''pull: creating staging directory: %w'' [] [e]) (os_mkdir E (sy_tmp s) w))"

definition stage ::
  "os_env \<Rightarrow> 's syncer \<Rightarrow> manifest \<Rightarrow> live_map \<Rightarrow> partial_index \<Rightarrow> 's world \<Rightarrow> stats res \<times> 's world" where
  "stage E s m live partial w =
     (case plan_jobs (plat E) (sy_client s) m live partial (files_of m) [] of
        Inl e \<Rightarrow> (Inl e, w)
      | Inr (loc, rem) \<Rightarrow>
          (case make_staging E s w of
             (Some e, w) \<Rightarrow> (Inl e, w)
           | (None, w) \<Rightarrow>
               (case stage_all E s partial loc no_counts w of
                  ((Some e, c), w) \<Rightarrow> (Inl e, w)
                | ((None, c), w) \<Rightarrow>
                    (case drop_partial E s (adopt_prefixes E s rem w) of
                       (Some e, w) \<Rightarrow> (Inl e, w)
                     | (None, w) \<Rightarrow>
                         (case stage_all E s partial rem c w of
                            ((Some e, c), w) \<Rightarrow> (Inl e, w)
                          | ((None, c), w) \<Rightarrow>
                              (case (if list_ex j_resume rem then clear_resume_dir E s w else (None, w)) of
                                 (Some e, w) \<Rightarrow> (Inl e, w)
                               | (None, w) \<Rightarrow> (Inr (stats_of c), w)))))))"

section \<open>The jobs\<close>

text \<open>What validation and \<open>resumeSlots\<close> guarantee of a job.\<close>

definition job_ok :: "job \<Rightarrow> bool" where
  "job_ok j \<longleftrightarrow> plain_path (f_path (j_file j)) \<and> is_sha256 (f_sha256 (j_file j)) \<and>
     (j_resume j \<longrightarrow> hd (comps (f_path (j_file j))) \<noteq> resume_dir)"

lemma sha256_plain: "is_sha256 x \<Longrightarrow> plain_comp x"
  by (auto simp: is_sha256_iff plain_comp_def list_all_iff char_between_def)

lemma split_on_takeWhile: "hd (split_on c xs) = takeWhile (\<lambda>x. x \<noteq> c) xs"
  by (induction xs) (auto split: list.splits)

lemma resumable_True:
  assumes "resumable m f claimed = (True, claimed')" "f \<in> set (files_of m)"
  shows "hd (comps (f_path f)) \<noteq> resume_dir" "f_sha256 f \<notin> set claimed" "min_resume_size \<le> f_size f"
    "claimed' = f_sha256 f # claimed"
  using assms by (auto simp: resumable_def resume_off_def split_on_takeWhile list_ex_iff split: if_splits)

lemma plan_jobs_ok:
  assumes "plan_jobs P client m live partial fs claimed = Inr (loc, rem)" "set fs \<subseteq> set (files_of m)"
    "\<And>f. f \<in> set fs \<Longrightarrow> plain_path (f_path f) \<and> is_sha256 (f_sha256 f)"
  shows "\<forall>j \<in> set loc \<union> set rem. job_ok j"
  using assms
proof (induction fs arbitrary: claimed loc rem)
  case Nil
  then show ?case by simp
next
  case (Cons f fs)
  obtain act mode where c: "classify P f live partial = Inr (act, mode)"
    using Cons.prems(1) by (auto split: sum.splits)
  obtain res claimed' where r: "(if act = ActDownload \<and> client then resumable m f claimed else (False, claimed)) = (res, claimed')"
    by fastforce
  obtain loc' rem' where p: "plan_jobs P client m live partial fs claimed' = Inr (loc', rem')"
    using Cons.prems(1) c r by (auto simp: Let_def split: sum.splits)
  have ih: "\<forall>j \<in> set loc' \<union> set rem'. job_ok j"
    using Cons.IH [OF p] Cons.prems(2,3) by simp
  have "res \<Longrightarrow> hd (comps (f_path f)) \<noteq> resume_dir"
    using r resumable_True(1) [of m f claimed claimed'] Cons.prems(2) by (auto split: if_splits)
  with Cons.prems(1,3) c r p ih show ?case
    by (auto simp: job_ok_def Let_def split: if_splits)
qed

section \<open>What staging keeps\<close>

text \<open>The contract of the syncer's \<open>fetch\<close>: it changes nothing apart from the staging tree,
  and success leaves the entry's verified bytes under a name of its own.\<close>

locale fetcher =
  fixes E :: os_env and tmp :: fpath and fetch :: "job \<Rightarrow> fpath \<Rightarrow> 's world \<Rightarrow> bool res \<times> 's world"
  assumes keeps: "apart S tmp \<Longrightarrow> plain_comps tmp \<Longrightarrow> job_ok j \<Longrightarrow> prefix tmp dst \<Longrightarrow> plain_comp (last dst) \<Longrightarrow>
      safe S w (snd (fetch j dst w))"
    and gives: "fetch j dst w = (Inr b, w') \<Longrightarrow> wf w \<Longrightarrow> plain_comps tmp \<Longrightarrow> job_ok j \<Longrightarrow>
      dst = fs_join tmp (f_path (j_file j)) \<Longrightarrow> holds E (j_file j) (j_mode j) dst w'"

lemma dst_facts:
  assumes "job_ok j"
  shows "prefix tmp (fs_join tmp (f_path (j_file j)))" "plain_comp (last (fs_join tmp (f_path (j_file j))))"
    "parent (fs_join tmp (f_path (j_file j))) = tmp @ butlast (comps (f_path (j_file j)))"
proof -
  have p: "plain_path (f_path (j_file j))" using assms by (simp add: job_ok_def)
  have ne: "comps (f_path (j_file j)) \<noteq> []" by simp
  have pc: "plain_comps (comps (f_path (j_file j)))" using p by (simp add: plain_path_def)
  show "prefix tmp (fs_join tmp (f_path (j_file j)))" by (simp add: fs_join_plain [OF p])
  show "plain_comp (last (fs_join tmp (f_path (j_file j))))"
    using suffix_plain [OF pc ne] by (simp add: fs_join_plain [OF p])
  show "parent (fs_join tmp (f_path (j_file j))) = tmp @ butlast (comps (f_path (j_file j)))"
    by (simp add: fs_join_plain [OF p] parent_def butlast_append)
qed

lemma dst_plain: "job_ok j \<Longrightarrow> plain_comps (butlast (comps (f_path (j_file j))))"
  by (auto simp: job_ok_def plain_path_def list_all_iff dest: in_set_butlastD)

lemma link_or_copy_keep:
  assumes "clear S dst" "plain_comp (last dst)"
  shows "safe S w (snd (link_or_copy E src from j dst co w))"
  unfolding link_or_copy_def Let_def
  by (intro keep.if_step keep.case_err_step copy_file_safe link_keep clear_notin assms keep.done_step keep.refl)

lemma adopt_move_keep:
  assumes "clear S (fst mv)" "clear S (snd mv)" "plain_comp (last (snd mv))"
    "\<And>q. prefix q (parent (snd mv)) \<Longrightarrow> q \<notin> S" "plain_comps (parent (snd mv))"
  shows "safe S w (adopt_move E mv w)"
  unfolding adopt_move_def
  by (simp add: keep.refl) (intro impI keep.if_ok_step mkdir_all_keep rename_keep assms)

lemma adopt_prefixes_keep:
  assumes tmp: "apart S (sy_tmp s)" "plain_comps (sy_tmp s)" and partial: "clear S (sy_partial s)"
    and js: "\<forall>j \<in> set js. job_ok j"
  shows "safe S w (adopt_prefixes E s js w)"
proof -
  have "safe S w (fold (adopt_move E) mvs w)" if "set mvs \<subseteq> set (concat (map (adopt_moves s) js))" for mvs w
    using that
  proof (induction mvs arbitrary: w)
    case Nil
    then show ?case by (simp add: keep.refl)
  next
    case (Cons mv mvs)
    then obtain j where j: "j \<in> set js" "mv \<in> set (adopt_moves s j)" by auto
    define dg where "dg = f_sha256 (j_file j)"
    have dg: "plain_comp dg" using j(1) js by (auto simp: job_ok_def dg_def intro: sha256_plain)
    from j(2) obtain x where x: "mv = (sy_partial s @ [resume_dir, dg @ x], sy_tmp s @ [resume_dir, dg @ x])"
        "x \<in> {[], ''.prev'', ''.json''}"
      by (auto simp: adopt_moves_def prefix_files_in_def Let_def dg_def split: if_splits)
    have pl: "plain_comp (dg @ x)" using x(2) dg by (auto intro: plain_suffix)
    have up: "parent (snd mv) = sy_tmp s @ [resume_dir]" by (simp add: x parent_def butlast_append)
    have "safe S w (adopt_move E mv w)"
    proof (rule adopt_move_keep)
      show "clear S (fst mv)" by (simp add: x partial)
      show "clear S (snd mv)" using apart_clear [OF tmp(1)] by (simp add: x)
      show "plain_comp (last (snd mv))" by (simp add: x pl)
      show "q \<notin> S" if "prefix q (parent (snd mv))" for q
        using that unfolding up by (rule apart_above [OF tmp(1), rotated]) simp
      show "plain_comps (parent (snd mv))" by (simp add: up tmp(2) resume_dir_plain)
    qed
    moreover have "safe S (adopt_move E mv w) (fold (adopt_move E) mvs (adopt_move E mv w))"
      using Cons.IH Cons.prems by simp
    ultimately show ?case by (simp add: keep.trans)
  qed
  from this [OF subset_refl] show ?thesis by (simp only: adopt_prefixes_def)
qed

lemma drop_partial_keep: "clear S (sy_partial s) \<Longrightarrow> safe S w (snd (drop_partial E s w))"
  unfolding drop_partial_def
  by (intro keep.case_err_step keep.wrap_step remove_all_keep drop_shared_keep keep.done_step keep.refl)

lemma clear_resume_dir_keep:
  assumes "apart S (sy_tmp s)" "apart S (sy_partial s)" "plain_comps (sy_partial s)"
  shows "safe S w (snd (clear_resume_dir E s w))"
proof -
  have c: "clear S (sy_tmp s @ [resume_dir])" using apart_clear [OF assms(1)] by simp
  have "safe S w (snd (os_remove_all E (sy_tmp s @ [resume_dir]) (stash_prefixes E (sy_tmp s) (sy_partial s) w)))" for w
    using stash_prefixes_keep [OF assms] remove_all_keep [OF c] by (rule keep.trans)
  then show ?thesis
    unfolding clear_resume_dir_def Let_def
    by (intro keep.case_err_step keep.wrap_step remove_all_keep c keep.done_step keep.refl)
qed

lemma make_staging_keep:
  assumes "apart S (sy_tmp s)" "plain_comps (sy_tmp s)" "sy_tmp s \<noteq> []"
  shows "safe S w (snd (make_staging E s w))"
proof -
  have "safe S w (snd (os_mkdir_all E (parent (sy_tmp s)) w))"
  proof (rule mkdir_all_keep)
    show "q \<notin> S" if "prefix q (parent (sy_tmp s))" for q
      using that by (intro apart_above [OF assms(1), of "sy_tmp s"]) (auto simp: parent_def prefix_order.trans [OF _ prefixeq_butlast])
    show "plain_comps (parent (sy_tmp s))" using assms(2) by (auto simp: parent_def list_all_iff dest: in_set_butlastD)
  qed
  then show ?thesis
    unfolding make_staging_def
    by (intro keep.if_ok_step keep.wrap_step mkdir_keep apart_clear [OF assms(1)] suffix_plain assms) simp_all
qed

context fetcher
begin

lemma stage_entry_keep:
  assumes s: "sy_fetch s = fetch" "sy_tmp s = tmp" and a: "apart S tmp" "plain_comps tmp" and j: "job_ok j"
  shows "safe S w (snd (stage_entry E s partial j c w))"
proof -
  let ?dst = "fs_join tmp (f_path (j_file j))"
  note d = dst_facts [OF j, of tmp]
  have mk: "safe S w (snd (os_mkdir_all E (parent ?dst) w))"
    unfolding d(3)
  proof (rule mkdir_all_keep)
    show "q \<notin> S" if "prefix q (tmp @ butlast (comps (f_path (j_file j))))" for q
      using that by (rule apart_above [OF a(1), rotated]) simp
  qed (simp add: a(2) dst_plain [OF j])
  note loc = link_or_copy_keep [OF apart_clear [OF a(1) d(1)] d(2)]
  note f = keeps [OF a j d(1,2)]
  show ?thesis
    unfolding stage_entry_def Let_def s
    by (cases "j_act j") (auto intro!: keep.case_err_step keep.case_res_step mk loc f keep.refl)
qed

lemma stage_jobs_keep:
  assumes s: "sy_fetch s = fetch" "sy_tmp s = tmp" and a: "apart S tmp" "plain_comps tmp" and j: "\<forall>j \<in> set js. job_ok j"
  shows "safe S w (snd (stage_jobs E s partial js c w))"
  using j
proof (induction js arbitrary: c w)
  case Nil
  then show ?case by (simp add: keep.refl)
next
  case (Cons j js)
  obtain e c1 w1 where 1: "stage_entry E s partial j c w = ((e, c1), w1)" by (metis prod.collapse)
  obtain e2 c2 w2 where 2: "stage_jobs E s partial js c1 w1 = ((e2, c2), w2)" by (metis prod.collapse)
  have "safe S w w1" using stage_entry_keep [OF s a, of j w partial c] Cons.prems 1 by simp
  moreover have "safe S w1 w2" using Cons.IH [of w1 c1] Cons.prems 2 by simp
  ultimately have "safe S w w2" by (rule keep.trans)
  with 1 2 show ?case by simp
qed

lemma stage_all_keep:
  assumes s: "sy_fetch s = fetch" "sy_tmp s = tmp" and a: "apart S tmp" "plain_comps tmp" and j: "\<forall>j \<in> set js. job_ok j"
    and o: "set (sy_order s js) = set js"
  shows "safe S w (snd (stage_all E s partial js c w))"
  unfolding stage_all_def using j by (intro stage_jobs_keep [OF s a]) (simp add: o)

text \<open>Whatever fails, staging leaves everything apart from the staging and the partial tree alone.\<close>

lemma stage_keep:
  assumes s: "sy_fetch s = fetch" "sy_tmp s = tmp" and o: "\<And>js. set (sy_order s js) = set js"
    and tmp: "apart S tmp" "plain_comps tmp" "tmp \<noteq> []" and partial: "apart S (sy_partial s)" "plain_comps (sy_partial s)"
    and m: "\<And>f. f \<in> set (files_of m) \<Longrightarrow> plain_path (f_path f) \<and> is_sha256 (f_sha256 f)"
  shows "safe S w (snd (stage E s m live index w))"
proof (cases "plan_jobs (plat E) (sy_client s) m live index (files_of m) []")
  case (Inr lr)
  obtain loc rem where lr: "lr = (loc, rem)" by fastforce
  have j: "\<forall>j \<in> set loc. job_ok j" "\<forall>j \<in> set rem. job_ok j"
    using plan_jobs_ok [OF Inr [unfolded lr]] m by auto
  note all = stage_all_keep [OF s tmp(1,2) _ o]
  note t = tmp [folded s(2)]
  have rest: "safe S w (snd (drop_partial E s (adopt_prefixes E s rem w)))" for w
    using adopt_prefixes_keep [OF t(1,2) apart_clear [OF partial(1)] j(2)] drop_partial_keep [OF apart_clear [OF partial(1)]]
    by (rule keep.trans) simp_all
  show ?thesis
    unfolding stage_def Inr lr
    by (simp only: sum.case prod.case)
      (intro keep.case_err_step make_staging_keep t keep.pair_step keep.tuple_step all j keep.option_step rest
        keep.if_step clear_resume_dir_keep partial keep.done_step keep.refl)
qed (simp add: stage_def keep.refl)

end

section \<open>The two sources\<close>

definition copy_from_source_fn :: "os_env \<Rightarrow> fpath \<Rightarrow> job \<Rightarrow> fpath \<Rightarrow> 's world \<Rightarrow> bool res \<times> 's world" where
  "copy_from_source_fn E source j dst w = copy_from_source E source (j_file j) dst (j_mode j) w"

lemma download_whole_None:
  assumes "download_whole E get bucket pre f dst mode w = (None, w')" "wf w"
  shows "holds E f mode dst w'"
proof -
  obtain out w1 where "s3_call get (get_request bucket (path_join pre (f_path f))) w = (Inr out, w1)"
    and wv: "write_verified E (go_body out) f dst mode w1 = (None, w')"
    using assms(1) by (auto simp: download_whole_def Let_def wrap_err_None split: prod.splits sum.splits)
  then have "wf w1" using s3_call_same [of get _ w "Inr out" w1] assms(2) same_fs_safe [of w w1 "{}"] by (simp add: safe_def)
  with wv show ?thesis by (rule write_verified_None(1))
qed

lemma copy_from_source_Inr:
  assumes "copy_from_source E source f dst mode w = (Inr b, w')" "wf w"
  shows "holds E f mode dst w'"
proof -
  obtain fh w1 where o: "os_open E (fs_join source (f_path f)) w = (Inr fh, w1)"
    and wv: "write_verified E fh f dst mode w1 = (None, w')"
    using assms(1) by (auto simp: copy_from_source_def Let_def split: prod.splits sum.splits if_splits option.splits)
  have "wf w1" using same_fs_safe [OF os_open_same [OF o], of "{}"] assms(2) by (simp add: safe_def)
  with wv show ?thesis by (rule write_verified_None(1))
qed

lemma copy_file_None:
  assumes "copy_file E src from f dst mode w = (None, w')" "wf w"
  shows "holds E f mode dst w'"
proof -
  obtain fh w1 where o: "os_open E src w = (Inr fh, w1)" and wv: "write_verified E fh f dst mode w1 = (None, w')"
    using assms(1) by (auto simp: copy_file_def wrap_err_None split: prod.splits sum.splits)
  have "wf w1" using same_fs_safe [OF os_open_same [OF o], of "{}"] assms(2) by (simp add: safe_def)
  with wv show ?thesis by (rule write_verified_None(1))
qed

lemma resume_dst:
  assumes "job_ok j" "j_resume j"
  shows "\<not> prefix (tmp @ [resume_dir]) (fs_join tmp (f_path (j_file j)))"
  using assms by (cases "comps (f_path (j_file j))") (auto simp: job_ok_def fs_join_plain)

interpretation s3: fetcher E tmp "download E get bucket pre tmp" for E get bucket pre tmp
proof unfold_locales
  fix S j dst and w :: "'a world"
  assume a: "apart S tmp" "plain_comps tmp" "job_ok j" "prefix tmp dst" "plain_comp (last dst)"
  then have dg: "plain_comp (f_sha256 (j_file j))" by (simp add: job_ok_def sha256_plain)
  show "safe S w (snd (download E get bucket pre tmp j dst w))"
    unfolding download_def
    by (intro keep.if_step keep.case_err_step download_whole_safe download_resumable_keep a dg keep.done_step keep.refl
        clear_notin [OF apart_clear [OF a(1,4)]])
next
  fix j dst b and w w' :: "'a world"
  assume a: "download E get bucket pre tmp j dst w = (Inr b, w')" "wf w" "plain_comps tmp" "job_ok j"
    and dst: "dst = fs_join tmp (f_path (j_file j))"
  note d = dst_facts [OF a(4), of tmp]
  show "holds E (j_file j) (j_mode j) dst w'"
  proof (cases "j_resume j")
    case True
    have "download_resumable E get bucket pre tmp (j_file j) dst (j_mode j) w = (Inr b, w')"
      using a(1) True by (simp add: download_def)
    from download_resumable_Inr [OF this a(2,3)] show ?thesis
      using a(4) d resume_dst [OF a(4) True] sha256_plain by (simp add: dst job_ok_def)
  next
    case False
    with a(1) have "download_whole E get bucket pre (j_file j) dst (j_mode j) w = (None, w')"
      by (auto simp: download_def split: prod.splits option.splits)
    then show ?thesis using a(2) by (rule download_whole_None)
  qed
qed

interpretation dir: fetcher E tmp "copy_from_source_fn E source" for E tmp source
proof unfold_locales
  fix S j dst and w :: "'a world"
  assume a: "apart S tmp" "plain_comps tmp" "job_ok j" "prefix tmp dst" "plain_comp (last dst)"
  show "safe S w (snd (copy_from_source_fn E source j dst w))"
    unfolding copy_from_source_fn_def by (intro copy_from_source_safe clear_notin [OF apart_clear [OF a(1,4)]] a(5))
next
  fix j dst b and w w' :: "'a world"
  assume "copy_from_source_fn E source j dst w = (Inr b, w')" "wf w"
  then show "holds E (j_file j) (j_mode j) dst w'"
    unfolding copy_from_source_fn_def by (rule copy_from_source_Inr)
qed

section \<open>What a staged entry is\<close>

lemma link_or_copy_Inr:
  assumes "link_or_copy E src from j dst co w = (Inr linked, w')" "wf w"
  shows "linked \<and> \<not> co \<and> look w' dst = look w' src \<and> look w' dst \<noteq> None \<or> \<not> linked \<and> holds E (j_file j) (j_mode j) dst w'"
proof (cases "co \<or> fst (os_link E src dst w) \<noteq> None")
  case True
  obtain w1 where "copy_file E src from (j_file j) dst (j_mode j) w1 = (None, w')" "\<not> linked" "wf w1"
  proof (cases co)
    case True
    with assms that show ?thesis by (auto simp: link_or_copy_def split: prod.splits option.splits)
  next
    case False
    then obtain e w1 where l: "os_link E src dst w = (Some e, w1)" using True by (metis option.exhaust prod.collapse)
    have "wf w1" using l assms(2) by (auto simp: os_link_def sys_def Let_def split: if_splits option.splits node.splits)
    with False l assms(1) that show ?thesis by (auto simp: link_or_copy_def split: prod.splits option.splits)
  qed
  then show ?thesis using copy_file_None by blast
next
  case False
  then obtain w1 where l: "os_link E src dst w = (None, w1)" by (metis prod.collapse)
  with False assms(1) have "linked" "w1 = w'" by (auto simp: link_or_copy_def)
  moreover have "look w1 dst = look w1 src \<and> look w1 dst \<noteq> None"
    using l by (cases "dst = []") (auto simp: os_link_def sys_def Let_def split: if_splits option.splits node.splits)
  ultimately show ?thesis using False by metis
qed

text \<open>The file a job may link to: the live file of its path, or the leftover of its content.\<close>

definition link_source :: "'s syncer \<Rightarrow> partial_index \<Rightarrow> job \<Rightarrow> fpath" where
  "link_source s partial j =
     (if j_act j = ActReuse then fs_join (sy_partial s) (lo_path (leftover_for partial j))
      else fs_join (sy_dest s) (f_path (j_file j)))"

context fetcher
begin

lemma stage_entry_None:
  assumes run: "stage_entry E s partial j c w = ((None, c'), w')" and w: "wf w"
    and s: "sy_fetch s = fetch" "sy_tmp s = tmp" "plain_comps tmp" and j: "job_ok j"
    and dst: "dst = fs_join tmp (f_path (j_file j))"
  shows "holds E (j_file j) (j_mode j) dst w' \<or>
    j_act j \<in> {ActLink, ActReuse} \<and> look w' dst = look w' (link_source s partial j) \<and> look w' dst \<noteq> None"
proof -
  obtain e w1 where mk: "os_mkdir_all E (parent dst) w = (e, w1)" by fastforce
  with run have e: "e = None" by (auto simp: stage_entry_def Let_def dst s split: option.splits)
  have "safe {} w (snd (os_mkdir_all E (parent dst) w))"
    using dst_facts(3) [OF j] dst_plain [OF j] s(3) by (intro mkdir_all_keep) (simp_all add: dst)
  then have w1: "wf w1" using w mk by (simp add: safe_def)
  show ?thesis
  proof (cases "j_act j")
    case ActDownload
    then obtain b where "fetch j dst w1 = (Inr b, w')"
      using run mk e by (auto simp: stage_entry_def Let_def dst s split: prod.splits sum.splits)
    from gives [OF this w1 s(3) j dst] show ?thesis by blast
  next
    case ActReuse
    then obtain co b where "link_or_copy E (link_source s partial j) ''partial'' j dst co w1 = (Inr b, w')"
      using run mk e by (auto simp: stage_entry_def Let_def dst s link_source_def split: prod.splits sum.splits)
    from link_or_copy_Inr [OF this w1] ActReuse show ?thesis by auto
  next
    case ActCopy
    then obtain b where "link_or_copy E (link_source s partial j) ''live'' j dst True w1 = (Inr b, w')"
      using run mk e by (auto simp: stage_entry_def Let_def dst s link_source_def split: prod.splits sum.splits)
    from link_or_copy_Inr [OF this w1] show ?thesis by auto
  next
    case ActLink
    then obtain co b where "link_or_copy E (link_source s partial j) ''live'' j dst co w1 = (Inr b, w')"
      using run mk e by (auto simp: stage_entry_def Let_def dst s link_source_def split: prod.splits sum.splits)
    from link_or_copy_Inr [OF this w1] ActLink show ?thesis by auto
  qed
qed

end

end
