(* ===== verification/PullSync.thy ===== *)
theory PullSync
  imports PullStage
begin

text \<open>
  \<open>swap.go\<close> and \<open>pull.go\<close>: the swap with its retries and rollback, one replace cycle, and
  the pull that repeats it. A backoff is a call that a cancelled context ends. The lemmas show
  the program's promise: on an error the live tree (\<open>live_tree\<close>) is what it was, and on
  success it is exactly the manifest's.
\<close>

section \<open>The swap\<close>

text \<open>\<open>renameRetry\<close>: \<open>n\<close> attempts are left; \<open>err\<close> is the last attempt's error.\<close>

fun rename_loop :: "os_env \<Rightarrow> fpath \<Rightarrow> fpath \<Rightarrow> nat \<Rightarrow> gerr option \<Rightarrow> 's world \<Rightarrow> (gerr option) option \<times> 's world" where
  "rename_loop E frm to 0 err w = (Some err, w)"
| "rename_loop E frm to (Suc n) err w =
     (case os_rename E frm to w of
        (None, w) \<Rightarrow> (None, w)
      | (Some e, w) \<Rightarrow> rename_loop E frm to n (Some e) w)"

definition rename_retry :: "os_env \<Rightarrow> 's syncer \<Rightarrow> fpath \<Rightarrow> fpath \<Rightarrow> 's world \<Rightarrow> gerr option \<times> 's world" where
  "rename_retry E s frm to w =
     (case rename_loop E frm to (nat (sy_attempts s)) None w of
        (None, w) \<Rightarrow> (None, w)
      | (Some err, w) \<Rightarrow>
          (Some (E_wrap ''pull: rename %s -> %s failed after %d attempts: %w'' []
             (case err of None \<Rightarrow> [] | Some e \<Rightarrow> [e])), w))"

text \<open>\<open>syncDir\<close> opens and fsyncs a directory; durability is not modelled.\<close>

definition sync_dir :: "os_env \<Rightarrow> fpath \<Rightarrow> 's world \<Rightarrow> 's world" where
  "sync_dir E d w = snd (os_open E d w)"

definition swap_in :: "os_env \<Rightarrow> 's syncer \<Rightarrow> bool \<Rightarrow> 's world \<Rightarrow> gerr option \<times> 's world" where
  "swap_in E s existed w =
     (case rename_retry E s (sy_tmp s) (sy_dest s) w of
        (Some err, w) \<Rightarrow>
          (if existed
           then (case os_rename E (sy_old s) (sy_dest s) w of
                   (Some rb, w) \<Rightarrow>
                     (errors_join [Some err,
                        Some (E_wrap ''pull: rolling %s back also failed (the next pull will recover it): %w'' [] [rb])], w)
                 | (None, w) \<Rightarrow> (Some err, w))
           else (Some err, w))
      | (None, w) \<Rightarrow>
          (let w = (if existed then snd (os_remove_all E (sy_old s) w) else w)
           in (None, sync_dir E (parent (sy_dest s)) w)))"

definition swap :: "os_env \<Rightarrow> 's syncer \<Rightarrow> 's world \<Rightarrow> gerr option \<times> 's world" where
  "swap E s w =
     (if exists w (sy_dest s)
      then if_ok (rename_retry E s (sy_dest s) (sy_old s) w) (swap_in E s True)
      else swap_in E s False w)"

section \<open>One cycle\<close>

text \<open>\<open>checkContentSize\<close>, in \<open>int64\<close> arithmetic.\<close>

fun content_fits :: "int \<Rightarrow> int \<Rightarrow> mfile list \<Rightarrow> bool" where
  "content_fits lim acc [] = True"
| "content_fits lim acc (f # fs) =
     (\<not> f_size f > wrap64 (lim - acc) \<and> content_fits lim (wrap64 (acc + f_size f)) fs)"

definition check_content_size :: "'s syncer \<Rightarrow> manifest \<Rightarrow> gerr option" where
  "check_content_size s m =
     (if content_fits (sy_max_content s) 0 (files_of m) then None
      else Some (E_new ''pull: manifest content exceeds the %d-byte limit'' []))"

definition hash_partial :: "os_env \<Rightarrow> 's syncer \<Rightarrow> 's world \<Rightarrow> partial_index \<times> 's world" where
  "hash_partial E s w =
     (case hash_tree E (sy_partial s) resume_dir w of
        (Inl e, w) \<Rightarrow> (Map.empty, w)
      | (Inr files, w) \<Rightarrow> (by_content files, w))"

record pull_result =
  pr_stats :: stats
  pr_manifest :: bytes

definition fetch_manifest ::
  "'s get_fn \<Rightarrow> platform \<Rightarrow> 's syncer \<Rightarrow> 's world \<Rightarrow> (bytes \<times> manifest) res \<times> 's world" where
  "fetch_manifest get P s w =
     (let key = (if sy_manifest_key s = [] then path_join (sy_prefix s) manifest_name else sy_manifest_key s)
      in case s3_call get (get_request (sy_bucket s) key) w of
           (Inl e, w) \<Rightarrow> (Inl (E_wrap ''pull: fetching %s: %w'' [key] [e]), w)
         | (Inr out, w) \<Rightarrow>
             (case io_read (go_body out) (wrap64 (sy_max_manifest s + 1)) of
                Inl e \<Rightarrow> (Inl (E_wrap ''pull: fetching %s: %w'' [key] [e]), w)
              | Inr raw \<Rightarrow>
                  if int (length raw) > sy_max_manifest s
                  then (Inl (E_new ''pull: %s exceeds the %d-byte manifest limit'' [key]), w)
                  else (case decode P raw of Inl e \<Rightarrow> (Inl e, w) | Inr m \<Rightarrow> (Inr (raw, m), w))))"

text \<open>The verified staging tree goes live: \<open>BeforeReplace\<close>, then the swap.\<close>

definition run_before :: "(bytes \<Rightarrow> 's \<Rightarrow> gerr option \<times> 's) \<Rightarrow> bytes \<Rightarrow> 's world \<Rightarrow> gerr option \<times> 's world" where
  "run_before hook raw w = (case hook raw (w_s3 w) of (e, x) \<Rightarrow> (e, w\<lparr>w_s3 := x\<rparr>))"

definition go_live :: "os_env \<Rightarrow> 's syncer \<Rightarrow> bytes \<Rightarrow> 's world \<Rightarrow> gerr option \<times> 's world" where
  "go_live E s raw w =
     (case sy_before s of
        None \<Rightarrow> swap E s w
      | Some hook \<Rightarrow> if_ok (run_before hook raw w) (swap E s))"

text \<open>After a failure the staging tree is kept or deleted; only a mismatch may be retried.\<close>

definition give_up ::
  "os_env \<Rightarrow> 's syncer \<Rightarrow> gerr \<Rightarrow> (string \<times> string) option \<Rightarrow> 's world
   \<Rightarrow> (gerr \<times> (string \<times> string) option + pull_result) \<times> 's world" where
  "give_up E s err mismatch w =
     (case keep_staged E (sy_tmp s) (sy_partial s) w of
        (Some k, w) \<Rightarrow> (Inl (E_join [err, k], None), w)
      | (None, w) \<Rightarrow> (Inl (err, mismatch), w))"

definition replace ::
  "os_env \<Rightarrow> 's syncer \<Rightarrow> bytes \<Rightarrow> manifest \<Rightarrow> 's world
   \<Rightarrow> (gerr \<times> (string \<times> string) option + pull_result) \<times> 's world" where
  "replace E s raw m w =
     (case check_content_size s m of
        Some e \<Rightarrow> (Inl (e, None), w)
      | None \<Rightarrow>
          (case hash_tree E (sy_dest s) [] w of
             (Inl e, w) \<Rightarrow> (Inl (e, None), w)
           | (Inr live, w) \<Rightarrow>
               (case hash_partial E s w of
                  (index, w) \<Rightarrow>
                    (case stage E s m live index w of
                       (Inl e, w) \<Rightarrow> give_up E s e (as_mismatch e) w
                     | (Inr st, w) \<Rightarrow>
                         (case if_ok (verify_tree E (sy_tmp s) m w) (go_live E s raw) of
                            (Some e, w) \<Rightarrow> give_up E s e None w
                          | (None, w) \<Rightarrow>
                              (Inr \<lparr>pr_stats = st\<lparr>st_total := length (files_of m)\<rparr>, pr_manifest = raw\<rparr>, w))))))"

definition sync_once ::
  "os_env \<Rightarrow> 's get_fn \<Rightarrow> 's syncer \<Rightarrow> 's world \<Rightarrow> (gerr \<times> (string \<times> string) option + pull_result) \<times> 's world" where
  "sync_once E get s w =
     (case fetch_manifest get (plat E) s w of
        (Inl e, w) \<Rightarrow> (Inl (e, None), w)
      | (Inr (raw, m), w) \<Rightarrow> replace E s raw m w)"

section \<open>The pull\<close>

record 's options =
  op_parallel :: int
  op_manifest_key :: string
  op_before :: "(bytes \<Rightarrow> 's \<Rightarrow> gerr option \<times> 's) option"
  op_max_manifest :: int
  op_max_content :: int
  op_mismatch_retries :: int
  op_swap_retries :: int

definition default_max_manifest :: int where "default_max_manifest = 67108864"
definition default_max_content :: int where "default_max_content = 68719476736"

definition new_syncer :: "(job list \<Rightarrow> job list) \<Rightarrow> fpath \<Rightarrow> 's options \<Rightarrow> 's syncer res" where
  "new_syncer order dest opts =
     (if op_max_manifest opts < 0 \<or> op_max_content opts < 0
      then Inl (E_new ''pull: negative limit (MaxManifestBytes %d, MaxContentBytes %d)'' [])
      else Inr \<lparr>sy_client = False, sy_bucket = [], sy_prefix = [], sy_source = [], sy_dest = dest,
        sy_tmp = sibling dest tmp_suffix, sy_old = sibling dest old_suffix, sy_partial = sibling dest partial_suffix,
        sy_parallel = (if max (op_parallel opts) 0 = 0 then 16 else max (op_parallel opts) 0),
        sy_attempts = (if op_swap_retries opts = 0 then 5 else op_swap_retries opts),
        sy_manifest_key = op_manifest_key opts, sy_before = op_before opts,
        sy_max_manifest = (if op_max_manifest opts = 0 then default_max_manifest else op_max_manifest opts),
        sy_max_content = (if op_max_content opts = 0 then default_max_content else op_max_content opts),
        sy_fetch = (\<lambda>j dst w. (Inl (E_new ''no source'' []), w)), sy_order = order\<rparr>)"

text \<open>\<open>Siblings\<close> of a cleaned destination.\<close>

definition siblings :: "fpath \<Rightarrow> fpath list" where
  "siblings dest = [sibling dest tmp_suffix, sibling dest old_suffix, sibling dest partial_suffix]"

text \<open>\<open>sleepCtx\<close>: the pause ends early, with an error, when the context is cancelled.\<close>

definition sleep_ctx :: "os_env \<Rightarrow> 's world \<Rightarrow> gerr option \<times> 's world" where
  "sleep_ctx E w =
     (case sys E SysCtx w of
        (True, w) \<Rightarrow> (Some (E_new ''context canceled'' []), w)
      | (False, w) \<Rightarrow> (None, w))"

text \<open>The attempts of \<open>PullWithManifest\<close>: \<open>n\<close> are left, \<open>first\<close> tells the first one.\<close>

fun pull_attempts ::
  "os_env \<Rightarrow> 's get_fn \<Rightarrow> 's syncer \<Rightarrow> nat \<Rightarrow> bool \<Rightarrow> string \<Rightarrow> 's world \<Rightarrow> pull_result res \<times> 's world" where
  "pull_attempts E get s 0 first path w =
     (Inl (E_new ''pull: %s kept mismatching its manifest entry after %d attempts; giving up'' [path]), w)"
| "pull_attempts E get s (Suc n) first path w =
     (case (if first then (None, w) else sleep_ctx E w) of
        (Some e, w) \<Rightarrow> (Inl e, w)
      | (None, w) \<Rightarrow>
          (case sync_once E get s w of
             (Inr res, w) \<Rightarrow> (Inr res, w)
           | (Inl (e, None), w) \<Rightarrow> (Inl e, w)
           | (Inl (e, Some (p, d)), w) \<Rightarrow> pull_attempts E get s n False p w))"

definition s3_syncer :: "os_env \<Rightarrow> 's get_fn \<Rightarrow> string \<Rightarrow> string \<Rightarrow> 's syncer \<Rightarrow> 's syncer" where
  "s3_syncer E get bucket pre s =
     s\<lparr>sy_client := True, sy_bucket := bucket, sy_prefix := trim_suffix pre ''/'',
       sy_fetch := download E get bucket (trim_suffix pre ''/'') (sy_tmp s)\<rparr>"

definition pull_with_manifest ::
  "os_env \<Rightarrow> (job list \<Rightarrow> job list) \<Rightarrow> 's get_fn \<Rightarrow> string \<Rightarrow> string \<Rightarrow> fpath \<Rightarrow> 's options \<Rightarrow> 's world
   \<Rightarrow> pull_result res \<times> 's world" where
  "pull_with_manifest E order get bucket pre dest opts w =
     (case new_syncer order dest opts of
        Inl e \<Rightarrow> (Inl e, w)
      | Inr s0 \<Rightarrow>
          (let s = s3_syncer E get bucket pre s0
           in case recover_interrupted E (sy_dest s) (sy_tmp s) (sy_old s) (sy_partial s) w of
                (Some e, w) \<Rightarrow> (Inl e, w)
              | (None, w) \<Rightarrow>
                  pull_attempts E get s (nat (if op_mismatch_retries opts = 0 then 3 else op_mismatch_retries opts)) True [] w))"

definition pull ::
  "os_env \<Rightarrow> (job list \<Rightarrow> job list) \<Rightarrow> 's get_fn \<Rightarrow> string \<Rightarrow> string \<Rightarrow> fpath \<Rightarrow> 's options \<Rightarrow> 's world
   \<Rightarrow> stats res \<times> 's world" where
  "pull E order get bucket pre dest opts w =
     (case pull_with_manifest E order get bucket pre dest opts w of
        (Inl e, w) \<Rightarrow> (Inl e, w)
      | (Inr r, w) \<Rightarrow> (Inr (pr_stats r), w))"

section \<open>The swap is atomic\<close>

definition sync_ok :: "'s syncer \<Rightarrow> bool" where
  "sync_ok s \<longleftrightarrow> layout (sy_dest s) (sy_tmp s) (sy_old s) (sy_partial s)"

abbreviation live_of :: "'s syncer \<Rightarrow> 's world \<Rightarrow> fpath \<Rightarrow> entry option" where
  "live_of s w \<equiv> live_tree w (sy_dest s) (sy_old s)"

lemma tick_frames [simp]:
  "look (w\<lparr>w_tick := t\<rparr>) = look w" "tree_at (w\<lparr>w_tick := t\<rparr>) = tree_at w" "exists (w\<lparr>w_tick := t\<rparr>) = exists w"
  "live_tree (w\<lparr>w_tick := t\<rparr>) = live_tree w"
proof -
  show l: "look (w\<lparr>w_tick := t\<rparr>) = look w" by (auto simp: look_def)
  show e: "exists (w\<lparr>w_tick := t\<rparr>) = exists w" by (auto simp: exists_def l)
  have "tree_at (w\<lparr>w_tick := t\<rparr>) D = tree_at w D" for D
    by (rule tree_at_cong) (simp_all add: l ino_def)
  then show t: "tree_at (w\<lparr>w_tick := t\<rparr>) = tree_at w" by (intro ext) simp
  show "live_tree (w\<lparr>w_tick := t\<rparr>) = live_tree w" by (intro ext) (simp add: live_tree_def e t)
qed

lemma look_root: "wf w \<Longrightarrow> look w D = None \<longleftrightarrow> tree_at w D [] = None"
  by (simp add: tree_at_None_iff)

lemma rename_loop_None:
  "rename_loop E frm to n err w = (None, w') \<Longrightarrow> \<exists>t. os_rename E frm to (w\<lparr>w_tick := t\<rparr>) = (None, w')"
proof (induction n arbitrary: err w)
  case (Suc n)
  obtain e w1 where r: "os_rename E frm to w = (e, w1)" by fastforce
  show ?case
  proof (cases e)
    case None
    with Suc.prems r have "os_rename E frm to (w\<lparr>w_tick := w_tick w\<rparr>) = (None, w')" by simp
    then show ?thesis by blast
  next
    case (Some x)
    with os_rename_fails r have "w1 = w\<lparr>w_tick := Suc (w_tick w)\<rparr>" by blast
    with Suc.IH [of "Some x" w1] Suc.prems r Some show ?thesis by simp
  qed
qed simp

lemma rename_loop_Some:
  "rename_loop E frm to n err w = (Some err', w') \<Longrightarrow> \<exists>t. w' = w\<lparr>w_tick := t\<rparr>"
proof (induction n arbitrary: err w)
  case 0
  then show ?case by (intro exI [of _ "w_tick w"]) simp
next
  case (Suc n)
  obtain e w1 where r: "os_rename E frm to w = (e, w1)" by fastforce
  with Suc.prems obtain x where e: "e = Some x" by (cases e) auto
  with os_rename_fails r have "w1 = w\<lparr>w_tick := Suc (w_tick w)\<rparr>" by blast
  with Suc.IH [of "Some x" w1] Suc.prems r e show ?case by auto
qed

lemma rename_retry_cases:
  assumes "rename_retry E s frm to w = (r, w')"
  obtains (moved) t where "r = None" "os_rename E frm to (w\<lparr>w_tick := t\<rparr>) = (None, w')"
    | (failed) t e where "r = Some e" "w' = w\<lparr>w_tick := t\<rparr>"
proof -
  obtain r1 w1 where l: "rename_loop E frm to (nat (sy_attempts s)) None w = (r1, w1)" by fastforce
  show thesis
  proof (cases r1)
    case None
    with assms l have "r = None" "w1 = w'" by (auto simp: rename_retry_def)
    with rename_loop_None [OF l [unfolded None]] moved show thesis by blast
  next
    case (Some e)
    with assms l have "r \<noteq> None" "w1 = w'" by (auto simp: rename_retry_def)
    with rename_loop_Some [OF l [unfolded Some]] failed show thesis by blast
  qed
qed

text \<open>A directory or file renamed to a free sibling name.\<close>

lemma rename_sibling:
  assumes run: "os_rename E a b w = (None, w')" and w: "wf w" and free: "look w b = None"
    and l: "layout dest tmp old partial" "a \<in> {dest, tmp, old, partial}" "b \<in> {dest, tmp, old, partial}" "a \<noteq> b"
  shows "wf w'" "tree_at w' b = tree_at w a" "look w' a = None"
    "c \<in> {dest, tmp, old, partial} \<Longrightarrow> c \<noteq> a \<Longrightarrow> c \<noteq> b \<Longrightarrow> tree_at w' c = tree_at w c"
proof -
  have pl: "plain_comp (last b)" using l(1,3) suffix_plain by (auto simp: layout_def)
  have "safe {} w (snd (os_rename E a b w))" using pl by (intro rename_keep) (simp_all add: clear_def)
  with run w show w': "wf w'" by (simp add: safe_def)
  show "tree_at w' b = tree_at w a" "look w' a = None" using os_rename_moves(1,2) [OF run _ l(4)] free by simp_all
  show "tree_at w' c = tree_at w c" if "c \<in> {dest, tmp, old, partial}" "c \<noteq> a" "c \<noteq> b"
  proof -
    have "safe (below c) w (snd (os_rename E a b w))"
      using layout_apart(2) [OF l(1) that(1) l(2)] layout_apart(2) [OF l(1) that(1) l(3)] that(2,3)
      by (intro rename_keep pl) simp_all
    with run w show ?thesis using safe_tree_at [of "below c" w w' c] by simp
  qed
qed

lemma sync_parts:
  assumes "sync_ok s"
  shows "sy_dest s \<noteq> sy_old s" "sy_tmp s \<noteq> sy_dest s" "sy_tmp s \<noteq> sy_old s" "sy_old s \<noteq> sy_dest s"
    "sy_dest s \<noteq> sy_tmp s" "sy_old s \<noteq> sy_tmp s"
  using layout_parts [OF assms [unfolded sync_ok_def]] by auto

lemma roll_back:
  assumes l: "sync_ok s" and w: "wf w" "look w (sy_dest s) = None" "look w (sy_old s) \<noteq> None"
    and run: "os_rename E (sy_old s) (sy_dest s) w = (r, w')"
  shows "live_of s w' = live_of s w" "wf w'"
proof -
  note l' = l [unfolded sync_ok_def]
  have "live_of s w' = live_of s w \<and> wf w'"
  proof (cases r)
    case None
    note mv = rename_sibling [OF run [unfolded None] w(1,2) l' _ _ sync_parts(4) [OF l]]
    have "tree_at w' (sy_dest s) [] \<noteq> None" using mv(2) w look_root [of w "sy_old s"] by simp
    then have "look w' (sy_dest s) \<noteq> None" using mv(1) look_root [of w' "sy_dest s"] by simp
    with mv w show ?thesis by (simp add: live_tree_def exists_def)
  next
    case (Some e)
    with os_rename_fails run have "w' = w\<lparr>w_tick := Suc (w_tick w)\<rparr>" by blast
    with w show ?thesis by simp
  qed
  then show "live_of s w' = live_of s w" "wf w'" by blast+
qed

text \<open>The second half, once the live tree, if there was one, is aside.\<close>

lemma swap_in_result:
  assumes l: "sync_ok s" and w: "wf w" "look w (sy_dest s) = None" "existed \<Longrightarrow> look w (sy_old s) \<noteq> None"
    and run: "swap_in E s existed w = (r, w')"
  shows "wf w' \<and> (case r of None \<Rightarrow> tree_at w' (sy_dest s) = tree_at w (sy_tmp s) | Some e \<Rightarrow> live_of s w' = live_of s w)"
proof -
  note l' = l [unfolded sync_ok_def]
  obtain r1 w1 where 1: "rename_retry E s (sy_tmp s) (sy_dest s) w = (r1, w1)" by fastforce
  then show ?thesis
  proof (cases rule: rename_retry_cases)
    case (moved t)
    note mv = rename_sibling [OF moved(2) _ _ l' _ _ sync_parts(2) [OF l], simplified, OF w(1,2)]
    let ?w2 = "if existed then snd (os_remove_all E (sy_old s) w1) else w1"
    have r: "r = None" "w' = sync_dir E (parent (sy_dest s)) ?w2"
      using run 1 moved(1) by (auto simp: swap_in_def Let_def)
    have "clear (below (sy_dest s)) (sy_old s)"
      using layout_apart(2) [OF l', of "sy_dest s" "sy_old s"] sync_parts(1) [OF l] by simp
    then have "safe (below (sy_dest s)) w1 ?w2" by (simp add: remove_all_keep keep.refl)
    moreover have "safe (below (sy_dest s)) ?w2 w'" unfolding r sync_dir_def by (rule open_keep)
    ultimately have s: "safe (below (sy_dest s)) w1 w'" by (rule keep.trans)
    have "tree_at w' (sy_dest s) = tree_at w1 (sy_dest s)" using safe_tree_at [OF s mv(1)] by simp
    with mv(2) r(1) safe_wf [OF s mv(1)] show ?thesis by simp
  next
    case (failed t e)
    have w1: "wf w1" "look w1 = look w" "live_of s w1 = live_of s w" using failed(2) w(1) by simp_all
    show ?thesis
    proof (cases existed)
      case True
      obtain r2 w2 where 2: "os_rename E (sy_old s) (sy_dest s) w1 = (r2, w2)" by fastforce
      have "r \<noteq> None" "w' = w2"
        using run 1 failed(1) 2 True by (auto simp: swap_in_def errors_join_def split: option.splits)
      moreover have "live_of s w2 = live_of s w1 \<and> wf w2"
        using roll_back [OF l w1(1) _ _ 2] w(2,3) True by (simp add: w1(2))
      ultimately show ?thesis using w1(3) by (auto split: option.splits)
    next
      case False
      with run 1 failed(1) have "r \<noteq> None" "w' = w1" by (auto simp: swap_in_def)
      with w1 show ?thesis by (auto split: option.splits)
    qed
  qed
qed

lemma swap_result:
  assumes l: "sync_ok s" and w: "wf w" "look w (sy_old s) = None" and run: "swap E s w = (r, w')"
  shows "wf w' \<and> (case r of None \<Rightarrow> tree_at w' (sy_dest s) = tree_at w (sy_tmp s) | Some e \<Rightarrow> live_of s w' = live_of s w)"
proof (cases "exists w (sy_dest s)")
  case True
  note l' = l [unfolded sync_ok_def]
  obtain r1 w1 where 1: "rename_retry E s (sy_dest s) (sy_old s) w = (r1, w1)" by fastforce
  then show ?thesis
  proof (cases rule: rename_retry_cases)
    case (moved t)
    note mv = rename_sibling [OF moved(2) _ _ l' _ _ sync_parts(1) [OF l], simplified, OF w]
    have tmp: "tree_at w1 (sy_tmp s) = tree_at w (sy_tmp s)" using mv(4) [of "sy_tmp s"] sync_parts [OF l] by simp
    have live: "live_of s w1 = live_of s w" using True mv(2,3) by (simp add: live_tree_def exists_def)
    have "look w1 (sy_old s) \<noteq> None"
      using True mv(1,2) w(1) look_root [of w "sy_dest s"] look_root [of w1 "sy_old s"] by (simp add: exists_def)
    moreover have "swap_in E s True w1 = (r, w')" using run 1 moved(1) True by (simp add: swap_def)
    ultimately show ?thesis using swap_in_result [OF l mv(1,3), of True E r w'] tmp live by (simp split: option.splits)
  next
    case (failed t e)
    then have "r = Some e" "w' = w\<lparr>w_tick := t\<rparr>" using run 1 True by (simp_all add: swap_def)
    with w show ?thesis by simp
  qed
next
  case False
  then have "swap_in E s False w = (r, w')" "look w (sy_dest s) = None" using run by (simp_all add: swap_def exists_def)
  with swap_in_result [OF l w(1), of False E r w'] show ?thesis by simp
qed

section \<open>One cycle converges or leaves the live tree alone\<close>

lemma give_up_result:
  assumes l: "sync_ok s" and w: "wf w" and run: "give_up E s err mm w = (r, w')"
  shows "wf w'" "safe (below (sy_dest s) \<union> below (sy_old s)) w w'"
    "\<exists>e mm'. r = Inl (e, mm') \<and> (mm' \<noteq> None \<longrightarrow> mm' = mm \<and> look w' (sy_tmp s) = None)"
proof -
  note l' = l [unfolded sync_ok_def]
  note p = layout_parts [OF l'] and k = layout_keeps [OF l']
  obtain e w1 where 1: "keep_staged E (sy_tmp s) (sy_partial s) w = (e, w1)" by fastforce
  have s: "safe (below (sy_dest s) \<union> below (sy_old s)) w w1"
    using keep_staged_keep [OF k(1,2) p(4,8), of w E] 1 by simp
  have w': "w' = w1" using run 1 by (auto simp: give_up_def split: option.splits)
  show "wf w'" "safe (below (sy_dest s) \<union> below (sy_old s)) w w'" using safe_wf [OF s w] s by (simp_all add: w')
  show "\<exists>e mm'. r = Inl (e, mm') \<and> (mm' \<noteq> None \<longrightarrow> mm' = mm \<and> look w' (sy_tmp s) = None)"
    using run 1 keep_staged_gone [of E "sy_tmp s" "sy_partial s" w w1] p(9)
    by (auto simp: give_up_def split: option.splits)
qed

lemma before_same: "run_before hook raw w = (r, w') \<Longrightarrow> same_fs w w'"
  by (auto simp: run_before_def same_fs_def split: prod.splits)

lemma same_fs_live: "same_fs w w' \<Longrightarrow> live_tree w' = live_tree w"
  by (intro ext) (simp add: live_tree_def exists_def same_fs_look same_fs_tree)

lemma go_live_result:
  assumes l: "sync_ok s" and w: "wf w" "look w (sy_old s) = None" and run: "go_live E s raw w = (r, w')"
  shows "wf w' \<and> (case r of None \<Rightarrow> tree_at w' (sy_dest s) = tree_at w (sy_tmp s) | Some e \<Rightarrow> live_of s w' = live_of s w)"
proof (cases "sy_before s")
  case None
  with run swap_result [OF l w] show ?thesis by (simp add: go_live_def)
next
  case (Some hook)
  obtain e w1 where b: "run_before hook raw w = (e, w1)" by fastforce
  note s = before_same [OF b]
  have w1: "wf w1" "look w1 (sy_old s) = None" "live_of s w1 = live_of s w" "tree_at w1 = tree_at w"
    using safe_wf [OF same_fs_safe [OF s] w(1)] same_fs_look [OF s] w(2) same_fs_live [OF s] same_fs_tree [OF s]
    by (simp_all add: fun_eq_iff)
  show ?thesis
  proof (cases e)
    case None
    then have "swap E s w1 = (r, w')" using run b Some by (simp add: go_live_def if_ok_def)
    from swap_result [OF l w1(1,2) this] w1 show ?thesis by (simp split: option.splits)
  next
    case e: (Some x)
    then have "r = Some x" "w' = w1" using run b Some by (simp_all add: go_live_def if_ok_def)
    with w1 show ?thesis by simp
  qed
qed

text \<open>What a cycle or a pull leaves behind, in terms of the live tree before it.\<close>

definition converged :: "platform \<Rightarrow> 's syncer \<Rightarrow> manifest \<Rightarrow> 's world \<Rightarrow> bool" where
  "converged P s m w \<longleftrightarrow> wf w \<and> valid_manifest P m \<and> tree_matches P m (tree_at w (sy_dest s))"

definition untouched :: "'s syncer \<Rightarrow> 's world \<Rightarrow> 's world \<Rightarrow> bool" where
  "untouched s w w' \<longleftrightarrow> wf w' \<and> live_of s w' = live_of s w"

lemma safe_untouched:
  "safe (below (sy_dest s) \<union> below (sy_old s)) w w' \<Longrightarrow> wf w \<Longrightarrow> untouched s w w'"
  by (simp add: untouched_def live_tree_safe safe_wf)

lemma hash_partial_same: "hash_partial E s w = (r, w') \<Longrightarrow> same_fs w w'"
  by (auto simp: hash_partial_def split: prod.splits sum.splits dest: hash_tree_same)

lemma verify_walk_same: "verify_walk E root want p d err seen w = (c, w') \<Longrightarrow> same_fs w w'"
proof -
  show "verify_walk E root want p d err seen w = (c, w') \<Longrightarrow> same_fs w w'"
    by (auto simp: verify_walk_def verify_entry_def Let_def same.refl split: option.splits prod.splits bool.splits if_splits
        dest!: verify_file_same intro: same.trans [OF same.sys_step])
qed

lemma verify_tree_same: "verify_tree E root m w = (r, w') \<Longrightarrow> same_fs w w'"
  by (auto simp: verify_tree_def Let_def same.refl split: if_splits option.splits sum.splits prod.splits
      dest!: same.walk_dir_step [rotated, OF _ verify_walk_same])

lemma same_untouched: "same_fs w w' \<Longrightarrow> wf w \<Longrightarrow> untouched s w w'"
  by (rule safe_untouched [OF same_fs_safe])

lemma untouched_trans: "untouched s w w1 \<Longrightarrow> untouched s w1 w2 \<Longrightarrow> untouched s w w2"
  by (simp add: untouched_def)

text \<open>The outcome of a cycle: the manifest's tree, or the live tree as it was; a mismatch that
  may be retried leaves neither a staging tree nor an old tree.\<close>

definition outcome ::
  "platform \<Rightarrow> 's syncer \<Rightarrow> bytes \<Rightarrow> manifest \<Rightarrow> gerr \<times> (string \<times> string) option + pull_result \<Rightarrow> 's world \<Rightarrow> 's world \<Rightarrow> bool" where
  "outcome P s raw m r w w' \<longleftrightarrow>
     (case r of
        Inr res \<Rightarrow> pr_manifest res = raw \<and> converged P s m w'
      | Inl (e, mm) \<Rightarrow> untouched s w w' \<and> (mm \<noteq> None \<longrightarrow> look w' (sy_tmp s) = None \<and> look w' (sy_old s) = None))"

lemma give_up_outcome:
  assumes l: "sync_ok s" and u: "safe (below (sy_dest s) \<union> below (sy_old s)) w w1" and w: "wf w" "look w (sy_old s) = None"
    and run: "give_up E s err mm w1 = (r, w')"
  shows "outcome P s raw m r w w'"
proof -
  note g = give_up_result [OF l safe_wf [OF u w(1)] run]
  have s: "safe (below (sy_dest s) \<union> below (sy_old s)) w w'" using u g(2) by (rule keep.trans)
  have "look w' (sy_old s) = None" using safe_gone [OF s w(1), of "sy_old s"] w(2) by simp
  with safe_untouched [OF s w(1)] g(3) show ?thesis by (auto simp: outcome_def)
qed

lemma give_up_untouched:
  assumes l: "sync_ok s" and u: "untouched s w w1" and run: "give_up E s err None w1 = (r, w')"
  shows "outcome P s raw m r w w'"
proof -
  have w1: "wf w1" using u by (simp add: untouched_def)
  note g = give_up_result [OF l w1 run]
  have "untouched s w w'" using untouched_trans [OF u safe_untouched [OF g(2) w1]] .
  with g(3) show ?thesis by (auto simp: outcome_def)
qed

context fetcher
begin

lemma replace_outcome:
  assumes s: "sy_fetch s = fetch" "sy_tmp s = tmp" and o: "\<And>js. set (sy_order s js) = set js" and l: "sync_ok s"
    and m: "valid_manifest (plat E) m" and w: "wf w" "look w (sy_old s) = None"
    and run: "replace E s raw m w = (r, w')"
  shows "outcome (plat E) s raw m r w w'"
proof (cases "check_content_size s m")
  case (Some e)
  moreover have "untouched s w w" using same.refl w(1) by (rule same_untouched)
  ultimately show ?thesis using run by (auto simp: replace_def outcome_def)
next
  case cs: None
  let ?S = "below (sy_dest s) \<union> below (sy_old s)"
  note l' = l [unfolded sync_ok_def]
  note p = layout_parts [OF l'] and k = layout_keeps [OF l']
  obtain r1 w1 where 1: "hash_tree E (sy_dest s) [] w = (r1, w1)" by fastforce
  note same1 = hash_tree_same [OF 1]
  show ?thesis
  proof (cases r1)
    case (Inl e)
    have "untouched s w w1" using same1 w(1) by (rule same_untouched)
    with Inl run cs 1 show ?thesis by (auto simp: replace_def outcome_def)
  next
    case (Inr live)
    obtain index w2 where 2: "hash_partial E s w1 = (index, w2)" by fastforce
    have s2: "safe ?S w w2" by (rule same_fs_safe [OF same.trans [OF same1 hash_partial_same [OF 2]]])
    obtain r3 w3 where 3: "stage E s m live index w2 = (r3, w3)" by fastforce
    have "safe ?S w2 (snd (stage E s m live index w2))"
      using m k(1,2) p(2,4,6)
      by (intro stage_keep [OF s o]) (auto simp: s(2) [symmetric] valid_manifest_def list_all_iff entry_ok_def is_sha256_iff path_ok_plain)
    with 3 have s3: "safe ?S w w3" using keep.trans [OF s2] by simp
    have w3: "wf w3" "look w3 (sy_old s) = None" "live_of s w3 = live_of s w"
      using safe_wf [OF s3 w(1)] safe_gone [OF s3 w(1), of "sy_old s"] w(2) live_tree_safe [OF s3 w(1)] by simp_all
    show ?thesis
    proof (cases r3)
      case (Inl e)
      with run cs 1 Inr 2 3 have "give_up E s e (as_mismatch e) w3 = (r, w')" by (simp add: replace_def)
      then show ?thesis by (rule give_up_outcome [OF l s3 w])
    next
      case st: (Inr st)
      obtain r4 w4 where 4: "verify_tree E (sy_tmp s) m w3 = (r4, w4)" by fastforce
      note same4 = verify_tree_same [OF 4]
      have w4: "wf w4" "look w4 (sy_old s) = None" "live_of s w4 = live_of s w" "tree_at w4 = tree_at w3"
        using safe_wf [OF same_fs_safe [OF same4] w3(1)] same_fs_look [OF same4] w3 same_fs_live [OF same4] same_fs_tree [OF same4]
        by (simp_all add: fun_eq_iff)
      then have u4: "untouched s w w4" by (simp add: untouched_def)
      show ?thesis
      proof (cases r4)
        case (Some e)
        with run cs 1 Inr 2 3 st 4 have "give_up E s e None w4 = (r, w')" by (simp add: replace_def)
        then show ?thesis by (rule give_up_untouched [OF l u4])
      next
        case None
        have t: "tree_matches (plat E) m (tree_at w4 (sy_tmp s))"
          using verify_tree_accepts(3) [OF 4 [unfolded None] w3(1)] by (simp add: w4(4))
        obtain r5 w5 where 5: "go_live E s raw w4 = (r5, w5)" by fastforce
        note g = go_live_result [OF l w4(1,2) 5]
        show ?thesis
        proof (cases r5)
          case (Some e)
          with g w4(3) have "untouched s w w5" by (simp add: untouched_def)
          moreover have "give_up E s e None w5 = (r, w')"
            using run cs 1 Inr 2 3 st 4 None 5 Some by (simp add: replace_def if_ok_def)
          ultimately show ?thesis by (rule give_up_untouched [OF l])
        next
          case r5: None
          then have "w' = w5" "r = Inr \<lparr>pr_stats = st\<lparr>st_total := length (files_of m)\<rparr>, pr_manifest = raw\<rparr>"
            using run cs 1 Inr 2 3 st 4 None 5 by (simp_all add: replace_def if_ok_def)
          with g r5 t m show ?thesis by (simp add: outcome_def converged_def)
        qed
      qed
    qed
  qed
qed

lemma pull_attempts_outcome:
  assumes s: "sy_fetch s = fetch" "sy_tmp s = tmp" and o: "\<And>js. set (sy_order s js) = set js" and l: "sync_ok s"
  shows "pull_attempts E get s n first path w = (r, w') \<Longrightarrow> wf w \<Longrightarrow> look w (sy_old s) = None \<Longrightarrow>
    (case r of
       Inr res \<Rightarrow> \<exists>m. decode (plat E) (pr_manifest res) = Inr m \<and> converged (plat E) s m w'
     | Inl e \<Rightarrow> untouched s w w')"
proof (induction n arbitrary: first path w)
  case 0
  then show ?case using same_untouched [OF same.refl] by auto
next
  case (Suc n)
  obtain e1 w1 where 1: "(if first then (None, w) else sleep_ctx E w) = (e1, w1)" by fastforce
  have s1: "same_fs w w1"
    using 1 by (auto simp: sleep_ctx_def sys_def same_fs_def split: if_splits prod.splits bool.splits)
  obtain r2 w2 where 2: "fetch_manifest get (plat E) s w1 = (r2, w2)" by fastforce
  have s2: "same_fs w1 w2"
    using 2 by (auto simp: fetch_manifest_def Let_def dest!: s3_call_same split: prod.splits sum.splits if_splits)
  have s12: "same_fs w w2" using s1 s2 by (rule same.trans)
  have u: "untouched s w w1" "untouched s w w2" using same_untouched [OF s1] same_untouched [OF s12] Suc.prems(2) by simp_all
  have w2: "wf w2" "look w2 (sy_old s) = None"
    using u(2) same_fs_look [OF s12] Suc.prems(3) by (simp_all add: untouched_def)
  show ?case
  proof (cases e1)
    case (Some e)
    with Suc.prems(1) 1 u(1) show ?thesis by auto
  next
    case e1: None
    show ?thesis
    proof (cases r2)
      case (Inl e)
      with Suc.prems(1) 1 e1 2 u(2) show ?thesis by (auto simp: sync_once_def)
    next
      case (Inr rm)
      obtain raw m where rm: "rm = (raw, m)" by fastforce
      have dec: "decode (plat E) raw = Inr m"
        using 2 Inr rm by (auto simp: fetch_manifest_def Let_def split: prod.splits sum.splits if_splits)
      obtain r3 w3 where 3: "replace E s raw m w2 = (r3, w3)" by fastforce
      have out: "outcome (plat E) s raw m r3 w2 w3"
        using replace_outcome [OF s o l _ w2 3] decode_valid [OF dec] by simp
      have so: "sync_once E get s w1 = (r3, w3)" using 2 Inr rm 3 by (simp add: sync_once_def)
      show ?thesis
      proof (cases r3)
        case (Inr res)
        with Suc.prems(1) 1 e1 so out dec show ?thesis by (auto simp: outcome_def)
      next
        case (Inl em)
        obtain e mm where em: "em = (e, mm)" by fastforce
        have u3: "untouched s w w3" using out Inl em untouched_trans [OF u(2)] by (simp add: outcome_def)
        show ?thesis
        proof (cases mm)
          case None
          with Suc.prems(1) 1 e1 so Inl em u3 show ?thesis by auto
        next
          case (Some pd)
          obtain p d where pd: "pd = (p, d)" by fastforce
          have "pull_attempts E get s n False p w3 = (r, w')"
            using Suc.prems(1) 1 e1 so Inl em Some pd by simp
          moreover have "look w3 (sy_old s) = None" using out Inl em Some by (simp add: outcome_def)
          ultimately show ?thesis
            using Suc.IH [of False p w3] u3 untouched_trans [OF u3] by (auto simp: untouched_def split: sum.splits)
        qed
      qed
    qed
  qed
qed

end

section \<open>The entry points\<close>

lemma new_syncer_Inr:
  assumes "new_syncer order dest opts = Inr s"
  shows "sy_dest s = dest" "sy_tmp s = sibling dest tmp_suffix" "sy_old s = sibling dest old_suffix"
    "sy_partial s = sibling dest partial_suffix" "sy_order s = order"
  using assms by (auto simp: new_syncer_def split: if_splits)

lemma pull_with_manifest_result:
  assumes run: "pull_with_manifest E order get bucket pre dest opts w = (r, w')" and w: "wf w"
    and dest: "dest \<noteq> []" "plain_comps dest" and o: "\<And>js. set (order js) = set js"
  shows "case r of
      Inr res \<Rightarrow> \<exists>m. decode (plat E) (pr_manifest res) = Inr m \<and> tree_matches (plat E) m (tree_at w' dest) \<and> wf w'
    | Inl e \<Rightarrow> wf w' \<and> live_tree w' dest (sibling dest old_suffix) = live_tree w dest (sibling dest old_suffix)"
proof (cases "new_syncer order dest opts")
  case (Inl e)
  with run w show ?thesis by (auto simp: pull_with_manifest_def)
next
  case (Inr s0)
  let ?s = "s3_syncer E get bucket pre s0"
  note n = new_syncer_Inr [OF Inr]
  have l: "sync_ok ?s" using layout_siblings [OF dest] by (simp add: sync_ok_def s3_syncer_def n)
  have p: "sy_dest ?s = dest" "sy_tmp ?s = sy_tmp s0" "sy_old ?s = sibling dest old_suffix" "sy_order ?s = order"
      "sy_fetch ?s = download E get bucket (trim_suffix pre ''/'') (sy_tmp s0)"
    by (simp_all add: s3_syncer_def n)
  obtain e1 w1 where 1: "recover_interrupted E (sy_dest ?s) (sy_tmp ?s) (sy_old ?s) (sy_partial ?s) w = (e1, w1)" by fastforce
  note rec = recover_interrupted_live [OF 1 w l [unfolded sync_ok_def]]
  show ?thesis
  proof (cases e1)
    case (Some e)
    with run Inr 1 rec(1,2) show ?thesis by (auto simp: pull_with_manifest_def Let_def p)
  next
    case None
    then have "pull_attempts E get ?s (nat (if op_mismatch_retries opts = 0 then 3 else op_mismatch_retries opts)) True [] w1 = (r, w')"
      using run Inr 1 by (simp add: pull_with_manifest_def Let_def)
    moreover have "look w1 (sy_old ?s) = None" using rec(3) None by blast
    ultimately have "case r of Inr res \<Rightarrow> \<exists>m. decode (plat E) (pr_manifest res) = Inr m \<and> converged (plat E) ?s m w'
        | Inl e \<Rightarrow> untouched ?s w1 w'"
      using s3.pull_attempts_outcome [OF p(5,2) _ l _ rec(2)] o p(4) by simp
    with rec(1) show ?thesis by (auto simp: converged_def untouched_def p split: sum.splits)
  qed
qed

section \<open>Bounds\<close>

lemma os_rename_tick: "os_rename E frm to w = (r, w') \<Longrightarrow> w_tick w' = Suc (w_tick w)"
  by (auto simp: os_rename_def sys_def Let_def move_names_def split: if_splits option.splits)

lemma rename_loop_ticks: "rename_loop E frm to n err w = (r, w') \<Longrightarrow> w_tick w' \<le> w_tick w + n"
proof (induction n arbitrary: err w)
  case (Suc n)
  obtain e w1 where 1: "os_rename E frm to w = (e, w1)" by fastforce
  note t = os_rename_tick [OF 1]
  show ?case
  proof (cases e)
    case None
    with Suc.prems 1 t show ?thesis by simp
  next
    case (Some x)
    with Suc.prems 1 have "rename_loop E frm to n (Some x) w1 = (r, w')" by simp
    from Suc.IH [OF this] t show ?thesis by simp
  qed
qed simp

lemma content_fits_sum:
  assumes "list_all (\<lambda>f. 0 \<le> f_size f) fs" "0 \<le> acc" "acc \<le> lim" "lim \<le> max_int64"
  shows "content_fits lim acc fs \<longleftrightarrow> acc + sum_list (map f_size fs) \<le> lim"
  using assms(1-3)
proof (induction fs arbitrary: acc)
  case Nil
  then show ?case by simp
next
  case (Cons f fs)
  have 1: "wrap64 (lim - acc) = lim - acc" using Cons.prems assms(4) by (intro wrap64_id) (simp add: is_int64_def max_int64_def)
  show ?case
  proof (cases "f_size f \<le> lim - acc")
    case True
    then have 2: "wrap64 (acc + f_size f) = acc + f_size f"
      using Cons.prems assms(4) by (intro wrap64_id) (simp add: is_int64_def max_int64_def)
    show ?thesis using Cons.IH [of "acc + f_size f"] Cons.prems True 1 2 by (simp add: algebra_simps)
  next
    case False
    have "0 \<le> sum_list (map f_size fs)" using Cons.prems(1) by (intro sum_list_nonneg) (auto simp: list_all_iff)
    with False 1 show ?thesis by simp
  qed
qed

lemma decode_empty: "\<exists>e. decode P [] = Inl e"
  by (simp add: decode_def decode_value_def run_json.simps next_token_def)

lemma fetch_manifest_max:
  assumes "sy_max_manifest s = max_int64"
  shows "\<exists>e. fst (fetch_manifest get P s w) = Inl e"
proof -
  have w: "wrap64 (sy_max_manifest s + 1) < 0" unfolding assms by (simp add: wrap64_def max_int64_def)
  then have n: "nat (wrap64 (sy_max_manifest s + 1)) = 0" by simp
  obtain e where e: "decode P [] = Inl e" using decode_empty by blast
  have "io_read r (wrap64 (sy_max_manifest s + 1)) = Inr []" for r :: reader
    by (simp add: io_read_def n split: option.splits)
  then show ?thesis
    using e by (auto simp: fetch_manifest_def Let_def assms [symmetric] split: prod.splits sum.splits)
qed

section \<open>One prefix for one content\<close>

lemma plan_jobs_resume:
  assumes "plan_jobs P client m live partial fs claimed = Inr (loc, rem)" "set fs \<subseteq> set (files_of m)"
  shows "distinct (map (f_sha256 \<circ> j_file) [j \<leftarrow> rem. j_resume j]) \<and>
    (\<forall>j \<in> set rem. j_resume j \<longrightarrow> f_sha256 (j_file j) \<notin> set claimed \<and> min_resume_size \<le> f_size (j_file j)) \<and>
    (\<forall>j \<in> set loc. \<not> j_resume j)"
  using assms
proof (induction fs arbitrary: claimed loc rem)
  case Nil
  then show ?case by simp
next
  case (Cons f fs)
  obtain act mode where c: "classify P f live partial = Inr (act, mode)"
    using Cons.prems(1) by (auto split: sum.splits)
  obtain res claimed' where r: "(if act = ActDownload \<and> client then resumable m f claimed else (False, claimed)) = (res, claimed')"
    by fastforce
  obtain loc' rem' where p: "plan_jobs P client m live partial fs claimed' = Inr (loc', rem')"
    using Cons.prems(1) c r by (auto simp: Let_def split: sum.splits)
  note ih = Cons.IH [OF p]
  have res: "res \<Longrightarrow> act = ActDownload \<and> f_sha256 f \<notin> set claimed \<and> min_resume_size \<le> f_size f \<and> claimed' = f_sha256 f # claimed"
    using r resumable_True [of m f claimed claimed'] Cons.prems(2) by (auto split: if_splits)
  have nres: "\<not> res \<Longrightarrow> claimed' = claimed"
    using r by (auto simp: resumable_def split: if_splits)
  show ?case
  proof (cases res)
    case True
    note yes = res [OF True]
    define j where "j = \<lparr>j_file = f, j_act = ActDownload, j_mode = mode, j_live = live_mode live (f_path f),
      j_in_live = False, j_resume = True\<rparr>"
    have l: "rem = j # rem'" "loc = loc'"
      using Cons.prems(1) c r p True yes by (simp_all add: Let_def j_def)
    have s: "set fs \<subseteq> set (files_of m)" using Cons.prems(2) by simp
    note ih = ih [OF s]
    have j: "j_file j = f" "j_resume j" by (simp_all add: j_def)
    have "f_sha256 f \<noteq> f_sha256 (j_file k)" if "k \<in> set rem'" "j_resume k" for k
      using ih that yes by auto
    then have "f_sha256 f \<notin> set (map (f_sha256 \<circ> j_file) [j \<leftarrow> rem'. j_resume j])" by auto
    moreover have "f_sha256 (j_file k) \<notin> set claimed \<and> min_resume_size \<le> f_size (j_file k)"
      if "k \<in> set rem" "j_resume k" for k
      using ih that yes l j by auto
    ultimately show ?thesis using ih unfolding l by (simp add: j)
  next
    case False
    with nres Cons.prems(1,2) c r p ih show ?thesis by (auto simp: Let_def split: if_splits)
  qed
qed

section \<open>The abstract operation\<close>

text \<open>
  What a replacement promises, on trees alone: a result carries the bytes of a manifest and
  the new tree is that manifest's; an error leaves the tree as it was.
\<close>

definition replace_spec ::
  "platform \<Rightarrow> pull_result res \<Rightarrow> (fpath \<Rightarrow> entry option) \<Rightarrow> (fpath \<Rightarrow> entry option) \<Rightarrow> bool" where
  "replace_spec P r t t' \<longleftrightarrow>
     (case r of
        Inr res \<Rightarrow> \<exists>m. decode P (pr_manifest res) = Inr m \<and> tree_matches P m t'
      | Inl e \<Rightarrow> t' = t)"

text \<open>The concrete state seen by that operation: the live tree of a destination.\<close>

definition live_at :: "'s world \<Rightarrow> fpath \<Rightarrow> fpath \<Rightarrow> entry option" where
  "live_at w dest = live_tree w dest (sibling dest old_suffix)"

lemma live_at_matches:
  "tree_matches P m (tree_at w dest) \<Longrightarrow> live_at w dest = tree_at w dest"
  using tree_at_Dir_iff [of w dest "[]"] by (simp add: live_at_def live_tree_def exists_def tree_matches_def)

lemma pull_replaces:
  assumes "pull_with_manifest E order get bucket pre dest opts w = (r, w')" "wf w"
    and "dest \<noteq> []" "plain_comps dest" "\<And>js. set (order js) = set js"
  shows "wf w'" "replace_spec (plat E) r (live_at w dest) (live_at w' dest)"
  using pull_with_manifest_result [OF assms]
  by (auto simp: replace_spec_def live_at_def [symmetric] live_at_matches split: sum.splits)

section \<open>A pull whose manifest limit is the largest integer\<close>

lemma pull_max_manifest:
  assumes "op_max_manifest opts = max_int64"
  shows "\<exists>e. fst (pull_with_manifest E order get bucket pre dest opts w) = Inl e"
proof (cases "new_syncer order dest opts")
  case (Inl e)
  then show ?thesis by (simp add: pull_with_manifest_def)
next
  case (Inr s0)
  let ?s = "s3_syncer E get bucket pre s0"
  have m: "sy_max_manifest ?s = max_int64"
    using Inr assms by (auto simp: new_syncer_def s3_syncer_def max_int64_def split: if_splits)
  have so: "\<exists>e w2. sync_once E get ?s w1 = (Inl (e, None), w2)" for w1
    using fetch_manifest_max [OF m, of get "plat E" w1] by (auto simp: sync_once_def split: prod.splits)
  have "\<exists>e. fst (pull_attempts E get ?s n True [] w1) = Inl e" for n w1
    using so [of w1] by (cases n) auto
  then show ?thesis using Inr by (simp add: pull_with_manifest_def Let_def split: prod.splits option.splits)
qed

lemma check_content_size_sum:
  assumes "valid_manifest P m" "0 \<le> sy_max_content s" "sy_max_content s \<le> max_int64"
  shows "check_content_size s m = None \<longleftrightarrow> sum_list (map f_size (files_of m)) \<le> sy_max_content s"
proof -
  have "list_all (\<lambda>f. 0 \<le> f_size f) (files_of m)"
    using assms(1) by (auto simp: valid_manifest_def entry_ok_def list_all_iff)
  from content_fits_sum [OF this _ assms(2,3)] show ?thesis by (simp add: check_content_size_def)
qed

end
