(* ===== verification/PullDirectory.thy ===== *)
theory PullDirectory
  imports PullSync
begin

text \<open>
  \<open>pkg/pull/directory.go\<close>: replacing a tree from a local directory. \<open>real\<close> is
  \<open>filepath.EvalSymlinks\<close>, an argument of the definitions: the operating system's
  resolution of links, for existing paths. The lemmas show the same promise as for a pull,
  and that the source is only read when no link leads anywhere.
\<close>

type_synonym 's real_fn = "'s world \<Rightarrow> fpath \<Rightarrow> fpath option"

text \<open>\<open>os.Stat\<close> and \<open>os.SameFile\<close>.\<close>

definition os_stat :: "'s real_fn \<Rightarrow> 's world \<Rightarrow> fpath \<Rightarrow> (fpath \<times> node) option" where
  "os_stat real w p =
     (case real w p of None \<Rightarrow> None | Some q \<Rightarrow> (case look w q of None \<Rightarrow> None | Some n \<Rightarrow> Some (q, n)))"

definition same_file :: "fpath \<times> node \<Rightarrow> fpath \<times> node \<Rightarrow> bool" where
  "same_file a b \<longleftrightarrow> (if is_reg (snd a) then snd b = snd a else fst b = fst a)"

text \<open>\<open>resolve\<close>, from \<open>q\<close> upwards; \<open>rest\<close> is what was taken off \<open>p\<close>.\<close>

function resolve_from :: "'s real_fn \<Rightarrow> 's world \<Rightarrow> fpath \<Rightarrow> fpath \<Rightarrow> fpath \<Rightarrow> fpath" where
  "resolve_from real w p q rest =
     (case real w q of
        Some r \<Rightarrow> r @ rest
      | None \<Rightarrow> if q = [] then p else resolve_from real w p (butlast q) (last q # rest))"
  by pat_completeness auto
termination
  by (relation "measure (\<lambda>(real, w, p, q, rest). length q)") auto

declare resolve_from.simps [simp del]

definition resolve :: "'s real_fn \<Rightarrow> 's world \<Rightarrow> fpath \<Rightarrow> fpath" where
  "resolve real w p = resolve_from real w p p []"

definition within :: "'s real_fn \<Rightarrow> 's world \<Rightarrow> fpath \<Rightarrow> fpath \<Rightarrow> bool" where
  "within real w p outer =
     (case os_stat real w outer of
        None \<Rightarrow> False
      | Some oi \<Rightarrow>
          list_ex (\<lambda>q. list_ex (\<lambda>a. case os_stat real w a of None \<Rightarrow> False | Some qi \<Rightarrow> same_file oi qi) (rev (prefixes q)))
            [p, resolve real w p])"

definition overlaps :: "'s real_fn \<Rightarrow> 's world \<Rightarrow> fpath \<Rightarrow> fpath list \<Rightarrow> bool" where
  "overlaps real w source ps \<longleftrightarrow> list_ex (\<lambda>p. within real w source p \<or> within real w p source) ps"

definition dir_syncer :: "os_env \<Rightarrow> fpath \<Rightarrow> 's syncer \<Rightarrow> 's syncer" where
  "dir_syncer E source s = s\<lparr>sy_source := source, sy_fetch := copy_from_source_fn E source\<rparr>"

definition replace_from_directory ::
  "os_env \<Rightarrow> 's real_fn \<Rightarrow> (job list \<Rightarrow> job list) \<Rightarrow> fpath \<Rightarrow> fpath \<Rightarrow> bytes \<Rightarrow> 's options \<Rightarrow> 's world
   \<Rightarrow> pull_result res \<times> 's world" where
  "replace_from_directory E real order source dest raw opts w =
     (case new_syncer order dest opts of
        Inl e \<Rightarrow> (Inl e, w)
      | Inr s0 \<Rightarrow>
          if int (length raw) > sy_max_manifest s0
          then (Inl (E_new ''pull: manifest exceeds the %d-byte manifest limit'' []), w)
          else (case decode (plat E) raw of
                  Inl e \<Rightarrow> (Inl e, w)
                | Inr m \<Rightarrow>
                    (case os_stat real w source of
                       None \<Rightarrow> (Inl (E_wrap ''pull: source: %w'' [] [E_os ENOENT]), w)
                     | Some (q, n) \<Rightarrow>
                         if n \<noteq> Dir then (Inl (E_new ''pull: source %s is not a directory'' []), w)
                         else if overlaps real w source (dest # siblings dest)
                         then (Inl (E_new ''pull: source %s overlaps %s'' []), w)
                         else (let s = dir_syncer E source s0
                               in case recover_interrupted E (sy_dest s) (sy_tmp s) (sy_old s) (sy_partial s) w of
                                    (Some e, w) \<Rightarrow> (Inl e, w)
                                  | (None, w) \<Rightarrow>
                                      (case replace E s raw m w of
                                         (Inl (e, mm), w) \<Rightarrow> (Inl e, w)
                                       | (Inr res, w) \<Rightarrow> (Inr res, w))))))"

section \<open>The promise\<close>

text \<open>Either nothing was done, or recovery ran and a cycle followed it.\<close>

lemma replace_from_directory_cases:
  assumes "replace_from_directory E real order source dest raw opts w = (r, w')"
  obtains (nothing) e where "r = Inl e" "w' = w"
    | (run) s0 m q where "new_syncer order dest opts = Inr s0" "decode (plat E) raw = Inr m"
      "os_stat real w source = Some (q, Dir)" "\<not> overlaps real w source (dest # siblings dest)"
      "(let s = dir_syncer E source s0
        in case recover_interrupted E (sy_dest s) (sy_tmp s) (sy_old s) (sy_partial s) w of
             (Some e, w) \<Rightarrow> (Inl e, w)
           | (None, w) \<Rightarrow> (case replace E s raw m w of (Inl (e, mm), w) \<Rightarrow> (Inl e, w) | (Inr res, w) \<Rightarrow> (Inr res, w)))
       = (r, w')"
  using assms unfolding replace_from_directory_def
  by (cases "new_syncer order dest opts"; cases "decode (plat E) raw"; cases "os_stat real w source")
    (auto split: if_splits)

lemma replace_from_directory_result:
  assumes run: "replace_from_directory E real order source dest raw opts w = (r, w')" and w: "wf w"
    and dest: "dest \<noteq> []" "plain_comps dest" and o: "\<And>js. set (order js) = set js"
  shows "case r of
      Inr res \<Rightarrow> pr_manifest res = raw \<and> (\<exists>m. decode (plat E) raw = Inr m \<and> tree_matches (plat E) m (tree_at w' dest)) \<and> wf w'
    | Inl e \<Rightarrow> wf w' \<and> live_tree w' dest (sibling dest old_suffix) = live_tree w dest (sibling dest old_suffix)"
  using run
proof (cases rule: replace_from_directory_cases)
  case (nothing e)
  with w show ?thesis by simp
next
  case c: (run s0 m q)
  let ?s = "dir_syncer E source s0"
  note n = new_syncer_Inr [OF c(1)]
  have l: "sync_ok ?s" using layout_siblings [OF dest] by (simp add: sync_ok_def dir_syncer_def n)
  have p: "sy_dest ?s = dest" "sy_old ?s = sibling dest old_suffix" "sy_order ?s = order"
      "sy_fetch ?s = copy_from_source_fn E source"
    by (simp_all add: dir_syncer_def n)
  obtain e1 w1 where 1: "recover_interrupted E (sy_dest ?s) (sy_tmp ?s) (sy_old ?s) (sy_partial ?s) w = (e1, w1)" by fastforce
  note rec = recover_interrupted_live [OF 1 w l [unfolded sync_ok_def]]
  show ?thesis
  proof (cases e1)
    case (Some e)
    with c(5) 1 rec(1,2) show ?thesis by (auto simp: Let_def p)
  next
    case None
    obtain r2 w2 where 2: "replace E ?s raw m w1 = (r2, w2)" by fastforce
    have "look w1 (sy_old ?s) = None" using rec(3) None by blast
    then have out: "outcome (plat E) ?s raw m r2 w1 w2"
      using dir.replace_outcome [OF p(4) refl _ l _ rec(2) _ 2] o p(3) decode_valid [OF c(2)] by simp
    have "w' = w2 \<and> r = (case r2 of Inl (e, mm) \<Rightarrow> Inl e | Inr res \<Rightarrow> Inr res)"
      using c(5) 1 None 2 by (auto simp: Let_def split: sum.splits prod.splits)
    with out rec(1) c(2) show ?thesis
      by (auto simp: outcome_def converged_def untouched_def p split: sum.splits prod.splits)
  qed
qed

section \<open>The source is only read\<close>

text \<open>No symbolic link leads anywhere: every existing path is its own resolution.\<close>

definition link_free :: "'s real_fn \<Rightarrow> 's world \<Rightarrow> bool" where
  "link_free real w \<longleftrightarrow> (\<forall>p. real w p = (if exists w p then Some p else None))"

lemma within_prefix:
  assumes "link_free real w" "look w outer = Some Dir" "prefix outer p"
  shows "within real w p outer"
proof -
  have "os_stat real w outer = Some (outer, Dir)"
    using assms by (simp add: os_stat_def link_free_def exists_def)
  then show ?thesis
    using assms(3) by (auto simp: within_def list_ex_iff same_file_def is_reg_def intro!: bexI [of _ outer])
qed

lemma not_overlaps_apart:
  assumes lf: "link_free real w" and w: "wf w" and src: "look w source = Some Dir"
    and no: "\<not> overlaps real w source ps" and p: "p \<in> set ps"
  shows "apart (below source) p"
proof -
  have n: "\<not> within real w source p" "\<not> within real w p source" using no p by (auto simp: overlaps_def list_ex_iff)
  have 1: "\<not> prefix source p" using within_prefix [OF lf src] n(2) by blast
  have 2: "\<not> prefix p source"
  proof
    assume pre: "prefix p source"
    then obtain r where r: "source = p @ r" by (auto simp: prefix_def)
    have "look w p = Some Dir" using wf_above [OF w, of p r Dir] src r by (cases "r = []") auto
    with within_prefix [OF lf _ pre] n(1) show False by blast
  qed
  show ?thesis
    unfolding apart_def using 1 2 by (auto dest: prefix_same_cases intro: prefix_order.trans)
qed

lemma rename_loop_keep:
  assumes "clear S frm" "clear S to" "plain_comp (last to)"
  shows "safe S w (snd (rename_loop E frm to n err w))"
proof (induction n arbitrary: err w)
  case 0
  then show ?case by (simp add: keep.refl)
next
  case (Suc n)
  show ?case
    unfolding rename_loop.simps
    by (intro keep.case_err_step rename_keep assms Suc.IH keep.done_step keep.refl)
qed

lemma rename_retry_keep:
  assumes "clear S frm" "clear S to" "plain_comp (last to)"
  shows "safe S w (snd (rename_retry E s frm to w))"
proof -
  obtain r w1 where l: "rename_loop E frm to (nat (sy_attempts s)) None w = (r, w1)" by fastforce
  then have "safe S w w1" using rename_loop_keep [OF assms, of w E "nat (sy_attempts s)" None] by simp
  with l show ?thesis by (simp add: rename_retry_def split: option.splits)
qed

definition all_apart :: "fpath set \<Rightarrow> 's syncer \<Rightarrow> bool" where
  "all_apart S s \<longleftrightarrow> (\<forall>p \<in> {sy_dest s, sy_tmp s, sy_old s, sy_partial s}. apart S p)"

lemma all_apartD:
  assumes "all_apart S s"
  shows "apart S (sy_tmp s)" "apart S (sy_partial s)" "clear S (sy_dest s)" "clear S (sy_tmp s)" "clear S (sy_old s)" "clear S (sy_partial s)"
  using assms by (auto simp: all_apart_def intro: apart_clear)

lemma sync_ends:
  assumes "sync_ok s"
  shows "plain_comp (last (sy_dest s))" "plain_comp (last (sy_old s))"
proof -
  note p = layout_parts [OF assms [unfolded sync_ok_def]]
  show "plain_comp (last (sy_dest s))" by (rule suffix_plain [OF p(1,5)])
  show "plain_comp (last (sy_old s))" by (rule suffix_plain [OF p(3,7)])
qed

lemma swap_keep:
  assumes a: "all_apart S s" and l: "sync_ok s"
  shows "safe S w (snd (swap E s w))"
proof -
  note c = all_apartD(3-6) [OF a]
  have "safe S w1 (sync_dir E d w1)" for d and w1 :: "'a world"
    unfolding sync_dir_def by (rule open_keep)
  moreover have "safe S w1 (if existed then snd (os_remove_all E (sy_old s) w1) else w1)" for existed and w1 :: "'a world"
    by (simp add: remove_all_keep c keep.refl)
  ultimately have fin: "safe S w1 (sync_dir E d (if existed then snd (os_remove_all E (sy_old s) w1) else w1))"
    for d existed and w1 :: "'a world" using keep.trans by blast
  have i: "safe S w (snd (swap_in E s existed w))" for existed and w :: "'a world"
    unfolding swap_in_def Let_def
    by (intro keep.case_err_step rename_retry_keep rename_keep c sync_ends l keep.if_step keep.done_step keep.refl fin)
  show ?thesis
    unfolding swap_def by (intro keep.if_step keep.if_ok_step rename_retry_keep c sync_ends l i)
qed

lemma recover_interrupted_keep:
  assumes a: "all_apart S s" and l: "sync_ok s"
  shows "safe S w (snd (recover_interrupted E (sy_dest s) (sy_tmp s) (sy_old s) (sy_partial s) w))"
proof -
  note c = all_apartD [OF a] and p = layout_parts [OF l [unfolded sync_ok_def]]
  have r: "safe S w (snd (restore_old E (sy_dest s) (sy_old s) w))" for w
    unfolding restore_old_def
    by (intro keep.if_step keep.wrap_step remove_stale_keep rename_keep c sync_ends l keep.done_step keep.refl)
  show ?thesis
    unfolding recover_interrupted_def
    by (intro keep.pair_step r keep_staged_keep unshare_partial_keep c p keep.done_step keep.refl)
qed

context fetcher
begin

lemma replace_keep:
  assumes s: "sy_fetch s = fetch" "sy_tmp s = tmp" and o: "\<And>js. set (sy_order s js) = set js" and l: "sync_ok s"
    and m: "valid_manifest (plat E) m" and a: "all_apart S s"
  shows "safe S w (snd (replace E s raw m w))"
proof -
  note c = all_apartD [OF a] and p = layout_parts [OF l [unfolded sync_ok_def]]
  have st: "safe S w (snd (stage E s m live index w))" for live index and w :: "'s world"
    using m c(1,2) p(2,4,6)
    by (intro stage_keep [OF s o]) (auto simp: s(2) [symmetric] valid_manifest_def list_all_iff entry_ok_def is_sha256_iff path_ok_plain)
  have same: "(\<And>r w'. x = (r, w') \<Longrightarrow> same_fs w w') \<Longrightarrow> safe S w (snd x)" for x :: "'x \<times> 's world" and w :: "'s world"
    by (cases x) (simp add: same_fs_safe)
  have b: "safe S w (snd (run_before before raw w))" for before raw and w :: "'s world"
    by (rule same_fs_safe, rule before_same, rule prod.collapse [symmetric])
  have h: "safe S w (snd (hash_tree E r k w))" "safe S w (snd (hash_partial E s w))" "safe S w (snd (verify_tree E r m w))"
    for r k and w :: "'s world"
    by (rule same_fs_safe, rule hash_tree_same hash_partial_same verify_tree_same, rule prod.collapse [symmetric])+
  have g: "safe S w (snd (give_up E s e mm w))" for e mm and w :: "'s world"
    unfolding give_up_def by (intro keep.case_err_step keep_staged_keep c p keep.done_step keep.refl)
  have v: "safe S w (snd (go_live E s raw w))" for w :: "'s world"
    unfolding go_live_def by (intro keep.option_step keep.if_ok_step swap_keep a l b)
  show ?thesis
    unfolding replace_def
    by (intro keep.option_step keep.case_res_step keep.pair_step keep.case_err_step keep.if_ok_step h st g v keep.done_step keep.refl)
qed

end

lemma source_only_read:
  assumes run: "replace_from_directory E real order source dest raw opts w = (r, w')" and w: "wf w" and lf: "link_free real w"
    and dest: "dest \<noteq> []" "plain_comps dest" and o: "\<And>js. set (order js) = set js"
  shows "tree_at w' source = tree_at w source"
proof -
  have "safe (below source) w w'"
    using run
  proof (cases rule: replace_from_directory_cases)
    case (nothing e)
    then show ?thesis by (simp add: keep.refl)
  next
    case c: (run s0 m q)
    let ?s = "dir_syncer E source s0"
    note n = new_syncer_Inr [OF c(1)]
    have l: "sync_ok ?s" using layout_siblings [OF dest] by (simp add: sync_ok_def dir_syncer_def n)
    have p: "sy_order ?s = order" "sy_fetch ?s = copy_from_source_fn E source" by (simp_all add: dir_syncer_def n)
    have "look w source = Some Dir"
      using c(3) lf by (auto simp: os_stat_def link_free_def split: option.splits if_splits)
    then have a: "all_apart (below source) ?s"
      using not_overlaps_apart [OF lf w _ c(4)] by (simp add: all_apart_def dir_syncer_def n siblings_def)
    have rep: "safe (below source) w1 (snd (replace E ?s raw m w1))" for w1
      using dir.replace_keep [OF p(2) refl _ l _ a] decode_valid [OF c(2)] o p(1) by simp
    have "safe (below source) w (snd (let s = ?s
        in case recover_interrupted E (sy_dest s) (sy_tmp s) (sy_old s) (sy_partial s) w of
             (Some e, w) \<Rightarrow> (Inl e, w)
           | (None, w) \<Rightarrow> (case replace E s raw m w of (Inl (e, mm), w) \<Rightarrow> (Inl e, w) | (Inr res, w) \<Rightarrow> (Inr res, w))))"
      unfolding Let_def
      by (intro keep.case_err_step recover_interrupted_keep a l keep.done_step keep.refl keep.case_res_step rep keep.tuple_step)
    then show ?thesis by (simp only: c(5) snd_conv)
  qed
  then show ?thesis using w by (rule safe_tree_at) simp
qed

lemma directory_replaces:
  assumes "replace_from_directory E real order source dest raw opts w = (r, w')" "wf w"
    and "dest \<noteq> []" "plain_comps dest" "\<And>js. set (order js) = set js"
  shows "wf w'" "replace_spec (plat E) r (live_at w dest) (live_at w' dest)" "r = Inr res \<Longrightarrow> pr_manifest res = raw"
  using replace_from_directory_result [OF assms]
  by (auto simp: replace_spec_def live_at_def [symmetric] live_at_matches split: sum.splits)

end
