(* ===== verification/PullDry.thy ===== *)
theory PullDry
  imports PullSync "HOL-Library.Multiset"
begin

text \<open>
  \<open>pkg/pull/dryrun.go\<close>: the preview of a pull. The lemmas show that it writes nothing,
  that it makes one request, and that it plans exactly the jobs that staging would run on the
  same trees.
\<close>

record pull_plan =
  pl_download :: "string list"
  pl_copy :: "string list"
  pl_remove :: "string list"
  pl_linked :: nat
  pl_reused :: nat
  pl_resumed :: nat
  pl_total :: nat

definition would_resume ::
  "os_env \<Rightarrow> 's syncer \<Rightarrow> manifest \<Rightarrow> mfile \<Rightarrow> string list \<Rightarrow> 's world \<Rightarrow> (bool \<times> string list) \<times> 's world" where
  "would_resume E s m f claimed w =
     (case resumable m f claimed of
        (False, claimed) \<Rightarrow> ((False, claimed), w)
      | (True, claimed) \<Rightarrow>
          (case inspect E (prefix_files_in (sy_partial s) (f_sha256 f)) f w of
             (x, w) \<Rightarrow> ((x \<noteq> None, claimed), w)))"

text \<open>The loop over the entries, in manifest order.\<close>

fun dry_loop ::
  "os_env \<Rightarrow> 's syncer \<Rightarrow> manifest \<Rightarrow> live_map \<Rightarrow> partial_index \<Rightarrow> mfile list \<Rightarrow> string list \<Rightarrow> pull_plan \<Rightarrow> 's world
   \<Rightarrow> pull_plan res \<times> 's world" where
  "dry_loop E s m live partial [] claimed p w = (Inr p, w)"
| "dry_loop E s m live partial (f # fs) claimed p w =
     (case classify (plat E) f live partial of
        Inl e \<Rightarrow> (Inl e, w)
      | Inr (act, mode) \<Rightarrow>
          (case act of
             ActDownload \<Rightarrow>
               (case would_resume E s m f claimed w of
                  ((res, claimed), w) \<Rightarrow>
                    dry_loop E s m live partial fs claimed
                      (p\<lparr>pl_download := pl_download p @ [f_path f],
                         pl_resumed := (if res then pl_resumed p + 1 else pl_resumed p)\<rparr>) w)
           | ActReuse \<Rightarrow>
               dry_loop E s m live partial fs claimed
                 (p\<lparr>pl_download := pl_download p @ [f_path f], pl_reused := pl_reused p + 1\<rparr>) w
           | ActCopy \<Rightarrow> dry_loop E s m live partial fs claimed (p\<lparr>pl_copy := pl_copy p @ [f_path f]\<rparr>) w
           | ActLink \<Rightarrow> dry_loop E s m live partial fs claimed (p\<lparr>pl_linked := pl_linked p + 1\<rparr>) w))"

definition empty_plan :: "manifest \<Rightarrow> pull_plan" where
  "empty_plan m = \<lparr>pl_download = [], pl_copy = [], pl_remove = [], pl_linked = 0, pl_reused = 0, pl_resumed = 0,
     pl_total = length (files_of m)\<rparr>"

definition finish_plan :: "manifest \<Rightarrow> live_map \<Rightarrow> pull_plan \<Rightarrow> pull_plan" where
  "finish_plan m live p =
     p\<lparr>pl_download := sort (pl_download p), pl_copy := sort (pl_copy p),
       pl_remove := sort [q. (q, lf) \<leftarrow> live, q \<notin> f_path ` set (files_of m)]\<rparr>"

definition dry_plan :: "os_env \<Rightarrow> 's get_fn \<Rightarrow> 's syncer \<Rightarrow> 's world \<Rightarrow> pull_plan res \<times> 's world" where
  "dry_plan E get s w =
     (case fetch_manifest get (plat E) s w of
        (Inl e, w) \<Rightarrow> (Inl e, w)
      | (Inr (raw, m), w) \<Rightarrow>
          (case hash_tree E (sy_dest s) [] w of
             (Inl e, w) \<Rightarrow> (Inl e, w)
           | (Inr live, w) \<Rightarrow>
               (case hash_partial E s w of
                  (partial, w) \<Rightarrow>
                    (case dry_loop E s m live partial (files_of m) [] (empty_plan m) w of
                       (Inl e, w) \<Rightarrow> (Inl e, w)
                     | (Inr p, w) \<Rightarrow> (Inr (finish_plan m live p), w)))))"

definition pull_dry_run ::
  "os_env \<Rightarrow> 's get_fn \<Rightarrow> string \<Rightarrow> string \<Rightarrow> fpath \<Rightarrow> 's options \<Rightarrow> 's world \<Rightarrow> pull_plan res \<times> 's world" where
  "pull_dry_run E get bucket pre dest opts w =
     (case new_syncer id dest opts of
        Inl e \<Rightarrow> (Inl e, w)
      | Inr s \<Rightarrow> dry_plan E get (s\<lparr>sy_client := True, sy_bucket := bucket, sy_prefix := trim_suffix pre ''/''\<rparr>) w)"

section \<open>It only reads\<close>

lemma inspect_client: "inspect E p f w = (r, w') \<Longrightarrow> same_client w w'"
  by (auto simp: inspect_def Let_def client.refl dest!: os_open_client split: prod.splits sum.splits option.splits if_splits)

lemma hash_content_client: "hash_content E p w = (r, w') \<Longrightarrow> same_client w w'"
  unfolding hash_content_def
  by (erule client.and_then_step) (auto dest: os_open_client simp: client.refl split: sum.splits)

lemma hash_walk_client: "hash_walk E root skip p d err files w = (r, w') \<Longrightarrow> same_client w w'"
  by (auto simp: hash_walk_def client.refl dest: hash_content_client
      split: option.splits node.splits if_splits prod.splits sum.splits)

lemma hash_tree_client: "hash_tree E root skip w = (r, w') \<Longrightarrow> same_client w w'"
  unfolding hash_tree_def by (erule client.walk_dir_step [rotated]) (rule hash_walk_client)

lemma hash_partial_client: "hash_partial E s w = (r, w') \<Longrightarrow> same_client w w'"
  by (auto simp: hash_partial_def split: prod.splits sum.splits dest: hash_tree_client)

lemma would_resume_client: "would_resume E s m f claimed w = (r, w') \<Longrightarrow> same_client w w'"
  by (auto simp: would_resume_def client.refl split: prod.splits bool.splits dest: inspect_client)

lemma dry_loop_client: "dry_loop E s m live partial fs claimed p w = (r, w') \<Longrightarrow> same_client w w'"
proof (induction fs arbitrary: claimed p w)
  case Nil
  then show ?case by (simp add: client.refl)
next
  case (Cons f fs)
  then show ?case
    by (auto simp: client.refl split: sum.splits prod.splits action.splits
        dest!: would_resume_client intro: client.trans)
qed

lemma dry_plan_reads:
  assumes "dry_plan E get s w = (r, w')"
  shows "same_fs w w'"
    "w_s3 w' = snd (get (get_request (sy_bucket s)
       (if sy_manifest_key s = [] then path_join (sy_prefix s) manifest_name else sy_manifest_key s)) (w_s3 w))"
proof -
  obtain r1 w1 where 1: "fetch_manifest get (plat E) s w = (r1, w1)" by fastforce
  have f: "same_fs w w1 \<and> w_s3 w1 = snd (get (get_request (sy_bucket s)
       (if sy_manifest_key s = [] then path_join (sy_prefix s) manifest_name else sy_manifest_key s)) (w_s3 w))"
    using 1 by (auto simp: fetch_manifest_def s3_call_def Let_def same_fs_def split: prod.splits sum.splits if_splits)
  have "same_client w1 w'"
  proof (cases r1)
    case (Inl e)
    with assms 1 show ?thesis by (simp add: dry_plan_def client.refl)
  next
    case (Inr rm)
    obtain raw m where rm: "rm = (raw, m)" by fastforce
    obtain r2 w2 where 2: "hash_tree E (sy_dest s) [] w1 = (r2, w2)" by fastforce
    obtain index w3 where 3: "hash_partial E s w2 = (index, w3)" by fastforce
    have c: "same_client w1 w2" "same_client w1 w3"
      using hash_tree_client [OF 2] client.trans [OF hash_tree_client [OF 2] hash_partial_client [OF 3]] .
    show ?thesis
    proof (cases r2)
      case (Inl e)
      with assms 1 Inr rm 2 c show ?thesis by (simp add: dry_plan_def)
    next
      case live: (Inr live)
      obtain r4 w4 where 4: "dry_loop E s m live index (files_of m) [] (empty_plan m) w3 = (r4, w4)" by fastforce
      have "w' = w4" using assms 1 Inr rm 2 live 3 4 by (auto simp: dry_plan_def split: sum.splits)
      with client.trans [OF c(2) dry_loop_client [OF 4]] show ?thesis by simp
    qed
  qed
  with f show "same_fs w w'" "w_s3 w' = snd (get (get_request (sy_bucket s)
       (if sy_manifest_key s = [] then path_join (sy_prefix s) manifest_name else sy_manifest_key s)) (w_s3 w))"
    by (auto simp: same_client_def same_fs_def)
qed

section \<open>It plans what staging does\<close>

definition job_path :: "job \<Rightarrow> string" where
  "job_path j = f_path (j_file j)"

definition with_act :: "action \<Rightarrow> job list \<Rightarrow> job list" where
  "with_act a js = [j \<leftarrow> js. j_act j = a]"

lemma with_act_simps [simp]:
  "with_act a [] = []" "with_act a (j # js) = (if j_act j = a then j # with_act a js else with_act a js)"
  by (simp_all add: with_act_def)

text \<open>A plan tells of the jobs of a staging what a user wants to know.\<close>

definition plans :: "pull_plan \<Rightarrow> pull_plan \<Rightarrow> job list \<Rightarrow> job list \<Rightarrow> bool" where
  "plans p0 p loc rem \<longleftrightarrow>
     mset (pl_download p) = mset (pl_download p0) + mset (map job_path rem) + mset (map job_path (with_act ActReuse loc)) \<and>
     pl_copy p = pl_copy p0 @ map job_path (with_act ActCopy loc) \<and>
     pl_linked p = pl_linked p0 + length (with_act ActLink loc) \<and>
     pl_reused p = pl_reused p0 + length (with_act ActReuse loc) \<and>
     pl_resumed p \<le> pl_resumed p0 + length [j \<leftarrow> rem. j_resume j] \<and> pl_total p = pl_total p0"

lemma would_resume_claims:
  "would_resume E s m f claimed w = ((res, claimed'), w') \<Longrightarrow>
    snd (resumable m f claimed) = claimed' \<and> (res \<longrightarrow> fst (resumable m f claimed))"
  by (auto simp: would_resume_def split: prod.splits bool.splits)

lemma dry_loop_plans:
  assumes "dry_loop E s m live partial fs claimed p w = (Inr p', w')"
  shows "\<exists>loc rem. plan_jobs (plat E) True m live partial fs claimed = Inr (loc, rem) \<and> plans p p' loc rem"
  using assms
proof (induction fs arbitrary: claimed p w)
  case Nil
  then show ?case by (simp add: plans_def)
next
  case (Cons f fs)
  obtain act mode where c: "classify (plat E) f live partial = Inr (act, mode)"
    using Cons.prems by (auto split: sum.splits)
  show ?case
  proof (cases act)
    case ActDownload
    obtain res claimed1 w1 where wr: "would_resume E s m f claimed w = ((res, claimed1), w1)" by (metis prod.collapse)
    obtain res' where r: "resumable m f claimed = (res', claimed1)" "res \<longrightarrow> res'"
      using would_resume_claims [OF wr] by (cases "resumable m f claimed") auto
    let ?p = "p\<lparr>pl_download := pl_download p @ [f_path f], pl_resumed := (if res then pl_resumed p + 1 else pl_resumed p)\<rparr>"
    have "dry_loop E s m live partial fs claimed1 ?p w1 = (Inr p', w')"
      using Cons.prems c ActDownload wr by simp
    from Cons.IH [OF this] obtain loc rem where
      "plan_jobs (plat E) True m live partial fs claimed1 = Inr (loc, rem)" "plans ?p p' loc rem" by blast
    then show ?thesis using c ActDownload r by (cases res) (auto simp: plans_def Let_def job_path_def)
  next
    case ActCopy
    have "dry_loop E s m live partial fs claimed (p\<lparr>pl_copy := pl_copy p @ [f_path f]\<rparr>) w = (Inr p', w')"
      using Cons.prems c ActCopy by simp
    from Cons.IH [OF this] show ?thesis using c ActCopy by (auto simp: plans_def Let_def job_path_def)
  next
    case ActLink
    have "dry_loop E s m live partial fs claimed (p\<lparr>pl_linked := pl_linked p + 1\<rparr>) w = (Inr p', w')"
      using Cons.prems c ActLink by simp
    from Cons.IH [OF this] show ?thesis using c ActLink by (auto simp: plans_def Let_def job_path_def)
  next
    case ActReuse
    let ?p = "p\<lparr>pl_download := pl_download p @ [f_path f], pl_reused := pl_reused p + 1\<rparr>"
    have "dry_loop E s m live partial fs claimed ?p w = (Inr p', w')"
      using Cons.prems c ActReuse by simp
    from Cons.IH [OF this] show ?thesis using c ActReuse by (auto simp: plans_def Let_def job_path_def)
  qed
qed

lemma sort_mset: "mset xs = mset ys \<Longrightarrow> sort xs = sort ys"
  by (metis mset_sort properties_for_sort sorted_sort)

lemma finish_plan_jobs:
  assumes run: "dry_loop E s m live partial (files_of m) [] (empty_plan m) w = (Inr p, w')"
    and jobs: "plan_jobs (plat E) True m live partial (files_of m) [] = Inr (loc, rem)"
  shows "pl_download (finish_plan m live p) = sort (map job_path rem @ map job_path (with_act ActReuse loc))"
    "pl_copy (finish_plan m live p) = sort (map job_path (with_act ActCopy loc))"
    "pl_linked p = length (with_act ActLink loc)" "pl_reused p = length (with_act ActReuse loc)"
    "pl_resumed p \<le> length [j \<leftarrow> rem. j_resume j]"
proof -
  have p: "plans (empty_plan m) p loc rem"
    using dry_loop_plans [OF run] jobs by auto
  have "mset (pl_download p) = mset (map job_path rem @ map job_path (with_act ActReuse loc))"
    using p by (simp add: plans_def empty_plan_def)
  from sort_mset [OF this]
  show "pl_download (finish_plan m live p) = sort (map job_path rem @ map job_path (with_act ActReuse loc))"
    by (simp add: finish_plan_def)
  show "pl_copy (finish_plan m live p) = sort (map job_path (with_act ActCopy loc))"
    "pl_linked p = length (with_act ActLink loc)" "pl_reused p = length (with_act ActReuse loc)"
    "pl_resumed p \<le> length [j \<leftarrow> rem. j_resume j]"
    using p by (simp_all add: plans_def empty_plan_def finish_plan_def)
qed

end
