(* ===== verification/Prune.thy ===== *)
theory Prune
  imports S3Api ManifestCodec
begin

text \<open>
  \<open>pkg/prune/prune.go\<close>: deleting the objects below a prefix that the published manifest no
  longer names. \<open>pages\<close> is the SDK's paginator over \<open>ListObjectsV2\<close>, an argument like the
  other client operations: it gives every page of a listing, or an error. Times are
  nanoseconds. The lemmas show what can be deleted, and that nothing is without a manifest.
\<close>

type_synonym 's pages_fn = "(list_in, list_out list, 's) s3_call"

record prune_options =
  po_manifest_key :: string
  po_min_age :: int

record prune_plan =
  pp_delete :: "string list"
  pp_protected :: nat
  pp_referenced :: nat
  pp_listed :: nat

record prune_stats =
  ps_deleted :: int
  ps_protected :: nat
  ps_referenced :: nat
  ps_listed :: nat

definition prune_manifest_key :: "string \<Rightarrow> string \<Rightarrow> string" where
  "prune_manifest_key pre custom = (if custom = [] then path_join pre manifest_name else custom)"

definition prune_fetch_manifest :: "platform \<Rightarrow> 's get_fn \<Rightarrow> string \<Rightarrow> string \<Rightarrow> 's \<Rightarrow> manifest res \<times> 's" where
  "prune_fetch_manifest P get bucket key s =
     (case get (get_request bucket key) s of
        (Inl e, s) \<Rightarrow>
          (if is_no_such_key e
           then (Inl (E_new ''prune: no manifest at %s; refusing to prune (nothing to diff against)'' [key]), s)
           else (Inl (E_wrap ''prune: fetching manifest %s: %w'' [key] [e]), s))
      | (Inr out, s) \<Rightarrow>
          (case decode_reader P (go_body out) of
             Inl e \<Rightarrow> (Inl (E_wrap ''prune: reading manifest %s: %w'' [key] [e]), s)
           | Inr m \<Rightarrow> (Inr m, s)))"

text \<open>The keep-set: the manifest's own key and the key of every entry.\<close>

definition prune_keep :: "string \<Rightarrow> string \<Rightarrow> manifest \<Rightarrow> string list" where
  "prune_keep pre key m = key # map (\<lambda>f. path_join pre (f_path f)) (files_of m)"

definition too_young :: "int \<Rightarrow> s3_object \<Rightarrow> bool" where
  "too_young cutoff ob \<longleftrightarrow> (case ob_modified ob of None \<Rightarrow> False | Some t \<Rightarrow> t > cutoff)"

fun classify_objects :: "string list \<Rightarrow> int \<Rightarrow> s3_object list \<Rightarrow> prune_plan \<Rightarrow> prune_plan" where
  "classify_objects keep cutoff [] p = p"
| "classify_objects keep cutoff (ob # obs) p =
     (let k = to_string (ob_key ob); p = p\<lparr>pp_listed := pp_listed p + 1\<rparr>
      in classify_objects keep cutoff obs
           (if k \<in> set keep then p\<lparr>pp_referenced := pp_referenced p + 1\<rparr>
            else if too_young cutoff ob then p\<lparr>pp_protected := pp_protected p + 1\<rparr>
            else p\<lparr>pp_delete := pp_delete p @ [k]\<rparr>))"

definition empty_prune :: prune_plan where
  "empty_prune = \<lparr>pp_delete = [], pp_protected = 0, pp_referenced = 0, pp_listed = 0\<rparr>"

definition list_prefix :: "string \<Rightarrow> string" where
  "list_prefix pre = (if pre \<noteq> [] then pre @ ''/'' else [])"

definition list_request :: "string \<Rightarrow> string \<Rightarrow> list_in" where
  "list_request bucket pre = \<lparr>li_bucket = bucket, li_prefix = list_prefix pre, li_token = None, li_max = None\<rparr>"

definition prune_classify ::
  "platform \<Rightarrow> int \<Rightarrow> 's get_fn \<Rightarrow> 's pages_fn \<Rightarrow> string \<Rightarrow> string \<Rightarrow> prune_options \<Rightarrow> 's \<Rightarrow> prune_plan res \<times> 's" where
  "prune_classify P now get pages bucket pre0 opts s =
     (let pre = trim_suffix pre0 ''/''; key = prune_manifest_key pre (po_manifest_key opts)
      in case prune_fetch_manifest P get bucket key s of
           (Inl e, s) \<Rightarrow> (Inl e, s)
         | (Inr m, s) \<Rightarrow>
             (case pages (list_request bucket pre) s of
                (Inl e, s) \<Rightarrow> (Inl (E_wrap ''prune: listing %s: %w'' [bucket] [e]), s)
              | (Inr outs, s) \<Rightarrow>
                  (let p = classify_objects (prune_keep pre key m) (now - po_min_age opts)
                             (concat (map lo_contents outs)) empty_prune
                   in (Inr (p\<lparr>pp_delete := sort (pp_delete p)\<rparr>), s))))"

definition prune_dry_run ::
  "platform \<Rightarrow> int \<Rightarrow> 's get_fn \<Rightarrow> 's pages_fn \<Rightarrow> string \<Rightarrow> string \<Rightarrow> prune_options \<Rightarrow> 's \<Rightarrow> prune_plan res \<times> 's" where
  "prune_dry_run P now get pages bucket pre opts s = prune_classify P now get pages bucket pre opts s"

definition batch_size :: nat where
  "batch_size = 1000"

text \<open>\<open>slices.Chunk\<close>.\<close>

function chunks :: "nat \<Rightarrow> 'a list \<Rightarrow> 'a list list" where
  "chunks n xs = (if xs = [] \<or> n = 0 then [] else take n xs # chunks n (drop n xs))"
  by pat_completeness auto
termination
  by (relation "measure (\<lambda>(n, xs). length xs)") auto

declare chunks.simps [simp del]

definition delete_request :: "string \<Rightarrow> string list \<Rightarrow> delete_in" where
  "delete_request bucket ks = \<lparr>di_bucket = bucket, di_keys = ks, di_quiet = True\<rparr>"

text \<open>The loop over the chunks: the count so far and the failed keys so far.\<close>

fun delete_chunks ::
  "'s delete_fn \<Rightarrow> string \<Rightarrow> string list list \<Rightarrow> int \<Rightarrow> (string \<times> string) list \<Rightarrow> 's
   \<Rightarrow> (int \<times> (gerr + (string \<times> string) list)) \<times> 's" where
  "delete_chunks del bucket [] n errs s = ((n, Inr errs), s)"
| "delete_chunks del bucket (ks # kss) n errs s =
     (case del (delete_request bucket ks) s of
        (Inl e, s) \<Rightarrow> ((n, Inl (E_wrap ''prune: deleting objects: %w'' [] [e])), s)
      | (Inr out, s) \<Rightarrow>
          delete_chunks del bucket kss (n + (int (length ks) - int (length (do_errors out)))) (errs @ do_errors out) s)"

definition delete_batched :: "'s delete_fn \<Rightarrow> string \<Rightarrow> string list \<Rightarrow> 's \<Rightarrow> (int \<times> gerr option) \<times> 's" where
  "delete_batched del bucket ks s =
     (case delete_chunks del bucket (chunks batch_size ks) 0 [] s of
        ((n, Inl e), s) \<Rightarrow> ((n, Some e), s)
      | ((n, Inr errs), s) \<Rightarrow>
          ((n, if errs = [] then None
               else Some (E_wrap ''prune: %d object(s) failed to delete: %w'' []
                 [E_join (map (\<lambda>(k, msg). E_new ''%s: %s'' [k, msg]) errs)])), s))"

definition prune ::
  "platform \<Rightarrow> int \<Rightarrow> 's get_fn \<Rightarrow> 's pages_fn \<Rightarrow> 's delete_fn \<Rightarrow> string \<Rightarrow> string \<Rightarrow> prune_options \<Rightarrow> 's
   \<Rightarrow> (prune_stats \<times> gerr option) \<times> 's" where
  "prune P now get pages del bucket pre opts s =
     (case prune_classify P now get pages bucket pre opts s of
        (Inl e, s) \<Rightarrow> ((\<lparr>ps_deleted = 0, ps_protected = 0, ps_referenced = 0, ps_listed = 0\<rparr>, Some e), s)
      | (Inr p, s) \<Rightarrow>
          (case delete_batched del bucket (pp_delete p) s of
             ((n, err), s) \<Rightarrow>
               ((\<lparr>ps_deleted = n, ps_protected = pp_protected p, ps_referenced = pp_referenced p, ps_listed = pp_listed p\<rparr>,
                 err), s)))"

section \<open>What is a candidate\<close>

definition candidate :: "string list \<Rightarrow> int \<Rightarrow> s3_object \<Rightarrow> bool" where
  "candidate keep cutoff ob \<longleftrightarrow> to_string (ob_key ob) \<notin> set keep \<and> \<not> too_young cutoff ob"

lemma classify_objects_result:
  "pp_delete (classify_objects keep cutoff obs p) =
     pp_delete p @ map (to_string \<circ> ob_key) (filter (candidate keep cutoff) obs)"
  "pp_listed (classify_objects keep cutoff obs p) = pp_listed p + length obs"
  "pp_referenced (classify_objects keep cutoff obs p) =
     pp_referenced p + length [ob \<leftarrow> obs. to_string (ob_key ob) \<in> set keep]"
  "pp_protected (classify_objects keep cutoff obs p) =
     pp_protected p + length [ob \<leftarrow> obs. to_string (ob_key ob) \<notin> set keep \<and> too_young cutoff ob]"
  by (induction obs arbitrary: p) (simp_all add: Let_def candidate_def)

lemma classify_partition:
  "pp_listed (classify_objects keep cutoff obs empty_prune) =
     length (pp_delete (classify_objects keep cutoff obs empty_prune))
     + pp_referenced (classify_objects keep cutoff obs empty_prune)
     + pp_protected (classify_objects keep cutoff obs empty_prune)"
proof -
  have "length obs = length (filter (candidate keep cutoff) obs) + length [ob \<leftarrow> obs. to_string (ob_key ob) \<in> set keep]
      + length [ob \<leftarrow> obs. to_string (ob_key ob) \<notin> set keep \<and> too_young cutoff ob]"
    by (induction obs) (auto simp: candidate_def)
  then show ?thesis by (simp add: classify_objects_result empty_prune_def)
qed

lemma prune_classify_Inr:
  assumes "prune_classify P now get pages bucket pre0 opts s = (Inr p, s')"
  obtains m outs s1 pre key where "pre = trim_suffix pre0 ''/''" "key = prune_manifest_key pre (po_manifest_key opts)"
    "prune_fetch_manifest P get bucket key s = (Inr m, s1)" "pages (list_request bucket pre) s1 = (Inr outs, s')"
    "p = (classify_objects (prune_keep pre key m) (now - po_min_age opts) (concat (map lo_contents outs)) empty_prune)
       \<lparr>pp_delete := sort (map (to_string \<circ> ob_key)
          (filter (candidate (prune_keep pre key m) (now - po_min_age opts)) (concat (map lo_contents outs))))\<rparr>"
  using assms
  by (auto simp: prune_classify_def Let_def classify_objects_result empty_prune_def split: prod.splits sum.splits)

section \<open>Batches\<close>

lemma concat_chunks: "0 < n \<Longrightarrow> concat (chunks n xs) = xs"
proof (induction n xs rule: chunks.induct)
  case (1 n xs)
  then show ?case by (subst chunks.simps) auto
qed

lemma chunks_sizes: "ks \<in> set (chunks n xs) \<Longrightarrow> ks \<noteq> [] \<and> length ks \<le> n \<and> set ks \<subseteq> set xs"
proof (induction n xs rule: chunks.induct)
  case (1 n xs)
  have ne: "xs \<noteq> []" "n \<noteq> 0" "ks \<in> set (take n xs # chunks n (drop n xs))"
    using "1.prems" chunks.simps [of n xs] by (simp_all split: if_splits)
  then consider "ks = take n xs" | "ks \<in> set (chunks n (drop n xs))" by auto
  then show ?case
  proof cases
    case 1
    with ne show ?thesis by (auto dest: in_set_takeD)
  next
    case 2
    with "1.IH" ne show ?thesis by (auto dest: in_set_dropD)
  qed
qed

text \<open>Whatever every allowed delete request keeps, the whole run keeps.\<close>

lemma delete_chunks_inv:
  assumes "\<And>ks s. ks \<in> set kss \<Longrightarrow> I s \<Longrightarrow> I (snd (del (delete_request bucket ks) s))" "I s"
  shows "I (snd (delete_chunks del bucket kss n errs s))"
  using assms
proof (induction kss arbitrary: n errs s)
  case (Cons ks kss)
  obtain r s1 where d: "del (delete_request bucket ks) s = (r, s1)" by fastforce
  have "I s1" using Cons.prems(1) [of ks s] Cons.prems(2) d by simp
  then have "I (snd (delete_chunks del bucket kss n' errs' s1))" for n' errs'
    by (intro Cons.IH Cons.prems(1)) simp_all
  with d \<open>I s1\<close> show ?case by (cases r) simp_all
qed simp

lemma delete_batched_inv:
  assumes "\<And>ks s. ks \<noteq> [] \<Longrightarrow> length ks \<le> 1000 \<Longrightarrow> set ks \<subseteq> set all \<Longrightarrow> I s \<Longrightarrow> I (snd (del (delete_request bucket ks) s))"
    and "I s"
  shows "I (snd (delete_batched del bucket all s))"
proof -
  have "I (snd (delete_chunks del bucket (chunks batch_size all) 0 [] s))"
  proof (rule delete_chunks_inv [where I = I])
    fix ks s assume "ks \<in> set (chunks batch_size all)" "I s"
    then show "I (snd (del (delete_request bucket ks) s))"
      using chunks_sizes [of ks batch_size all] assms(1) by (simp add: batch_size_def)
  qed (rule assms(2))
  then show ?thesis by (auto simp: delete_batched_def split: prod.splits sum.splits)
qed

section \<open>Observing the delete requests\<close>

text \<open>A client that also keeps the list of the delete requests it got.\<close>

definition plain :: "('i, 'o, 's) s3_call \<Rightarrow> ('i, 'o, 's \<times> delete_in list) s3_call" where
  "plain f i x = (case f i (fst x) of (r, s) \<Rightarrow> (r, (s, snd x)))"

definition recorded :: "'s delete_fn \<Rightarrow> ('s \<times> delete_in list) delete_fn" where
  "recorded f i x = (case f i (fst x) of (r, s) \<Rightarrow> (r, (s, snd x @ [i])))"

lemma snd_plain [simp]: "snd (snd (plain f i x)) = snd x"
  by (simp add: plain_def split: prod.splits)

lemma plain_Inr: "plain f i x = (r, y) \<Longrightarrow> f i (fst x) = (r, fst y) \<and> snd y = snd x"
  by (auto simp: plain_def split: prod.splits)

text \<open>What a manifest and a listing allow to delete.\<close>

definition stale :: "int \<Rightarrow> string \<Rightarrow> string \<Rightarrow> prune_options \<Rightarrow> manifest \<Rightarrow> list_out list \<Rightarrow> string \<Rightarrow> bool" where
  "stale now pre key opts m outs k \<longleftrightarrow>
     k \<noteq> key \<and> (\<forall>f \<in> set (files_of m). k \<noteq> path_join pre (f_path f)) \<and>
     (\<exists>ob \<in> set (concat (map lo_contents outs)). to_string (ob_key ob) = k \<and> \<not> too_young (now - po_min_age opts) ob)"

lemma prune_fetch_plain:
  "prune_fetch_manifest P (plain get) bucket key x =
     (case prune_fetch_manifest P get bucket key (fst x) of (r, s) \<Rightarrow> (r, (s, snd x)))"
  by (auto simp: prune_fetch_manifest_def plain_def split: prod.splits sum.splits)

lemma delete_batched_recorded:
  assumes "delete_batched (recorded del) bucket all (s, []) = (r, (s', reqs))"
  shows "\<forall>rq \<in> set reqs. di_bucket rq = bucket \<and> di_keys rq \<noteq> [] \<and> length (di_keys rq) \<le> 1000 \<and> set (di_keys rq) \<subseteq> set all"
proof -
  let ?I = "\<lambda>x. \<forall>rq \<in> set (snd x). di_bucket rq = bucket \<and> di_keys rq \<noteq> [] \<and> length (di_keys rq) \<le> 1000 \<and> set (di_keys rq) \<subseteq> set all"
  have "?I (snd (delete_batched (recorded del) bucket all (s, [])))"
  proof (rule delete_batched_inv [where I = ?I])
    fix ks and x :: "'a \<times> delete_in list"
    assume "ks \<noteq> []" "length ks \<le> 1000" "set ks \<subseteq> set all" "?I x"
    then show "?I (snd (recorded del (delete_request bucket ks) x))"
      by (auto simp: recorded_def delete_request_def split: prod.splits)
  qed simp
  with assms show ?thesis by simp
qed

lemma prune_recorded:
  assumes run: "prune P now (plain get) (plain pages) (recorded del) bucket pre0 opts (s, []) = (r, (s', reqs))"
    and pre: "pre = trim_suffix pre0 ''/''" "key = prune_manifest_key pre (po_manifest_key opts)"
  shows "reqs = [] \<or> (\<exists>m outs s1 s2. prune_fetch_manifest P get bucket key s = (Inr m, s1) \<and>
    pages (list_request bucket pre) s1 = (Inr outs, s2) \<and>
    (\<forall>rq \<in> set reqs. di_bucket rq = bucket \<and> di_keys rq \<noteq> [] \<and> length (di_keys rq) \<le> 1000 \<and>
       (\<forall>k \<in> set (di_keys rq). stale now pre key opts m outs k)))"
proof -
  obtain r1 x1 where Pair: "prune_classify P now (plain get) (plain pages) bucket pre0 opts (s, []) = (r1, x1)"
    by (rule prod.exhaust)
  show ?thesis
  proof (cases r1)
    case (Inl e)
    have "snd x1 = []"
      using Pair by (auto simp: prune_classify_def prune_fetch_plain Let_def split: prod.splits sum.splits dest: plain_Inr)
    with run Pair Inl show ?thesis by (simp add: prune_def)
  next
    case (Inr p)
    obtain m outs y where
      f: "prune_fetch_manifest P (plain get) bucket key (s, []) = (Inr m, y)"
      and l: "plain pages (list_request bucket pre) y = (Inr outs, x1)"
      and p: "pp_delete p = sort (map (to_string \<circ> ob_key)
          (filter (candidate (prune_keep pre key m) (now - po_min_age opts)) (concat (map lo_contents outs))))"
      by (rule prune_classify_Inr [OF Pair [unfolded Inr]]) (rule that, simp_all add: pre)
    obtain s1 where y: "prune_fetch_manifest P get bucket key s = (Inr m, s1)" "y = (s1, [])"
      using f by (auto simp: prune_fetch_plain split: prod.splits)
    have x1: "pages (list_request bucket pre) s1 = (Inr outs, fst x1)" "snd x1 = []"
      using plain_Inr [OF l] y(2) by auto
    then obtain s2 where s2: "x1 = (s2, [])" by (cases x1) simp
    have st: "stale now pre key opts m outs k" if "k \<in> set (pp_delete p)" for k
      using that by (auto simp: p stale_def candidate_def prune_keep_def)
    obtain n err z where d: "delete_batched (recorded del) bucket (pp_delete p) (s2, []) = ((n, err), z)"
      by (metis prod.collapse)
    then have "z = (s', reqs)" using run Pair Inr s2 by (simp add: prune_def)
    with delete_batched_recorded [of del bucket "pp_delete p" s2 "(n, err)" s' reqs] d
    have "\<forall>rq \<in> set reqs. di_bucket rq = bucket \<and> di_keys rq \<noteq> [] \<and> length (di_keys rq) \<le> 1000 \<and> set (di_keys rq) \<subseteq> set (pp_delete p)"
      by simp
    with st y x1(1) show ?thesis by blast
  qed
qed

end
