(* ===== verification/Push.thy ===== *)
theory Push
  imports S3Api ManifestCodec
begin

text \<open>
  \<open>pkg/push/push.go\<close>: publishing a local tree. The files that are new, changed or no longer
  verify go up first, each with the manifest's own checksum, and the manifest last. Workers
  take whole files, in the order \<open>order\<close> gives, of which only that it permutes them is used.
\<close>

record push_options =
  pu_parallel :: int
  pu_manifest_key :: string
  pu_full :: bool
  pu_adopt :: bool

record push_stats =
  pt_uploaded :: nat
  pt_repaired :: nat
  pt_skipped :: nat
  pt_total :: nat

record push_plan =
  pn_upload :: "string list"
  pn_repair :: "string list"
  pn_orphan :: "string list"
  pn_unchanged :: nat
  pn_total :: nat
  pn_manifest_only :: bool

definition push_workers :: "push_options \<Rightarrow> int" where
  "push_workers opts = (if pu_parallel opts \<le> 0 then 16 else pu_parallel opts)"

section \<open>The preamble\<close>

definition resolve_manifest_key :: "string \<Rightarrow> string \<Rightarrow> mfile list \<Rightarrow> string res" where
  "resolve_manifest_key pre custom fs =
     (if custom = [] then Inr (path_join pre manifest_name)
      else if list_ex (\<lambda>f. path_join pre (f_path f) = custom) fs
      then Inl (E_new ''push: manifest key %q collides with a content file; choose a location outside the uploaded tree'' [custom])
      else Inr custom)"

definition prepare :: "os_env \<Rightarrow> string \<Rightarrow> fpath \<Rightarrow> string \<Rightarrow> 's world \<Rightarrow> (manifest \<times> string \<times> bytes) res \<times> 's world" where
  "prepare E pre root custom w =
     (if goos (plat E) = ''windows''
      then (Inl (E_new ''push: not supported on Windows (POSIX mode bits would be synthetic)'' []), w)
      else and_then (build E root w) (\<lambda>m w.
        case resolve_manifest_key pre custom (files_of m) of
          Inl e \<Rightarrow> (Inl e, w)
        | Inr key \<Rightarrow> (case encode m of (m, raw) \<Rightarrow> (Inr (m, key, raw), w))))"

definition put_request :: "string \<Rightarrow> string \<Rightarrow> reader \<Rightarrow> int \<Rightarrow> string \<Rightarrow> put_in" where
  "put_request bucket key body n sum64 =
     \<lparr>pi_bucket = bucket, pi_key = key, pi_body = body, pi_length = Some n, pi_sha256 = True, pi_sum = Some sum64\<rparr>"

definition put_manifest :: "'s put_fn \<Rightarrow> string \<Rightarrow> string \<Rightarrow> bytes \<Rightarrow> 's world \<Rightarrow> gerr option \<times> 's world" where
  "put_manifest put bucket key raw w =
     (case s3_call put (put_request bucket key \<lparr>r_data = raw, r_err = None\<rparr> (int (length raw)) (base64_encode (sha256 raw))) w of
        (Inl e, w) \<Rightarrow> (Some (E_wrap ''push: uploading %s: %w'' [manifest_name] [e]), w)
      | (Inr _, w) \<Rightarrow> (None, w))"

section \<open>Verifying\<close>

definition forbidden :: "gerr \<Rightarrow> bool" where
  "forbidden e \<longleftrightarrow> http_status e = Some 403 \<or> api_code e = Some ''Forbidden'' \<or> api_code e = Some ''AccessDenied''"

definition b64_sha256 :: "mfile \<Rightarrow> string res" where
  "b64_sha256 f =
     (case hex_decode (f_sha256 f) of
        None \<Rightarrow> Inl (E_wrap ''push: manifest SHA256 for %s: %w'' [f_path f] [])
      | Some d \<Rightarrow> Inr (base64_encode d))"

record verdict =
  vd_reason :: string
  vd_cause :: "gerr option"

definition verdict_for :: "string \<Rightarrow> verdict" where
  "verdict_for r = \<lparr>vd_reason = r, vd_cause = None\<rparr>"

definition reason_forbidden :: string where
  "reason_forbidden = ''cannot verify (HEAD returned 403; the object may be missing or the caller may lack read access)''"

definition reason_composite :: string where
  "reason_composite = ''composite checksum from a multipart upload; re-uploading as a single part''"

definition head_verdict :: "head_out \<Rightarrow> mfile \<Rightarrow> verdict res" where
  "head_verdict out f =
     (let got = to_string (ho_sum out)
      in if to_int64 (ho_length out) \<noteq> f_size f then Inr (verdict_for ''size mismatch'')
         else if got = [] then Inr (verdict_for ''no checksum'')
         else if ho_composite out \<or> CHR ''-'' \<in> set got then Inr (verdict_for reason_composite)
         else (case b64_sha256 f of
                 Inl e \<Rightarrow> Inl e
               | Inr want \<Rightarrow> Inr (verdict_for (if got \<noteq> want then ''checksum mismatch'' else []))))"

definition head_request :: "string \<Rightarrow> string \<Rightarrow> head_in" where
  "head_request bucket key = \<lparr>hi_bucket = bucket, hi_key = key, hi_checksum = True\<rparr>"

definition verify_object :: "'s head_fn \<Rightarrow> string \<Rightarrow> string \<Rightarrow> mfile \<Rightarrow> 's world \<Rightarrow> verdict res \<times> 's world" where
  "verify_object head bucket key f w =
     (case s3_call head (head_request bucket key) w of
        (Inl e, w) \<Rightarrow>
          (if is_not_found e then Inr (verdict_for ''missing'')
           else if forbidden e then Inr \<lparr>vd_reason = reason_forbidden, vd_cause = Some e\<rparr>
           else Inl (E_wrap ''push: verifying remote %s (pass -full to skip this diff): %w'' [key] [e]), w)
      | (Inr out, w) \<Rightarrow> (head_verdict out f, w))"

text \<open>Every object is headed; the first error is the result.\<close>

fun verify_objects ::
  "'s head_fn \<Rightarrow> string \<Rightarrow> string \<Rightarrow> mfile list \<Rightarrow> 's world \<Rightarrow> (verdict list) res \<times> 's world" where
  "verify_objects head bucket pre [] w = (Inr [], w)"
| "verify_objects head bucket pre (f # fs) w =
     (case verify_object head bucket (path_join pre (f_path f)) f w of
        (r, w) \<Rightarrow>
          (case verify_objects head bucket pre fs w of
             (rs, w) \<Rightarrow>
               (case r of
                  Inl e \<Rightarrow> Inl e
                | Inr v \<Rightarrow> (case rs of Inl e \<Rightarrow> Inl e | Inr vs \<Rightarrow> Inr (v # vs)), w)))"

section \<open>The diff\<close>

record diff =
  df_upload :: "mfile list"
  df_repair :: "string list"
  df_orphan :: "string list"
  df_verified :: nat
  df_same :: bool

definition no_diff :: diff where
  "no_diff = \<lparr>df_upload = [], df_repair = [], df_orphan = [], df_verified = 0, df_same = False\<rparr>"

definition remote_manifest ::
  "platform \<Rightarrow> 's get_fn \<Rightarrow> string \<Rightarrow> string \<Rightarrow> 's world \<Rightarrow> (manifest option) res \<times> 's world" where
  "remote_manifest P get bucket key w =
     (case s3_call get (get_request bucket key) w of
        (Inl e, w) \<Rightarrow>
          (if is_no_such_key e then Inr None
           else Inl (E_wrap ''push: fetching remote %s (pass -full to skip this diff): %w'' [key] [e]), w)
      | (Inr out, w) \<Rightarrow>
          (case decode_reader P (go_body out) of
             Inl e \<Rightarrow> (Inl (E_wrap ''push: reading remote %s (pass -full to skip this diff): %w'' [key] [e]), w)
           | Inr m \<Rightarrow> (Inr (Some m), w)))"

text \<open>The loop over the local files: candidates for skipping, uploads, and what stays of the
  remote map (an association list of path and hash).\<close>

fun split_files :: "mfile list \<Rightarrow> (string \<times> string) list \<Rightarrow> mfile list \<times> mfile list \<times> (string \<times> string) list" where
  "split_files [] remote = ([], [], remote)"
| "split_files (f # fs) remote =
     (case split_files fs [x \<leftarrow> remote. fst x \<noteq> f_path f] of
        (cand, up, rest) \<Rightarrow>
          if (case map_of remote (f_path f) of None \<Rightarrow> [] | Some h \<Rightarrow> h) = f_sha256 f then (f # cand, up, rest)
          else (cand, f # up, rest))"

text \<open>The loop over the verdicts.\<close>

fun apply_verdicts :: "(mfile \<times> verdict) list \<Rightarrow> diff \<Rightarrow> diff" where
  "apply_verdicts [] d = d"
| "apply_verdicts ((f, v) # fvs) d =
     (if vd_reason v = [] then apply_verdicts fvs (d\<lparr>df_verified := df_verified d + 1\<rparr>)
      else apply_verdicts fvs (d\<lparr>df_upload := df_upload d @ [f], df_repair := df_repair d @ [f_path f]\<rparr>))"

definition diff_remote ::
  "platform \<Rightarrow> 's get_fn \<Rightarrow> 's head_fn \<Rightarrow> string \<Rightarrow> string \<Rightarrow> string \<Rightarrow> bytes \<Rightarrow> mfile list \<Rightarrow> 's world
   \<Rightarrow> diff res \<times> 's world" where
  "diff_remote P get head bucket pre key loc files w =
     (case remote_manifest P get bucket key w of
        (Inl e, w) \<Rightarrow> (Inl e, w)
      | (Inr rm, w) \<Rightarrow>
          (let same = (case rm of None \<Rightarrow> False | Some m \<Rightarrow> loc = snd (encode m));
               remote = (case rm of None \<Rightarrow> [] | Some m \<Rightarrow> rev (map (\<lambda>f. (f_path f, f_sha256 f)) (files_of (fst (encode m)))))
           in case split_files files remote of
                (cand, up, rest) \<Rightarrow>
                  (let d = no_diff\<lparr>df_same := same, df_upload := up, df_orphan := sort (remdups (map fst rest))\<rparr>
                   in case verify_objects head bucket pre cand w of
                        (Inl e, w) \<Rightarrow> (Inl e, w)
                      | (Inr vs, w) \<Rightarrow>
                          (let d = apply_verdicts (zip cand vs) d
                           in (Inr (d\<lparr>df_repair := sort (df_repair d)\<rparr>), w)))))"

section \<open>Uploading\<close>

definition put_file :: "os_env \<Rightarrow> 's put_fn \<Rightarrow> string \<Rightarrow> string \<Rightarrow> fpath \<Rightarrow> mfile \<Rightarrow> 's world \<Rightarrow> gerr option \<times> 's world" where
  "put_file E put bucket pre root f w =
     (case b64_sha256 f of
        Inl e \<Rightarrow> (Some e, w)
      | Inr sum64 \<Rightarrow>
          (case os_open E (fs_join root (f_path f)) w of
             (Inl e, w) \<Rightarrow> (Some e, w)
           | (Inr fh, w) \<Rightarrow>
               (case s3_call put (put_request bucket (path_join pre (f_path f)) \<lparr>r_data = r_data fh, r_err = r_err fh\<rparr> (f_size f) sum64) w of
                  (Inl e, w) \<Rightarrow> (Some (E_wrap ''push: uploading %s: %w'' [f_path f] [e]), w)
                | (Inr _, w) \<Rightarrow> (None, w))))"

fun upload_list :: "os_env \<Rightarrow> 's put_fn \<Rightarrow> string \<Rightarrow> string \<Rightarrow> fpath \<Rightarrow> mfile list \<Rightarrow> 's world \<Rightarrow> gerr option \<times> 's world" where
  "upload_list E put bucket pre root [] w = (None, w)"
| "upload_list E put bucket pre root (f # fs) w =
     (case put_file E put bucket pre root f w of
        (e, w) \<Rightarrow> (case upload_list E put bucket pre root fs w of (e', w) \<Rightarrow> (if e = None then e' else e, w)))"

definition upload_files ::
  "os_env \<Rightarrow> (mfile list \<Rightarrow> mfile list) \<Rightarrow> 's put_fn \<Rightarrow> string \<Rightarrow> string \<Rightarrow> fpath \<Rightarrow> mfile list \<Rightarrow> 's world
   \<Rightarrow> gerr option \<times> 's world" where
  "upload_files E order put bucket pre root fs w = upload_list E put bucket pre root (order fs) w"

text \<open>The content, then the manifest if it changed.\<close>

definition publish ::
  "os_env \<Rightarrow> (mfile list \<Rightarrow> mfile list) \<Rightarrow> 's put_fn \<Rightarrow> string \<Rightarrow> string \<Rightarrow> fpath \<Rightarrow> string \<Rightarrow> bytes \<Rightarrow> mfile list \<Rightarrow> bool
   \<Rightarrow> 's world \<Rightarrow> gerr option \<times> 's world" where
  "publish E order put bucket pre root key raw todo put_m w =
     if_ok (upload_files E order put bucket pre root todo w)
       (\<lambda>w. if put_m then put_manifest put bucket key raw w else (None, w))"

definition push ::
  "os_env \<Rightarrow> (mfile list \<Rightarrow> mfile list) \<Rightarrow> 's get_fn \<Rightarrow> 's head_fn \<Rightarrow> 's put_fn \<Rightarrow> string \<Rightarrow> string \<Rightarrow> fpath \<Rightarrow> push_options
   \<Rightarrow> 's world \<Rightarrow> push_stats res \<times> 's world" where
  "push E order get head put bucket pre0 root opts w =
     (let pre = trim_suffix pre0 ''/''
      in case prepare E pre root (pu_manifest_key opts) w of
           (Inl e, w) \<Rightarrow> (Inl e, w)
         | (Inr (m, key, raw), w) \<Rightarrow>
             (let n = length (files_of m)
              in if pu_adopt opts
                 then (case put_manifest put bucket key raw w of
                         (Some e, w) \<Rightarrow> (Inl e, w)
                       | (None, w) \<Rightarrow> (Inr \<lparr>pt_uploaded = 0, pt_repaired = 0, pt_skipped = n, pt_total = n\<rparr>, w))
                 else if pu_full opts
                 then (case publish E order put bucket pre root key raw (files_of m) True w of
                         (Some e, w) \<Rightarrow> (Inl e, w)
                       | (None, w) \<Rightarrow> (Inr \<lparr>pt_uploaded = n, pt_repaired = 0, pt_skipped = 0, pt_total = n\<rparr>, w))
                 else (case diff_remote (plat E) get head bucket pre key raw (files_of m) w of
                         (Inl e, w) \<Rightarrow> (Inl e, w)
                       | (Inr d, w) \<Rightarrow>
                           if df_same d \<and> df_upload d = []
                           then (Inr \<lparr>pt_uploaded = 0, pt_repaired = 0, pt_skipped = n, pt_total = n\<rparr>, w)
                           else (case publish E order put bucket pre root key raw (df_upload d) (\<not> df_same d) w of
                                   (Some e, w) \<Rightarrow> (Inl e, w)
                                 | (None, w) \<Rightarrow>
                                     (Inr \<lparr>pt_uploaded = length (df_upload d), pt_repaired = length (df_repair d),
                                           pt_skipped = df_verified d, pt_total = n\<rparr>, w)))))"

definition push_dry_run ::
  "os_env \<Rightarrow> 's get_fn \<Rightarrow> 's head_fn \<Rightarrow> string \<Rightarrow> string \<Rightarrow> fpath \<Rightarrow> push_options \<Rightarrow> 's world \<Rightarrow> push_plan res \<times> 's world" where
  "push_dry_run E get head bucket pre0 root opts w =
     (let pre = trim_suffix pre0 ''/'';
          plan = (\<lambda>d files n. \<lparr>pn_upload = sort (map f_path files), pn_repair = df_repair d, pn_orphan = df_orphan d,
                    pn_unchanged = df_verified d, pn_total = n, pn_manifest_only = False\<rparr>)
      in case prepare E pre root (pu_manifest_key opts) w of
           (Inl e, w) \<Rightarrow> (Inl e, w)
         | (Inr (m, key, raw), w) \<Rightarrow>
             (let n = length (files_of m)
              in if pu_adopt opts
                 then (Inr \<lparr>pn_upload = [], pn_repair = [], pn_orphan = [], pn_unchanged = 0, pn_total = n, pn_manifest_only = True\<rparr>, w)
                 else if pu_full opts then (Inr (plan no_diff (files_of m) n), w)
                 else (case diff_remote (plat E) get head bucket pre key raw (files_of m) w of
                         (Inl e, w) \<Rightarrow> (Inl e, w)
                       | (Inr d, w) \<Rightarrow> (Inr (plan d (df_upload d) n), w))))"

section \<open>The local files are only read\<close>

lemma prepare_same: "prepare E pre root custom w = (r, w') \<Longrightarrow> same_fs w w'"
  by (auto simp: prepare_def same.refl elim!: and_thenE dest: build_same split: if_splits sum.splits prod.splits)

lemma remote_manifest_same: "remote_manifest P get bucket key w = (r, w') \<Longrightarrow> same_fs w w'"
  by (auto simp: remote_manifest_def dest: s3_call_same split: prod.splits sum.splits)

lemma verify_object_same: "verify_object head bucket key f w = (r, w') \<Longrightarrow> same_fs w w'"
  by (auto simp: verify_object_def dest: s3_call_same split: prod.splits sum.splits)

lemma verify_objects_same: "verify_objects head bucket pre fs w = (r, w') \<Longrightarrow> same_fs w w'"
proof (induction fs arbitrary: w r)
  case (Cons f fs)
  obtain r1 w1 where 1: "verify_object head bucket (path_join pre (f_path f)) f w = (r1, w1)" by fastforce
  obtain r2 w2 where 2: "verify_objects head bucket pre fs w1 = (r2, w2)" by fastforce
  have "w' = w2" using Cons.prems 1 2 by simp
  with verify_object_same [OF 1] Cons.IH 2 show ?case by (metis same.trans)
qed (simp add: same.refl)

lemma diff_remote_same:
  assumes "diff_remote P get head bucket pre key loc files w = (r, w')"
  shows "same_fs w w'"
proof -
  obtain rm w1 where 1: "remote_manifest P get bucket key w = (rm, w1)" by fastforce
  then have s: "same_fs w w1" by (rule remote_manifest_same)
  show ?thesis
    using assms 1 s by (auto simp: diff_remote_def Let_def dest!: verify_objects_same intro: same.trans split: sum.splits prod.splits)
qed

lemma push_dry_run_same:
  assumes "push_dry_run E get head bucket pre root opts w = (r, w')"
  shows "same_fs w w'"
proof -
  obtain q w1 where 1: "prepare E (trim_suffix pre ''/'') root (pu_manifest_key opts) w = (q, w1)" by fastforce
  then have s: "same_fs w w1" by (rule prepare_same)
  show ?thesis
    using assms 1 s by (auto simp: push_dry_run_def Let_def dest!: diff_remote_same intro: same.trans split: sum.splits prod.splits if_splits)
qed

end
