(* ===== verification/Md5.thy ===== *)
theory Md5
  imports Digest
begin

unbundle bit_operations_syntax

text \<open>
  \<open>crypto/md5\<close> of Go's standard library, which the in-memory store uses for its entity tags.
  The round's constants are in decimal.
\<close>

definition md5_k :: "u32 list" where
  "md5_k = [
   3614090360, 3905402710, 606105819, 3250441966, 4118548399, 1200080426,
   2821735955, 4249261313, 1770035416, 2336552879, 4294925233, 2304563134,
   1804603682, 4254626195, 2792965006, 1236535329, 4129170786, 3225465664,
   643717713, 3921069994, 3593408605, 38016083, 3634488961, 3889429448,
   568446438, 3275163606, 4107603335, 1163531501, 2850285829, 4243563512,
   1735328473, 2368359562, 4294588738, 2272392833, 1839030562, 4259657740,
   2763975236, 1272893353, 4139469664, 3200236656, 681279174, 3936430074,
   3572445317, 76029189, 3654602809, 3873151461, 530742520, 3299628645,
   4096336452, 1126891415, 2878612391, 4237533241, 1700485571, 2399980690,
   4293915773, 2240044497, 1873313359, 4264355552, 2734768916, 1309151649,
   4149444226, 3174756917, 718787259, 3951481745]"

definition md5_rot :: "nat list" where
  "md5_rot = concat (map (\<lambda>r. r @ r @ r @ r) [[7, 12, 17, 22], [5, 9, 14, 20], [4, 11, 16, 23], [6, 10, 15, 21]])"

type_synonym md5_state = "u32 \<times> u32 \<times> u32 \<times> u32"

definition md5_init :: md5_state where
  "md5_init = (1732584193, 4023233417, 2562383102, 271733878)"

text \<open>The mixing function of round \<open>i\<close> and the message word it takes.\<close>

definition md5_mix :: "nat \<Rightarrow> u32 \<Rightarrow> u32 \<Rightarrow> u32 \<Rightarrow> u32" where
  "md5_mix i b c d =
     (if i < 16 then (b AND c) OR (NOT b AND d)
      else if i < 32 then (d AND b) OR (NOT d AND c)
      else if i < 48 then b XOR c XOR d
      else c XOR (b OR NOT d))"

definition md5_word :: "nat \<Rightarrow> nat" where
  "md5_word i =
     (if i < 16 then i
      else if i < 32 then (5 * i + 1) mod 16
      else if i < 48 then (3 * i + 5) mod 16
      else (7 * i) mod 16)"

fun md5_round :: "u32 list \<Rightarrow> nat \<Rightarrow> md5_state \<Rightarrow> md5_state" where
  "md5_round ws i (a, b, c, d) =
     (d, b + word_rotl (md5_rot ! i) (md5_mix i b c d + a + md5_k ! i + ws ! md5_word i), b, c)"

fun md5_block :: "u32 list \<Rightarrow> md5_state \<Rightarrow> md5_state" where
  "md5_block ws (a, b, c, d) =
     (case fold (md5_round ws) [0..<64] (a, b, c, d) of (a', b', c', d') \<Rightarrow> (a + a', b + b', c + c', d + d'))"

text \<open>Words and the length are little-endian.\<close>

definition le_bytes :: "nat \<Rightarrow> nat \<Rightarrow> bytes" where
  "le_bytes k n = rev (be_bytes k (n mod 256 ^ k))"

fun md5_words :: "bytes \<Rightarrow> u32 list" where
  "md5_words (a # b # c # d # rest) =
     (of_char d * 16777216 + of_char c * 65536 + of_char b * 256 + of_char a) # md5_words rest"
| "md5_words _ = []"

function md5_blocks :: "u32 list \<Rightarrow> md5_state \<Rightarrow> md5_state" where
  "md5_blocks ws s = (if length ws < 16 then s else md5_blocks (drop 16 ws) (md5_block (take 16 ws) s))"
  by pat_completeness auto
termination
  by (relation "measure (\<lambda>(ws, s). length ws)") auto

declare md5_blocks.simps [simp del]

definition md5_pad :: "bytes \<Rightarrow> bytes" where
  "md5_pad m =
     (let n = length m
      in m @ [char_of (128::nat)] @ replicate ((119 - n mod 64) mod 64) (char_of (0::nat)) @ le_bytes 8 (n * 8))"

definition md5 :: "bytes \<Rightarrow> bytes" where
  "md5 m =
     (case md5_blocks (md5_words (md5_pad m)) md5_init of (a, b, c, d) \<Rightarrow>
        concat (map (\<lambda>x. le_bytes 4 (unat x)) [a, b, c, d]))"

definition md5_hex :: "bytes \<Rightarrow> string" where
  "md5_hex m = hex_encode (md5 m)"

lemma length_md5 [simp]: "length (md5 m) = 16"
  by (simp add: md5_def le_bytes_def split: prod.splits)

end
