(* ===== verification/Fake.thy ===== *)
theory Fake
  imports S3Api Md5 Json "HOL-Library.AList"
begin

text \<open>
  \<open>pkg/s3test/fake.go\<close>: the in-memory S3 store. Its maps are association lists, its hooks a
  record beside the state, its mutex implicit: a call is one step. What the program relies on
  is in \<open>PushStore\<close> (the contract of puts, heads and gets) and \<open>FakeFacts\<close> (listings, ranges,
  deletes).
\<close>

section \<open>The state\<close>

record fake =
  fk_objects :: "(string \<times> bytes) list"
  fk_mod :: "(string \<times> int) list"
  fk_sums :: "(string \<times> string) list"
  fk_etags :: "(string \<times> string) list"
  fk_versions :: "(string \<times> string) list"
  fk_put_algo :: "(string \<times> bool) list"
  fk_put_sum :: "(string \<times> string) list"
  fk_get_mode :: "(string \<times> bool) list"
  fk_head_mode :: "(string \<times> bool) list"
  fk_put_order :: "string list"
  fk_get_order :: "string list"
  fk_head_order :: "string list"
  fk_del_order :: "string list"
  fk_in_flight :: nat
  fk_max_in_flight :: nat

text \<open>The hooks; \<open>hk_ctx_done\<close> tells whether the caller's context is done.\<close>

record fake_hooks =
  hk_put_err :: "string \<Rightarrow> nat \<Rightarrow> gerr option"
  hk_before_put :: "string \<Rightarrow> reader \<Rightarrow> reader"
  hk_put_delay :: int
  hk_get_body :: "string \<Rightarrow> bytes \<Rightarrow> bytes"
  hk_before_get :: "string \<Rightarrow> fake \<Rightarrow> fake"
  hk_delete_err :: "string \<Rightarrow> string option"
  hk_head_err :: "string \<Rightarrow> gerr option"
  hk_head_checksum :: "string \<Rightarrow> string \<Rightarrow> string"
  hk_head_delay :: int
  hk_ignore_range :: bool
  hk_ctx_done :: bool

definition new_fake :: fake where
  "new_fake = \<lparr>fk_objects = [], fk_mod = [], fk_sums = [], fk_etags = [], fk_versions = [], fk_put_algo = [],
     fk_put_sum = [], fk_get_mode = [], fk_head_mode = [], fk_put_order = [], fk_get_order = [],
     fk_head_order = [], fk_del_order = [], fk_in_flight = 0, fk_max_in_flight = 0\<rparr>"

definition no_hooks :: fake_hooks where
  "no_hooks = \<lparr>hk_put_err = \<lambda>_ _. None, hk_before_put = \<lambda>_ r. r, hk_put_delay = 0, hk_get_body = \<lambda>_ b. b,
     hk_before_get = \<lambda>_ f. f, hk_delete_err = \<lambda>_. None, hk_head_err = \<lambda>_. None,
     hk_head_checksum = \<lambda>_ s. s, hk_head_delay = 0, hk_ignore_range = False, hk_ctx_done = False\<rparr>"

section \<open>Puts and heads\<close>

definition fake_enter :: "fake \<Rightarrow> fake" where
  "fake_enter f = f\<lparr>fk_in_flight := fk_in_flight f + 1,
     fk_max_in_flight := max (fk_max_in_flight f) (fk_in_flight f + 1)\<rparr>"

definition fake_leave :: "fake \<Rightarrow> fake" where
  "fake_leave f = f\<lparr>fk_in_flight := fk_in_flight f - 1\<rparr>"

definition fake_sleep :: "fake_hooks \<Rightarrow> int \<Rightarrow> gerr option" where
  "fake_sleep h d = (if d \<le> 0 then None else if hk_ctx_done h then Some (E_new ''context canceled'' []) else None)"

definition content_sum :: "bytes \<Rightarrow> string" where
  "content_sum d = base64_encode (sha256 d)"

definition fake_accept :: "put_in \<Rightarrow> string \<Rightarrow> bytes \<Rightarrow> fake \<Rightarrow> fake" where
  "fake_accept inp key body f =
     f\<lparr>fk_objects := AList.update key body (fk_objects f),
       fk_etags := AList.delete key (fk_etags f),
       fk_versions := AList.delete key (fk_versions f),
       fk_put_algo := AList.update key (pi_sha256 inp) (fk_put_algo f),
       fk_put_sum := AList.update key (to_string (pi_sum inp)) (fk_put_sum f),
       fk_sums := (if pi_sha256 inp then AList.update key (content_sum body) (fk_sums f)
                   else AList.delete key (fk_sums f))\<rparr>"

text \<open>The checks of a put, in order: the delay, the hook, the length, the checksum.\<close>

definition put_refused :: "fake_hooks \<Rightarrow> put_in \<Rightarrow> bytes \<Rightarrow> nat \<Rightarrow> gerr option" where
  "put_refused h inp body sq =
     (case fake_sleep h (hk_put_delay h) of
        Some e \<Rightarrow> Some e
      | None \<Rightarrow>
          (case hk_put_err h (pi_key inp) sq of
             Some e \<Rightarrow> Some e
           | None \<Rightarrow>
               if pi_length inp \<noteq> None \<and> pi_length inp \<noteq> Some (int (length body)) then Some (E_api ''InvalidRequest'')
               else if to_string (pi_sum inp) \<noteq> [] \<and> to_string (pi_sum inp) \<noteq> content_sum body
               then Some (E_api ''BadDigest'')
               else None))"

definition fake_put :: "fake_hooks \<Rightarrow> (put_in, unit, fake) s3_call" where
  "fake_put h inp f =
     (let key = pi_key inp
      in case io_read_all (hk_before_put h key (pi_body inp)) of
           Inl e \<Rightarrow> (Inl e, f)
         | Inr body \<Rightarrow>
             (let f = fake_enter (f\<lparr>fk_put_order := fk_put_order f @ [key]\<rparr>)
              in case put_refused h inp body (length (fk_put_order f)) of
                   Some e \<Rightarrow> (Inl e, fake_leave f)
                 | None \<Rightarrow> (Inr (), fake_leave (fake_accept inp key body f))))"

definition fake_head :: "fake_hooks \<Rightarrow> (head_in, head_out, fake) s3_call" where
  "fake_head h inp f =
     (let key = hi_key inp;
          f = fake_enter (f\<lparr>fk_head_order := fk_head_order f @ [key], fk_head_mode := AList.update key (hi_checksum inp) (fk_head_mode f)\<rparr>)
      in case fake_sleep h (hk_head_delay h) of
           Some e \<Rightarrow> (Inl e, fake_leave f)
         | None \<Rightarrow>
             (case hk_head_err h key of
                Some e \<Rightarrow> (Inl e, fake_leave f)
              | None \<Rightarrow>
                  (case map_of (fk_objects f) key of
                     None \<Rightarrow> (Inl (E_api ''NotFound''), fake_leave f)
                   | Some body \<Rightarrow>
                       (Inr \<lparr>ho_length = Some (int (length body)),
                             ho_sum = map_option (hk_head_checksum h key) (map_of (fk_sums f) key),
                             ho_composite = False\<rparr>, fake_leave f))))"

section \<open>Gets\<close>

definition fake_etag :: "fake \<Rightarrow> string \<Rightarrow> string" where
  "fake_etag f key =
     (case map_of (fk_etags f) key of
        Some e \<Rightarrow> e
      | None \<Rightarrow> CHR 0x22 # md5_hex (case map_of (fk_objects f) key of None \<Rightarrow> [] | Some b \<Rightarrow> b) @ [CHR 0x22])"

text \<open>\<open>strings.CutPrefix\<close> and \<open>strings.Cut\<close>.\<close>

definition cut_prefix :: "string \<Rightarrow> string \<Rightarrow> string option" where
  "cut_prefix s p = (if prefix p s then Some (drop (length p) s) else None)"

definition cut :: "char \<Rightarrow> string \<Rightarrow> (string \<times> string) option" where
  "cut c s = (if c \<in> set s then Some (takeWhile (\<lambda>x. x \<noteq> c) s, tl (dropWhile (\<lambda>x. x \<noteq> c) s)) else None)"

definition parse_range :: "string \<Rightarrow> (int \<times> int) option" where
  "parse_range h =
     (case cut_prefix h ''bytes='' of
        None \<Rightarrow> None
      | Some spec \<Rightarrow>
          (case cut CHR ''-'' spec of
             None \<Rightarrow> None
           | Some (from, to) \<Rightarrow>
               (case parse_int from of
                  None \<Rightarrow> None
                | Some start \<Rightarrow>
                    if start < 0 then None
                    else if to = [] then Some (start, 2 ^ 62 - 1)
                    else (case parse_int to of
                            None \<Rightarrow> None
                          | Some stop \<Rightarrow> if stop < start then None else Some (start, stop)))))"

definition http_error :: "nat \<Rightarrow> string \<Rightarrow> gerr" where
  "http_error st code = E_http st code"

definition whole_out :: "string \<Rightarrow> string \<Rightarrow> bytes \<Rightarrow> get_out" where
  "whole_out etag vid body =
     \<lparr>go_body = \<lparr>r_data = body, r_err = None\<rparr>, go_etag = Some etag, go_version = (if vid \<noteq> [] then Some vid else None),
      go_range = None, go_length = Some (int (length body))\<rparr>"

text \<open>What is served of a body for a \<open>Range\<close> header.\<close>

definition serve_range :: "bool \<Rightarrow> string \<Rightarrow> string \<Rightarrow> string \<Rightarrow> bytes \<Rightarrow> get_out res" where
  "serve_range ignore rng etag vid body =
     (case (if ignore then None else parse_range rng) of
        None \<Rightarrow> Inr (whole_out etag vid body)
      | Some (start, stop) \<Rightarrow>
          if start \<ge> int (length body) then Inl (http_error 416 ''InvalidRange'')
          else (let stop = min stop (int (length body) - 1)
                in Inr (whole_out etag vid (take (nat (stop + 1 - start)) (drop (nat start) body))
                     \<lparr>go_range := Some (''bytes '' @ fmt_int start @ ''-'' @ fmt_int stop @ ''/'' @ fmt_int (int (length body)))\<rparr>)))"

definition fake_get :: "fake_hooks \<Rightarrow> (get_in, get_out, fake) s3_call" where
  "fake_get h inp f =
     (let key = gi_key inp;
          f = hk_before_get h key f;
          f = f\<lparr>fk_get_order := fk_get_order f @ [key], fk_get_mode := AList.update key (gi_checksum inp) (fk_get_mode f)\<rparr>;
          etag = fake_etag f key;
          vid = to_string (map_of (fk_versions f) key)
      in case map_of (fk_objects f) key of
           None \<Rightarrow> (Inl (E_api ''NoSuchKey''), f)
         | Some body \<Rightarrow>
             if to_string (gi_if_match inp) \<noteq> [] \<and> to_string (gi_if_match inp) \<noteq> etag
             then (Inl (http_error 412 ''PreconditionFailed''), f)
             else (serve_range (hk_ignore_range h) (to_string (gi_range inp)) etag vid (hk_get_body h key body), f))"

section \<open>Seeding\<close>

definition set_etag :: "string \<Rightarrow> string \<Rightarrow> fake \<Rightarrow> fake" where
  "set_etag key etag f = f\<lparr>fk_etags := AList.update key etag (fk_etags f)\<rparr>"

definition set_version_id :: "string \<Rightarrow> string \<Rightarrow> fake \<Rightarrow> fake" where
  "set_version_id key vid f = f\<lparr>fk_versions := AList.update key vid (fk_versions f)\<rparr>"

definition fake_store :: "string \<Rightarrow> bytes \<Rightarrow> fake \<Rightarrow> fake" where
  "fake_store key body f =
     f\<lparr>fk_objects := AList.update key body (fk_objects f), fk_sums := AList.delete key (fk_sums f),
       fk_etags := AList.delete key (fk_etags f), fk_versions := AList.delete key (fk_versions f)\<rparr>"

definition store_at :: "string \<Rightarrow> bytes \<Rightarrow> int \<Rightarrow> fake \<Rightarrow> fake" where
  "store_at key body t f = (fake_store key body f)\<lparr>fk_mod := AList.update key t (fk_mod f)\<rparr>"

definition fake_delete :: "string \<Rightarrow> fake \<Rightarrow> fake" where
  "fake_delete key f =
     f\<lparr>fk_objects := AList.delete key (fk_objects f), fk_mod := AList.delete key (fk_mod f),
       fk_sums := AList.delete key (fk_sums f), fk_etags := AList.delete key (fk_etags f),
       fk_versions := AList.delete key (fk_versions f)\<rparr>"

section \<open>Listing and deleting\<close>

text \<open>The zero \<open>time.Time\<close>, in nanoseconds of the epoch.\<close>

definition zero_time :: int where
  "zero_time = -62135596800000000000"

definition keys_after :: "fake \<Rightarrow> string \<Rightarrow> string \<Rightarrow> string list" where
  "keys_after f pre token = sort [k \<leftarrow> remdups (map fst (fk_objects f)). prefix pre k \<and> k > token]"

definition fake_list :: "(list_in, list_out, fake) s3_call" where
  "fake_list inp f =
     (let mx = (case li_max inp of Some n \<Rightarrow> if n > 0 then n else 1000 | None \<Rightarrow> 1000);
          keys = keys_after f (li_prefix inp) (to_string (li_token inp));
          truncated = length keys > mx;
          page = (if truncated then take mx keys else keys)
      in (Inr \<lparr>lo_contents = map (\<lambda>k. \<lparr>ob_key = Some k,
                 ob_modified = Some (case map_of (fk_mod f) k of None \<Rightarrow> zero_time | Some t \<Rightarrow> t)\<rparr>) page,
               lo_truncated = truncated, lo_next = (if truncated then Some (last page) else None)\<rparr>, f))"

fun delete_keys :: "fake_hooks \<Rightarrow> bool \<Rightarrow> string list \<Rightarrow> delete_out \<Rightarrow> fake \<Rightarrow> delete_out \<times> fake" where
  "delete_keys h quiet [] out f = (out, f)"
| "delete_keys h quiet (k # ks) out f =
     (case hk_delete_err h k of
        Some msg \<Rightarrow> delete_keys h quiet ks (out\<lparr>do_errors := do_errors out @ [(k, msg)]\<rparr>) f
      | None \<Rightarrow>
          (let f = fake_delete k f
           in delete_keys h quiet ks (if quiet then out else out\<lparr>do_deleted := do_deleted out @ [k]\<rparr>)
                (f\<lparr>fk_del_order := fk_del_order f @ [k]\<rparr>)))"

definition fake_delete_objects :: "fake_hooks \<Rightarrow> (delete_in, delete_out, fake) s3_call" where
  "fake_delete_objects h inp f =
     (case delete_keys h (di_quiet inp) (di_keys inp) \<lparr>do_deleted = [], do_errors = []\<rparr> f of (out, f) \<Rightarrow> (Inr out, f))"

section \<open>Reading the record\<close>

definition fake_object :: "fake \<Rightarrow> string \<Rightarrow> bytes option" where
  "fake_object f key = map_of (fk_objects f) key"

definition reset_calls :: "fake \<Rightarrow> fake" where
  "reset_calls f = f\<lparr>fk_put_order := [], fk_get_order := [], fk_head_order := [], fk_del_order := [], fk_max_in_flight := 0\<rparr>"

definition fake_puts :: "fake \<Rightarrow> string list" where
  "fake_puts f = fk_put_order f"

definition fake_gets :: "fake \<Rightarrow> string list" where
  "fake_gets f = fk_get_order f"

definition fake_heads :: "fake \<Rightarrow> string list" where
  "fake_heads f = fk_head_order f"

definition fake_deletes :: "fake \<Rightarrow> string list" where
  "fake_deletes f = fk_del_order f"

definition put_algorithm :: "fake \<Rightarrow> string \<Rightarrow> bool" where
  "put_algorithm f key = (case map_of (fk_put_algo f) key of None \<Rightarrow> False | Some b \<Rightarrow> b)"

definition put_checksum :: "fake \<Rightarrow> string \<Rightarrow> string" where
  "put_checksum f key = to_string (map_of (fk_put_sum f) key)"

definition get_mode :: "fake \<Rightarrow> string \<Rightarrow> bool" where
  "get_mode f key = (case map_of (fk_get_mode f) key of None \<Rightarrow> False | Some b \<Rightarrow> b)"

definition head_mode :: "fake \<Rightarrow> string \<Rightarrow> bool" where
  "head_mode f key = (case map_of (fk_head_mode f) key of None \<Rightarrow> False | Some b \<Rightarrow> b)"

definition max_in_flight :: "fake \<Rightarrow> nat" where
  "max_in_flight f = fk_max_in_flight f"

end
