(* ===== verification/PushStore.thy ===== *)
theory PushStore
  imports Push Fake "HOL-Library.Multiset"
begin

text \<open>
  What a push leaves in the store, proved against a contract of the store's operations, and
  the in-memory store as its interpretation. The contract is S3's: a put replaces one object
  or nothing, and never by bytes that differ from the supplied checksum; a failed put may
  have gone through; a head tells of the object that is there.
\<close>

locale content_store =
  fixes put :: "'s put_fn" and head :: "'s head_fn" and get :: "'s get_fn"
    and objects :: "'s \<Rightarrow> string \<Rightarrow> bytes option" and ok :: "'s \<Rightarrow> bool"
  assumes put_ok: "put i s = (r, s') \<Longrightarrow> ok s \<Longrightarrow> ok s'"
    and put_other: "put i s = (r, s') \<Longrightarrow> ok s \<Longrightarrow> k \<noteq> pi_key i \<Longrightarrow> objects s' k = objects s k"
    and put_done: "put i s = (Inr u, s') \<Longrightarrow> ok s \<Longrightarrow> pi_sum i = Some c \<Longrightarrow> c \<noteq> [] \<Longrightarrow> pi_length i = Some n \<Longrightarrow>
      \<exists>d. objects s' (pi_key i) = Some d \<and> content_sum d = c \<and> int (length d) = n"
    and put_failed: "put i s = (Inl e, s') \<Longrightarrow> ok s \<Longrightarrow> pi_sum i = Some c \<Longrightarrow> c \<noteq> [] \<Longrightarrow> pi_length i = Some n \<Longrightarrow>
      objects s' (pi_key i) = objects s (pi_key i) \<or>
      (\<exists>d. objects s' (pi_key i) = Some d \<and> content_sum d = c \<and> int (length d) = n)"
    and head_keeps: "head j s = (r', s') \<Longrightarrow> ok s \<Longrightarrow> ok s' \<and> objects s' = objects s"
    and head_tells: "head j s = (Inr out, s') \<Longrightarrow> ok s \<Longrightarrow> hi_checksum j \<Longrightarrow> ho_sum out = Some c \<Longrightarrow>
      \<not> ho_composite out \<Longrightarrow> CHR ''-'' \<notin> set c \<Longrightarrow>
      \<exists>d. objects s (hi_key j) = Some d \<and> content_sum d = c \<and> ho_length out = Some (int (length d))"
    and get_keeps: "get l s = (r'', s') \<Longrightarrow> ok s \<Longrightarrow> ok s' \<and> objects s' = objects s"
    and get_gives: "get (get_request b k) s = (Inr go, s') \<Longrightarrow> ok s \<Longrightarrow>
      \<exists>d. objects s k = Some d \<and> prefix (r_data (go_body go)) d"

text \<open>An entry's object is in place: its bytes have the entry's size and digest.\<close>

definition in_place :: "('s \<Rightarrow> string \<Rightarrow> bytes option) \<Rightarrow> string \<Rightarrow> mfile \<Rightarrow> 's \<Rightarrow> bool" where
  "in_place objects pre f s \<longleftrightarrow>
     (\<exists>d. objects s (path_join pre (f_path f)) = Some d \<and> sha256_hex d = f_sha256 f \<and> int (length d) = f_size f)"

lemma in_place_cong:
  "objects s' (path_join pre (f_path f)) = objects s (path_join pre (f_path f)) \<Longrightarrow> in_place objects pre f s' = in_place objects pre f s"
  by (simp add: in_place_def)

lemma b64_sha256_sum:
  assumes "b64_sha256 f = Inr c" "is_sha256 (f_sha256 f)"
  shows "content_sum d = c \<longleftrightarrow> sha256_hex d = f_sha256 f" "c \<noteq> []"
proof -
  obtain x where x: "hex_decode (f_sha256 f) = Some x" "c = base64_encode x"
    using assms(1) by (auto simp: b64_sha256_def split: option.splits)
  have low: "list_all is_hex_lower (f_sha256 f)"
    using assms(2) by (auto simp: is_sha256_iff is_hex_lower_def list_all_iff)
  have e: "hex_encode x = f_sha256 f" by (rule hex_encode_decode [OF low x(1)])
  have "length (hex_encode x) = 64" using e assms(2) by (simp add: is_sha256_iff)
  then have l: "length x = 32" by simp
  show "content_sum d = c \<longleftrightarrow> sha256_hex d = f_sha256 f"
    using l base64_encode_inj [of "sha256 d" x] hex_encode_inj [of "sha256 d" x]
    by (auto simp: content_sum_def x(2) sha256_hex_def e [symmetric])
  have "x \<noteq> []" using l by auto
  then show "c \<noteq> []" unfolding x(2) using length_b64_nat by (cases x rule: base64_encode.cases) (auto dest: arg_cong [where f = length])
qed

lemma b64_sha256_total: "is_sha256 (f_sha256 f) \<Longrightarrow> \<exists>c. b64_sha256 f = Inr c"
proof -
  assume s: "is_sha256 (f_sha256 f)"
  have "list_all is_hex_lower (f_sha256 f)" "even (length (f_sha256 f))"
    using s by (auto simp: is_sha256_iff is_hex_lower_def list_all_iff)
  then have "\<exists>d. hex_decode (f_sha256 f) = Some d" using hex_decode_lower_Some by blast
  then show ?thesis by (auto simp: b64_sha256_def)
qed

text \<open>The manifest's object: the one just put, or one that was there and encodes the same.\<close>

definition published :: "('s \<Rightarrow> string \<Rightarrow> bytes option) \<Rightarrow> platform \<Rightarrow> string \<Rightarrow> bytes \<Rightarrow> 's \<Rightarrow> bool" where
  "published objects P key raw s \<longleftrightarrow>
     (\<exists>d. objects s key = Some d \<and>
       (sha256 d = sha256 raw \<and> length d = length raw \<or> (\<exists>p rm. prefix p d \<and> decode P p = Inr rm \<and> snd (encode rm) = raw)))"

text \<open>What the local manifest guarantees of the files and the manifest's key.\<close>

definition pushable :: "string \<Rightarrow> string \<Rightarrow> mfile list \<Rightarrow> bool" where
  "pushable pre key fs \<longleftrightarrow>
     (\<forall>f \<in> set fs. plain_path (f_path f) \<and> is_sha256 (f_sha256 f) \<and> path_join pre (f_path f) \<noteq> key) \<and>
     distinct (map f_path fs)"

lemma pushable_keys:
  assumes "pushable pre key fs" "f \<in> set fs" "g \<in> set fs" "path_join pre (f_path f) = path_join pre (f_path g)"
  shows "f = g"
proof -
  have "f_path f = f_path g" using assms path_join_inj by (simp add: pushable_def)
  with assms(1-3) show ?thesis by (auto simp: pushable_def distinct_map inj_on_def)
qed

section \<open>The local side\<close>

lemma hash_file_client: "hash_file E p rel w = (r, w') \<Longrightarrow> same_client w w'"
  by (auto simp: hash_file_def dest: os_open_client split: prod.splits sum.splits)

lemma build_walk_client: "build_walk E root p d err files w = (r, w') \<Longrightarrow> same_client w w'"
  by (auto simp: build_walk_def Let_def client.refl dest: hash_file_client
      split: option.splits node.splits if_splits prod.splits sum.splits)

lemma build_client: "build E root w = (r, w') \<Longrightarrow> same_client w w'"
  by (auto simp: build_def Let_def split: prod.splits sum.splits option.splits
      dest!: client.walk_dir_step [rotated, OF _ build_walk_client])

lemma resolve_manifest_key_Inr:
  assumes "resolve_manifest_key pre custom fs = Inr key" "f \<in> set fs" "plain_path (f_path f)" "f_path f \<noteq> manifest_name"
  shows "path_join pre (f_path f) \<noteq> key"
proof (cases "custom = []")
  case True
  have "plain_path manifest_name" by (simp add: plain_path_def manifest_name_def plain_comp_def)
  with assms path_join_inj [of "f_path f" manifest_name pre] True show ?thesis by (auto simp: resolve_manifest_key_def)
next
  case False
  with assms show ?thesis by (auto simp: resolve_manifest_key_def list_ex_iff split: if_splits)
qed

lemma files_of_sort: "files_of (sort_files m) = sort_key f_path (files_of m)"
  by (simp add: sort_files_def files_of_def split: option.splits)

lemma prepare_Inr:
  assumes run: "prepare E pre root custom w = (Inr (m, key, raw), w')" and w: "wf w" and dir: "look w root = Some Dir"
  shows "same_client w w'" "pushable pre key (files_of m)" "valid_manifest (plat E) m"
    "tree_matches (plat E) m (tree_at w root)" "goos (plat E) \<noteq> ''windows''" "m_version m = manifest_version"
proof -
  from run obtain m0 where b: "build E root w = (Inr m0, w')" and k: "resolve_manifest_key pre custom (files_of m0) = Inr key"
    and e: "encode m0 = (m, raw)" and g: "goos (plat E) \<noteq> ''windows''"
    by (auto simp: prepare_def and_then_def split: if_splits sum.splits prod.splits)
  note bm = build_matches [OF b w dir]
  have m: "m = sort_files m0" using e by (simp add: encode_def Let_def)
  have fs: "set (files_of m) = set (files_of m0)" "mset (files_of m) = mset (files_of m0)" by (simp_all add: m files_of_sort)
  show "same_client w w'" using b by (rule build_client)
  show "goos (plat E) \<noteq> ''windows''" by (rule g)
  show "m_version m = manifest_version" using bm(1) by (simp add: m sort_files_def)
  have dist: "distinct (map h (files_of m)) = distinct (map h (files_of m0))" for h :: "mfile \<Rightarrow> string"
    using fs(2) by (metis mset_eq_imp_distinct_iff mset_map)
  show v: "valid_manifest (plat E) m"
    using bm(2) dist by (simp add: valid_manifest_def list_all_iff fs(1))
  have "plain_path (f_path f) \<and> is_sha256 (f_sha256 f) \<and> path_join pre (f_path f) \<noteq> key" if f: "f \<in> set (files_of m)" for f
  proof -
    have p: "plain_path (f_path f)" using valid_manifest_plain [OF v f] .
    moreover have "is_sha256 (f_sha256 f)" using v f by (auto simp: valid_manifest_def list_all_iff entry_ok_def is_sha256_iff)
    moreover have "path_join pre (f_path f) \<noteq> key"
    proof (rule resolve_manifest_key_Inr [OF k _ p])
      show "f \<in> set (files_of m0)" using f fs(1) by simp
      then show "f_path f \<noteq> manifest_name" using bm(4) by force
    qed
    ultimately show ?thesis by blast
  qed
  with valid_manifest_distinct [OF v] show "pushable pre key (files_of m)" by (simp add: pushable_def)
  show "tree_matches (plat E) m (tree_at w root)" using bm(3) by (simp add: tree_matches_def fs(1))
qed

section \<open>The diff\<close>

lemma split_files_mset: "split_files fs remote = (cand, up, rest) \<Longrightarrow> mset fs = mset cand + mset up"
  by (induction fs arbitrary: remote cand up rest) (auto split: prod.splits if_splits)

lemma apply_verdicts_result:
  "df_upload (apply_verdicts fvs d) = df_upload d @ [f. (f, v) \<leftarrow> fvs, vd_reason v \<noteq> []]"
  "df_same (apply_verdicts fvs d) = df_same d"
  by (induction fvs d rule: apply_verdicts.induct) simp_all

context content_store
begin

lemma put_file_effect:
  assumes run: "put_file E put bucket pre root f w = (e, w')" and ok: "ok (w_s3 w)" and f: "is_sha256 (f_sha256 f)"
  shows "ok (w_s3 w')" "k \<noteq> path_join pre (f_path f) \<Longrightarrow> objects (w_s3 w') k = objects (w_s3 w) k"
    "e = None \<Longrightarrow> in_place objects pre f (w_s3 w')"
proof -
  obtain c where c: "b64_sha256 f = Inr c" using b64_sha256_total [OF f] by blast
  note sum = b64_sha256_sum [OF c f]
  obtain r1 w1 where o: "os_open E (fs_join root (f_path f)) w = (r1, w1)" by fastforce
  have s1: "w_s3 w1 = w_s3 w"
    using o by (auto simp: os_open_def sys_def Let_def split: if_splits option.splits node.splits)
  have "ok (w_s3 w') \<and> (k \<noteq> path_join pre (f_path f) \<longrightarrow> objects (w_s3 w') k = objects (w_s3 w) k) \<and>
    (e = None \<longrightarrow> in_place objects pre f (w_s3 w'))"
  proof (cases r1)
    case (Inl x)
    with run c o ok s1 show ?thesis by (auto simp: put_file_def)
  next
    case (Inr fh)
    let ?i = "put_request bucket (path_join pre (f_path f)) \<lparr>r_data = r_data fh, r_err = r_err fh\<rparr> (f_size f) c"
    obtain r2 s2 where p: "put ?i (w_s3 w1) = (r2, s2)" by fastforce
    have i: "pi_key ?i = path_join pre (f_path f)" "pi_sum ?i = Some c" "pi_length ?i = Some (f_size f)"
      by (simp_all add: put_request_def)
    have w': "w_s3 w' = s2" "e = None \<longleftrightarrow> (\<exists>u. r2 = Inr u)"
      using run c o Inr p by (auto simp: put_file_def s3_call_def split: sum.splits)
    have ok1: "ok (w_s3 w1)" using ok s1 by simp
    show ?thesis
      using put_ok [OF p ok1] put_other [OF p ok1, of k] put_done [of ?i "w_s3 w1" _ s2 c "f_size f"] p ok1 sum i s1
      by (auto simp: w' in_place_def)
  qed
  then show "ok (w_s3 w')" "k \<noteq> path_join pre (f_path f) \<Longrightarrow> objects (w_s3 w') k = objects (w_s3 w) k"
    "e = None \<Longrightarrow> in_place objects pre f (w_s3 w')" by blast+
qed

lemma upload_list_effect:
  assumes "upload_list E put bucket pre root fs w = (e, w')" "ok (w_s3 w)" "pushable pre key fs"
  shows "ok (w_s3 w') \<and> (\<forall>k. k \<notin> (\<lambda>f. path_join pre (f_path f)) ` set fs \<longrightarrow> objects (w_s3 w') k = objects (w_s3 w) k) \<and>
    (e = None \<longrightarrow> (\<forall>f \<in> set fs. in_place objects pre f (w_s3 w')))"
  using assms
proof (induction fs arbitrary: e w)
  case Nil
  then show ?case by simp
next
  case (Cons f fs)
  obtain e1 w1 where 1: "put_file E put bucket pre root f w = (e1, w1)" by fastforce
  obtain e2 w2 where 2: "upload_list E put bucket pre root fs w1 = (e2, w2)" by fastforce
  have e: "w2 = w'" "e = None \<longleftrightarrow> e1 = None \<and> e2 = None" using Cons.prems(1) 1 2 by (auto split: if_splits)
  have p: "pushable pre key fs" "is_sha256 (f_sha256 f)" using Cons.prems(3) by (auto simp: pushable_def)
  note eff = put_file_effect [OF 1 Cons.prems(2) p(2)]
  note ih = Cons.IH [OF 2 [unfolded e(1)] eff(1) p(1)]
  have nin: "path_join pre (f_path f) \<notin> (\<lambda>f. path_join pre (f_path f)) ` set fs"
  proof
    assume "path_join pre (f_path f) \<in> (\<lambda>f. path_join pre (f_path f)) ` set fs"
    then obtain g where g: "g \<in> set fs" "path_join pre (f_path f) = path_join pre (f_path g)" by auto
    then have "f = g" using pushable_keys [OF Cons.prems(3), of f g] by simp
    with g(1) Cons.prems(3) show False by (auto simp: pushable_def)
  qed
  then have i: "in_place objects pre f (w_s3 w') = in_place objects pre f (w_s3 w1)"
    using ih by (intro in_place_cong) simp
  show ?case
  proof (intro conjI allI impI ballI)
    show "ok (w_s3 w')" using ih by blast
    show "objects (w_s3 w') k = objects (w_s3 w) k" if "k \<notin> (\<lambda>f. path_join pre (f_path f)) ` set (f # fs)" for k
      using that ih eff(2) [of k] by simp
    show "in_place objects pre g (w_s3 w')" if "e = None" "g \<in> set (f # fs)" for g
      using that ih eff(3) i e(2) by auto
  qed
qed

lemma put_manifest_effect:
  assumes run: "put_manifest put bucket key raw w = (e, w')" and ok: "ok (w_s3 w)"
  shows "ok (w_s3 w')" "k \<noteq> key \<Longrightarrow> objects (w_s3 w') k = objects (w_s3 w) k"
    "e = None \<Longrightarrow> \<exists>d. objects (w_s3 w') key = Some d \<and> sha256 d = sha256 raw \<and> length d = length raw"
proof -
  let ?i = "put_request bucket key \<lparr>r_data = raw, r_err = None\<rparr> (int (length raw)) (content_sum raw)"
  obtain r2 s2 where p: "put ?i (w_s3 w) = (r2, s2)" by fastforce
  have i: "pi_key ?i = key" "pi_sum ?i = Some (content_sum raw)" "pi_length ?i = Some (int (length raw))"
    by (simp_all add: put_request_def)
  have w': "w_s3 w' = s2" "e = None \<longleftrightarrow> (\<exists>u. r2 = Inr u)"
    using run p by (auto simp: put_manifest_def s3_call_def content_sum_def split: sum.splits)
  have ne: "content_sum raw \<noteq> []"
    unfolding content_sum_def using length_sha256 [of raw]
    by (cases "sha256 raw" rule: base64_encode.cases) (auto dest: arg_cong [where f = length] simp del: length_sha256)
  have eq: "content_sum d = content_sum raw \<longleftrightarrow> sha256 d = sha256 raw" for d
    using base64_encode_inj [of "sha256 d" "sha256 raw"] by (auto simp: content_sum_def)
  show "ok (w_s3 w')" using put_ok [OF p ok] by (simp add: w')
  show "objects (w_s3 w') k = objects (w_s3 w) k" if "k \<noteq> key"
    using put_other [OF p ok] that by (simp add: w' i)
  show "\<exists>d. objects (w_s3 w') key = Some d \<and> sha256 d = sha256 raw \<and> length d = length raw" if "e = None"
    using put_done [of ?i "w_s3 w" _ s2, OF _ ok i(2) ne i(3)] p that by (auto simp: w' i eq)
qed

text \<open>The content is up before the manifest changes: at every end of a publication, failed or
  not, the manifest's object is the old one or all the content it names is in place.\<close>

lemma publish_effect:
  assumes run: "publish E order put bucket pre root key raw todo put_m w = (e, w')" and ok: "ok (w_s3 w)"
    and p: "pushable pre key todo" and o: "\<And>xs. mset (order xs) = mset xs"
  shows "ok (w_s3 w')"
    "k \<noteq> key \<Longrightarrow> k \<notin> (\<lambda>f. path_join pre (f_path f)) ` set todo \<Longrightarrow> objects (w_s3 w') k = objects (w_s3 w) k"
    "objects (w_s3 w') key = objects (w_s3 w) key \<or> (\<forall>f \<in> set todo. in_place objects pre f (w_s3 w'))"
    "e = None \<Longrightarrow> (\<forall>f \<in> set todo. in_place objects pre f (w_s3 w')) \<and>
       (if put_m then \<exists>d. objects (w_s3 w') key = Some d \<and> sha256 d = sha256 raw \<and> length d = length raw
        else objects (w_s3 w') key = objects (w_s3 w) key)"
proof -
  have s: "set (order todo) = set todo" using o by (metis set_mset_mset)
  have p': "pushable pre key (order todo)"
    using p o [of todo] s by (auto simp: pushable_def) (metis mset_eq_imp_distinct_iff mset_map)
  obtain e1 w1 where 1: "upload_list E put bucket pre root (order todo) w = (e1, w1)" by fastforce
  have up: "ok (w_s3 w1)" "\<And>k. k \<notin> (\<lambda>f. path_join pre (f_path f)) ` set todo \<Longrightarrow> objects (w_s3 w1) k = objects (w_s3 w) k"
    "e1 = None \<Longrightarrow> f \<in> set todo \<Longrightarrow> in_place objects pre f (w_s3 w1)" for f
    using upload_list_effect [OF 1 ok p'] s by simp_all
  have key: "key \<notin> (\<lambda>f. path_join pre (f_path f)) ` set todo" using p by (auto simp: pushable_def)
  have "ok (w_s3 w') \<and>
    (k \<noteq> key \<longrightarrow> k \<notin> (\<lambda>f. path_join pre (f_path f)) ` set todo \<longrightarrow> objects (w_s3 w') k = objects (w_s3 w) k) \<and>
    (objects (w_s3 w') key = objects (w_s3 w) key \<or> (\<forall>f \<in> set todo. in_place objects pre f (w_s3 w'))) \<and>
    (e = None \<longrightarrow> (\<forall>f \<in> set todo. in_place objects pre f (w_s3 w')) \<and>
       (if put_m then \<exists>d. objects (w_s3 w') key = Some d \<and> sha256 d = sha256 raw \<and> length d = length raw
        else objects (w_s3 w') key = objects (w_s3 w) key))"
  proof (cases "e1 = None \<and> put_m")
    case False
    then have "w' = w1" "e = None \<longrightarrow> e1 = None \<and> \<not> put_m"
      using run 1 by (auto simp: publish_def upload_files_def if_ok_def split: option.splits if_splits)
    with up key show ?thesis by auto
  next
    case True
    then have m: "put_manifest put bucket key raw w1 = (e, w')"
      using run 1 by (simp add: publish_def upload_files_def if_ok_def)
    note eff = put_manifest_effect [OF m up(1)]
    have "in_place objects pre f (w_s3 w')" if f: "f \<in> set todo" for f
    proof -
      have "path_join pre (f_path f) \<noteq> key" using p f by (simp add: pushable_def)
      then have "in_place objects pre f (w_s3 w') = in_place objects pre f (w_s3 w1)"
        by (intro in_place_cong eff(2))
      with up(3) True f show ?thesis by blast
    qed
    with eff up(2) True show ?thesis by simp
  qed
  then show "ok (w_s3 w')"
    "k \<noteq> key \<Longrightarrow> k \<notin> (\<lambda>f. path_join pre (f_path f)) ` set todo \<Longrightarrow> objects (w_s3 w') k = objects (w_s3 w) k"
    "objects (w_s3 w') key = objects (w_s3 w) key \<or> (\<forall>f \<in> set todo. in_place objects pre f (w_s3 w'))"
    "e = None \<Longrightarrow> (\<forall>f \<in> set todo. in_place objects pre f (w_s3 w')) \<and>
       (if put_m then \<exists>d. objects (w_s3 w') key = Some d \<and> sha256 d = sha256 raw \<and> length d = length raw
        else objects (w_s3 w') key = objects (w_s3 w) key)" by blast+
qed

lemma verify_object_effect:
  assumes run: "verify_object head bucket (path_join pre (f_path f)) f w = (r, w')" and ok: "ok (w_s3 w)"
    and f: "is_sha256 (f_sha256 f)"
  shows "ok (w_s3 w')" "objects (w_s3 w') = objects (w_s3 w)"
    "r = Inr v \<Longrightarrow> vd_reason v = [] \<Longrightarrow> in_place objects pre f (w_s3 w)"
proof -
  let ?j = "head_request bucket (path_join pre (f_path f))"
  obtain r1 s1 where h: "head ?j (w_s3 w) = (r1, s1)" by fastforce
  have w': "w_s3 w' = s1" using run h by (auto simp: verify_object_def s3_call_def split: sum.splits)
  show "ok (w_s3 w')" "objects (w_s3 w') = objects (w_s3 w)" using head_keeps [OF h ok] by (simp_all add: w')
  show "in_place objects pre f (w_s3 w)" if r: "r = Inr v" "vd_reason v = []"
  proof -
    obtain c where c: "b64_sha256 f = Inr c" using b64_sha256_total [OF f] by blast
    obtain out where out: "r1 = Inr out" "head_verdict out f = Inr v"
      using run h r by (auto simp: verify_object_def s3_call_def verdict_for_def reason_forbidden_def split: sum.splits if_splits)
    then have "ho_sum out = Some c" "\<not> ho_composite out" "CHR ''-'' \<notin> set c" "to_int64 (ho_length out) = f_size f"
      using r(2) c
      by (auto simp: head_verdict_def Let_def verdict_for_def reason_composite_def to_string_def split: if_splits option.splits)
    with head_tells [of ?j "w_s3 w" out s1 c] h out(1) ok b64_sha256_sum(1) [OF c f] show ?thesis
      by (auto simp: head_request_def in_place_def to_int64_def)
  qed
qed

lemma verify_objects_effect:
  assumes "verify_objects head bucket pre fs w = (r, w')" "ok (w_s3 w)" "\<forall>f \<in> set fs. is_sha256 (f_sha256 f)"
  shows "ok (w_s3 w') \<and> objects (w_s3 w') = objects (w_s3 w) \<and>
    (\<forall>vs. r = Inr vs \<longrightarrow> length vs = length fs \<and> (\<forall>(f, v) \<in> set (zip fs vs). vd_reason v = [] \<longrightarrow> in_place objects pre f (w_s3 w)))"
  using assms
proof (induction fs arbitrary: r w)
  case Nil
  then show ?case by auto
next
  case (Cons f fs)
  obtain r1 w1 where 1: "verify_object head bucket (path_join pre (f_path f)) f w = (r1, w1)" by fastforce
  obtain r2 w2 where 2: "verify_objects head bucket pre fs w1 = (r2, w2)" by fastforce
  have r: "w2 = w'" "r = (case r1 of Inl e \<Rightarrow> Inl e | Inr v \<Rightarrow> (case r2 of Inl e \<Rightarrow> Inl e | Inr vs \<Rightarrow> Inr (v # vs)))"
    using Cons.prems(1) 1 2 by auto
  have f: "is_sha256 (f_sha256 f)" using Cons.prems(3) by simp
  note eff = verify_object_effect [OF 1 Cons.prems(2) f]
  have ih: "ok (w_s3 w') \<and> objects (w_s3 w') = objects (w_s3 w1) \<and>
    (\<forall>vs. r2 = Inr vs \<longrightarrow> length vs = length fs \<and> (\<forall>(f, v) \<in> set (zip fs vs). vd_reason v = [] \<longrightarrow> in_place objects pre f (w_s3 w1)))"
    using Cons.IH [OF 2 [unfolded r(1)] eff(1)] Cons.prems(3) by simp
  have i: "in_place objects pre g (w_s3 w1) = in_place objects pre g (w_s3 w)" for g by (intro in_place_cong) (simp add: eff(2))
  show ?case using ih eff(2,3) by (auto simp: r(2) i split: sum.splits)
qed

lemma remote_manifest_effect:
  assumes run: "remote_manifest P get bucket key w = (r, w')" and ok: "ok (w_s3 w)"
  shows "ok (w_s3 w')" "objects (w_s3 w') = objects (w_s3 w)"
    "r = Inr (Some rm) \<Longrightarrow> \<exists>d p. objects (w_s3 w) key = Some d \<and> prefix p d \<and> decode P p = Inr rm"
proof -
  obtain r1 s1 where g: "get (get_request bucket key) (w_s3 w) = (r1, s1)" by fastforce
  have w': "w_s3 w' = s1" using run g by (auto simp: remote_manifest_def s3_call_def split: sum.splits)
  show "ok (w_s3 w')" "objects (w_s3 w') = objects (w_s3 w)" using get_keeps [OF g ok] by (simp_all add: w')
  show "\<exists>d p. objects (w_s3 w) key = Some d \<and> prefix p d \<and> decode P p = Inr rm" if h: "r = Inr (Some rm)"
  proof -
    obtain out where out: "r1 = Inr out" "decode_reader P (go_body out) = Inr rm"
      using run g h by (auto simp: remote_manifest_def s3_call_def split: sum.splits if_splits)
    obtain d where "objects (w_s3 w) key = Some d" "prefix (r_data (go_body out)) d"
      using get_gives [OF g [unfolded out(1)] ok] by blast
    with decode_reader_decode [OF out(2)] show ?thesis by blast
  qed
qed

lemma diff_remote_effect:
  assumes run: "diff_remote P get head bucket pre key raw fs w = (r, w')" and ok: "ok (w_s3 w)" and p: "pushable pre key fs"
  shows "ok (w_s3 w')" "objects (w_s3 w') = objects (w_s3 w)"
    "r = Inr d \<Longrightarrow> (\<forall>f \<in> set fs. f \<in> set (df_upload d) \<or> in_place objects pre f (w_s3 w)) \<and> pushable pre key (df_upload d) \<and>
      set (df_upload d) \<subseteq> set fs \<and>
      (df_same d \<longrightarrow> (\<exists>x p rm. objects (w_s3 w) key = Some x \<and> prefix p x \<and> decode P p = Inr rm \<and> snd (encode rm) = raw))"
proof -
  obtain r1 w1 where 1: "remote_manifest P get bucket key w = (r1, w1)" by fastforce
  note rm = remote_manifest_effect [OF 1 ok]
  have "ok (w_s3 w') \<and> objects (w_s3 w') = objects (w_s3 w) \<and>
    (\<forall>d. r = Inr d \<longrightarrow> (\<forall>f \<in> set fs. f \<in> set (df_upload d) \<or> in_place objects pre f (w_s3 w)) \<and> pushable pre key (df_upload d) \<and>
      set (df_upload d) \<subseteq> set fs \<and>
      (df_same d \<longrightarrow> (\<exists>x p rm. objects (w_s3 w) key = Some x \<and> prefix p x \<and> decode P p = Inr rm \<and> snd (encode rm) = raw)))"
  proof (cases r1)
    case (Inl e)
    with run 1 rm(1,2) show ?thesis by (auto simp: diff_remote_def)
  next
    case (Inr x)
    let ?same = "case x of None \<Rightarrow> False | Some m \<Rightarrow> raw = snd (encode m)"
    obtain cand up rest where sp: "split_files fs (case x of None \<Rightarrow> [] | Some m \<Rightarrow> rev (map (\<lambda>f. (f_path f, f_sha256 f)) (files_of (fst (encode m))))) = (cand, up, rest)"
      by (rule prod_cases3)
    obtain r2 w2 where 2: "verify_objects head bucket pre cand w1 = (r2, w2)" by fastforce
    have ms: "mset fs = mset cand + mset up" by (rule split_files_mset [OF sp])
    then have sets: "set fs = set cand \<union> set up" by (metis set_mset_mset set_mset_union)
    have sha: "\<forall>f \<in> set cand. is_sha256 (f_sha256 f)" using p sets by (auto simp: pushable_def)
    note v = verify_objects_effect [OF 2 rm(1) sha]
    have w': "w' = w2" using run 1 Inr sp 2 by (auto simp: diff_remote_def Let_def split: sum.splits)
    have i: "in_place objects pre g (w_s3 w1) = in_place objects pre g (w_s3 w)" for g by (intro in_place_cong) (simp add: rm(2))
    have "(\<forall>f \<in> set fs. f \<in> set (df_upload d) \<or> in_place objects pre f (w_s3 w)) \<and> pushable pre key (df_upload d) \<and>
        set (df_upload d) \<subseteq> set fs \<and> df_same d = ?same" if r: "r = Inr d" for d
    proof -
      obtain vs where vs: "r2 = Inr vs" using run 1 Inr sp 2 r by (auto simp: diff_remote_def Let_def split: sum.splits)
      define bad where "bad = [f. (f, v) \<leftarrow> zip cand vs, vd_reason v \<noteq> []]"
      have up: "df_upload d = up @ bad" and s: "df_same d = ?same"
        using run 1 Inr sp 2 r vs by (auto simp: diff_remote_def Let_def apply_verdicts_result no_diff_def bad_def split: option.splits)
      have sub: "set bad \<subseteq> set cand" by (auto simp: bad_def dest: set_zip_leftD)
      have len: "length vs = length cand" using v vs by blast
      have cov: "f \<in> set bad \<or> in_place objects pre f (w_s3 w)" if h: "f \<in> set cand" for f
      proof -
        obtain u where "(f, u) \<in> set (zip cand vs)" using h len by (metis in_set_impl_in_set_zip1)
        then show ?thesis using v vs i unfolding bad_def by (cases "vd_reason u = []") force+
      qed
      have d: "distinct (map f_path (cand @ up))"
        using p ms by (metis mset_append mset_eq_imp_distinct_iff mset_map pushable_def)
      have "distinct (map f_path bad)"
        unfolding bad_def using d len
      proof (induction cand vs rule: list_induct2')
        case (4 f cand u vs)
        then show ?case by (auto dest: set_zip_leftD)
      qed auto
      then have "distinct (map f_path (df_upload d))" using d sub by (auto simp: up)
      moreover have "set (df_upload d) \<subseteq> set fs" using sub sets by (auto simp: up)
      moreover have "f \<in> set (df_upload d) \<or> in_place objects pre f (w_s3 w)" if "f \<in> set fs" for f
        using that cov [of f] sets by (auto simp: up)
      ultimately show ?thesis using p by (auto simp: s pushable_def)
    qed
    moreover have "?same \<Longrightarrow> \<exists>y p rm. objects (w_s3 w) key = Some y \<and> prefix p y \<and> decode P p = Inr rm \<and> snd (encode rm) = raw"
      using rm(3) Inr by (fastforce split: option.splits)
    ultimately show ?thesis using v rm(2) by (simp add: w')
  qed
  then show "ok (w_s3 w')" "objects (w_s3 w') = objects (w_s3 w)"
    "r = Inr d \<Longrightarrow> (\<forall>f \<in> set fs. f \<in> set (df_upload d) \<or> in_place objects pre f (w_s3 w)) \<and> pushable pre key (df_upload d) \<and>
      set (df_upload d) \<subseteq> set fs \<and>
      (df_same d \<longrightarrow> (\<exists>x p rm. objects (w_s3 w) key = Some x \<and> prefix p x \<and> decode P p = Inr rm \<and> snd (encode rm) = raw))" by blast+
qed

lemma push_effect:
  assumes run: "push E order get head put bucket pre0 root opts w = (r, w')" and ok: "ok (w_s3 w)"
    and prep: "prepare E (trim_suffix pre0 ''/'') root (pu_manifest_key opts) w = (Inr (m, key, raw), w1)"
    and w: "wf w" "look w root = Some Dir" and a: "\<not> pu_adopt opts" and o: "\<And>xs. mset (order xs) = mset xs"
  shows "objects (w_s3 w') key = objects (w_s3 w) key \<or>
      (\<forall>f \<in> set (files_of m). in_place objects (trim_suffix pre0 ''/'') f (w_s3 w'))"
    "r = Inr st \<Longrightarrow> (\<forall>f \<in> set (files_of m). in_place objects (trim_suffix pre0 ''/'') f (w_s3 w')) \<and>
      published objects (plat E) key raw (w_s3 w')"
proof -
  define pre where "pre = trim_suffix pre0 ''/''"
  note prep = prep [folded pre_def]
  note pr = prepare_Inr [OF prep w]
  have s1: "w_s3 w1 = w_s3 w" using pr(1) by (rule same_clientD)
  have ok1: "ok (w_s3 w1)" using ok s1 by simp
  have main: "(objects (w_s3 w') key = objects (w_s3 w) key \<or> (\<forall>f \<in> set (files_of m). in_place objects pre f (w_s3 w'))) \<and>
    (\<forall>st. r = Inr st \<longrightarrow> (\<forall>f \<in> set (files_of m). in_place objects pre f (w_s3 w')) \<and> published objects (plat E) key raw (w_s3 w'))"
  proof (cases "pu_full opts")
    case True
    obtain e w2 where p: "publish E order put bucket pre root key raw (files_of m) True w1 = (e, w2)" by fastforce
    have "w' = w2" "(\<exists>st. r = Inr st) \<longleftrightarrow> e = None"
      using run prep p a True by (auto simp: push_def Let_def pre_def split: option.splits)
    with publish_effect [OF p ok1 pr(2) o] s1 show ?thesis by (auto simp: published_def)
  next
    case False
    obtain r2 w2 where d: "diff_remote (plat E) get head bucket pre key raw (files_of m) w1 = (r2, w2)" by fastforce
    note de = diff_remote_effect [OF d ok1 pr(2)]
    show ?thesis
    proof (cases r2)
      case (Inl e)
      then have "w' = w2" "r = Inl e" using run prep d a False by (auto simp: push_def Let_def pre_def)
      with de(2) s1 show ?thesis by simp
    next
      case (Inr df)
      note di = de(3) [OF Inr]
      have keep: "in_place objects pre f s' = in_place objects pre f (w_s3 w1)"
        if "objects s' (path_join pre (f_path f)) = objects (w_s3 w2) (path_join pre (f_path f))" for f s'
        using that de(2) by (intro in_place_cong) simp
      have same: "df_same df \<Longrightarrow> objects s' key = objects (w_s3 w2) key \<Longrightarrow> published objects (plat E) key raw s'" for s'
        using di de(2) by (auto simp: published_def)
      show ?thesis
      proof (cases "df_same df \<and> df_upload df = []")
        case True
        then have "w' = w2" using run prep d a False Inr by (auto simp: push_def Let_def pre_def)
        moreover have "in_place objects pre f (w_s3 w2)" if "f \<in> set (files_of m)" for f
          using that di True keep by auto
        ultimately show ?thesis using True same [of "w_s3 w2"] by blast
      next
        case go: False
        obtain e w3 where p: "publish E order put bucket pre root key raw (df_upload df) (\<not> df_same df) w2 = (e, w3)" by fastforce
        have w': "w' = w3" "(\<exists>st. r = Inr st) \<longleftrightarrow> e = None"
          using run prep d a False Inr go p by (auto simp: push_def Let_def pre_def split: option.splits)
        have p2: "pushable pre key (df_upload df)" using di by blast
        note pe = publish_effect [OF p de(1) p2 o]
        have all: "\<forall>f \<in> set (files_of m). in_place objects pre f (w_s3 w3)"
          if up: "\<forall>f \<in> set (df_upload df). in_place objects pre f (w_s3 w3)"
        proof
          fix f assume f: "f \<in> set (files_of m)"
          show "in_place objects pre f (w_s3 w3)"
          proof (cases "f \<in> set (df_upload df)")
            case True
            with up show ?thesis by blast
          next
            case False
            then have i: "in_place objects pre f (w_s3 w1)" using di f by blast
            have "path_join pre (f_path f) \<noteq> key" using pr(2) f by (auto simp: pushable_def)
            moreover have "path_join pre (f_path f) \<notin> (\<lambda>f. path_join pre (f_path f)) ` set (df_upload df)"
              using pushable_keys [OF pr(2) f] di False by blast
            ultimately show ?thesis using pe(2) keep i by simp
          qed
        qed
        show ?thesis
        proof (intro conjI allI impI)
          show "objects (w_s3 w') key = objects (w_s3 w) key \<or> (\<forall>f \<in> set (files_of m). in_place objects pre f (w_s3 w'))"
            using pe(3) all de(2) s1 by (auto simp: w'(1))
          fix st assume "r = Inr st"
          then have e: "e = None" using w'(2) by blast
          show "Ball (set (files_of m)) (\<lambda>f. in_place objects pre f (w_s3 w'))" using pe(4) [OF e] all by (simp add: w'(1))
          show "published objects (plat E) key raw (w_s3 w')"
            using pe(4) [OF e] same [of "w_s3 w3"] by (cases "df_same df") (auto simp: published_def w'(1))
        qed
      qed
    qed
  qed
  then show "objects (w_s3 w') key = objects (w_s3 w) key \<or>
      (\<forall>f \<in> set (files_of m). in_place objects (trim_suffix pre0 ''/'') f (w_s3 w'))"
    "r = Inr st \<Longrightarrow> (\<forall>f \<in> set (files_of m). in_place objects (trim_suffix pre0 ''/'') f (w_s3 w')) \<and>
      published objects (plat E) key raw (w_s3 w')" by (simp_all add: pre_def)
qed

text \<open>\<open>-adopt\<close> publishes the manifest and touches nothing else; any other push writes the manifest's
  key and the keys of the tree's files alone.\<close>

lemma push_adopts:
  assumes run: "push E order get head put bucket pre0 root opts w = (r, w')" and ok: "ok (w_s3 w)"
    and prep: "prepare E (trim_suffix pre0 ''/'') root (pu_manifest_key opts) w = (Inr (m, key, raw), w1)"
    and w: "wf w" "look w root = Some Dir" and a: "pu_adopt opts"
  shows "k \<noteq> key \<Longrightarrow> objects (w_s3 w') k = objects (w_s3 w) k" "r = Inr st \<Longrightarrow> published objects (plat E) key raw (w_s3 w')"
proof -
  have s1: "w_s3 w1 = w_s3 w" using prepare_Inr(1) [OF prep w] by (rule same_clientD)
  obtain e w2 where p: "put_manifest put bucket key raw w1 = (e, w2)" by fastforce
  have "w' = w2" "(\<exists>st. r = Inr st) \<longleftrightarrow> e = None"
    using run prep p a by (auto simp: push_def Let_def split: option.splits)
  with put_manifest_effect [OF p] ok s1
  show "k \<noteq> key \<Longrightarrow> objects (w_s3 w') k = objects (w_s3 w) k" "r = Inr st \<Longrightarrow> published objects (plat E) key raw (w_s3 w')"
    by (auto simp: published_def)
qed

lemma push_others:
  assumes run: "push E order get head put bucket pre0 root opts w = (r, w')" and ok: "ok (w_s3 w)"
    and prep: "prepare E (trim_suffix pre0 ''/'') root (pu_manifest_key opts) w = (Inr (m, key, raw), w1)"
    and w: "wf w" "look w root = Some Dir" and o: "\<And>xs. mset (order xs) = mset xs"
    and k: "k \<noteq> key" "pu_adopt opts \<or> k \<notin> (\<lambda>f. path_join (trim_suffix pre0 ''/'') (f_path f)) ` set (files_of m)"
  shows "objects (w_s3 w') k = objects (w_s3 w) k"
proof (cases "pu_adopt opts")
  case True
  then show ?thesis using push_adopts(1) [OF run ok prep w True k(1)] by simp
next
  case a: False
  define pre where "pre = trim_suffix pre0 ''/''"
  note prep = prep [folded pre_def]
  have k': "k \<notin> (\<lambda>f. path_join pre (f_path f)) ` set (files_of m)" using k(2) a by (simp add: pre_def)
  note pr = prepare_Inr [OF prep w]
  have s1: "w_s3 w1 = w_s3 w" using pr(1) by (rule same_clientD)
  have ok1: "ok (w_s3 w1)" using ok s1 by simp
  show ?thesis
  proof (cases "pu_full opts")
    case True
    obtain e w2 where p: "publish E order put bucket pre root key raw (files_of m) True w1 = (e, w2)" by fastforce
    have "w' = w2" using run prep p a True by (auto simp: push_def Let_def pre_def split: option.splits)
    with publish_effect(2) [OF p ok1 pr(2) o k(1) k'] s1 show ?thesis by simp
  next
    case False
    obtain r2 w2 where d: "diff_remote (plat E) get head bucket pre key raw (files_of m) w1 = (r2, w2)" by fastforce
    note de = diff_remote_effect [OF d ok1 pr(2)]
    consider "w' = w2" | df e where "r2 = Inr df" "publish E order put bucket pre root key raw (df_upload df) (\<not> df_same df) w2 = (e, w')"
      using run prep d a False by (cases r2) (auto simp: push_def Let_def pre_def split: option.splits if_splits prod.splits)
    then show ?thesis
    proof cases
      case 1
      with de(2) s1 show ?thesis by simp
    next
      case (2 df e)
      have "pushable pre key (df_upload df)" "k \<notin> (\<lambda>f. path_join pre (f_path f)) ` set (df_upload df)"
        using de(3) [OF 2(1)] k' by auto
      with publish_effect(2) [OF 2(2) de(1) _ o k(1)] de(2) s1 show ?thesis by simp
    qed
  qed
qed

end

section \<open>The in-memory store keeps the contract\<close>

text \<open>Stored checksums are those of the stored bytes.\<close>

definition fake_ok :: "fake \<Rightarrow> bool" where
  "fake_ok f \<longleftrightarrow> (\<forall>k c. map_of (fk_sums f) k = Some c \<longrightarrow> (\<exists>d. map_of (fk_objects f) k = Some d \<and> content_sum d = c))"

text \<open>Hooks that neither corrupt what is served nor change the store between calls; puts and
  heads may still fail.\<close>

definition quiet :: "fake_hooks \<Rightarrow> fake_hooks" where
  "quiet h = h\<lparr>hk_before_get := (\<lambda>_ f. f), hk_get_body := (\<lambda>_ b. b), hk_head_checksum := (\<lambda>_ c. c)\<rparr>"

lemma fake_put_cases:
  assumes "fake_put h i f = (r, f')"
  obtains (refused) e where "r = Inl e" "fk_objects f' = fk_objects f" "fk_sums f' = fk_sums f"
  | (stored) body where "r = Inr ()" "put_refused h i body (Suc (length (fk_put_order f))) = None"
      "map_of (fk_objects f') = (map_of (fk_objects f))(pi_key i \<mapsto> body)"
      "map_of (fk_sums f') = (if pi_sha256 i then (map_of (fk_sums f))(pi_key i \<mapsto> content_sum body)
         else (map_of (fk_sums f))(pi_key i := None))"
proof (cases "io_read_all (hk_before_put h (pi_key i) (pi_body i))")
  case (Inl e)
  with assms have "r = Inl e" "f' = f" by (simp_all add: fake_put_def)
  with refused show ?thesis by simp
next
  case (Inr body)
  let ?n = "Suc (length (fk_put_order f))"
  show ?thesis
  proof (cases "put_refused h i body ?n")
    case (Some e)
    with assms Inr refused show ?thesis by (auto simp: fake_put_def Let_def fake_enter_def fake_leave_def)
  next
    case None
    with assms Inr stored [of body] show ?thesis
      by (auto simp: fake_put_def Let_def fake_enter_def fake_leave_def fake_accept_def update_conv' delete_conv')
  qed
qed

lemma put_accepted:
  assumes "put_refused h i body n = None"
  shows "pi_length i = Some k \<Longrightarrow> int (length body) = k" "pi_sum i = Some c \<Longrightarrow> c \<noteq> [] \<Longrightarrow> content_sum body = c"
  using assms by (auto simp: put_refused_def to_string_def split: option.splits if_splits)

lemma parse_range_empty [simp]: "parse_range [] = None"
  by (simp add: parse_range_def cut_prefix_def)

interpretation fake: content_store "fake_put h" "fake_head (quiet h)" "fake_get (quiet h)" fake_object fake_ok for h
proof
  fix i f r f'
  assume p: "fake_put h i f = (r, f')" and ok: "fake_ok f"
  from p show "fake_ok f'"
    using ok by (cases rule: fake_put_cases) (auto simp: fake_ok_def split: if_splits)
  from p show "fake_object f' k = fake_object f k" if "k \<noteq> pi_key i" for k
    using that by (cases rule: fake_put_cases) (simp_all add: fake_object_def)
next
  fix i f f' c n and u :: unit
  assume p: "fake_put h i f = (Inr u, f')" and i: "pi_sum i = Some c" "c \<noteq> []" "pi_length i = Some n"
  from p show "\<exists>d. fake_object f' (pi_key i) = Some d \<and> content_sum d = c \<and> int (length d) = n"
  proof (cases rule: fake_put_cases)
    case (stored body)
    with put_accepted [OF stored(2)] i show ?thesis by (simp add: fake_object_def)
  qed simp
next
  fix i f f' c n e
  assume p: "fake_put h i f = (Inl e, f')"
  then show "fake_object f' (pi_key i) = fake_object f (pi_key i) \<or>
      (\<exists>d. fake_object f' (pi_key i) = Some d \<and> content_sum d = c \<and> int (length d) = n)"
    by (cases rule: fake_put_cases) (simp_all add: fake_object_def)
next
  fix j f r f'
  assume "fake_head (quiet h) j f = (r, f')" "fake_ok f"
  then show "fake_ok f' \<and> fake_object f' = fake_object f"
    by (auto simp: fake_head_def Let_def fake_enter_def fake_leave_def fake_ok_def fake_object_def fun_eq_iff
        split: option.splits)
next
  fix j f out f' c
  assume h: "fake_head (quiet h) j f = (Inr out, f')" and ok: "fake_ok f" and c: "ho_sum out = Some c"
  then obtain d where d: "map_of (fk_objects f) (hi_key j) = Some d" "map_of (fk_sums f) (hi_key j) = Some c"
    "ho_length out = Some (int (length d))"
    by (auto simp: fake_head_def Let_def fake_enter_def fake_leave_def quiet_def split: option.splits)
  moreover have "content_sum d = c" using ok [unfolded fake_ok_def, rule_format, OF d(2)] d(1) by simp
  ultimately show "\<exists>d. fake_object f (hi_key j) = Some d \<and> content_sum d = c \<and> ho_length out = Some (int (length d))"
    by (simp add: fake_object_def)
next
  fix l f r f'
  assume "fake_get (quiet h) l f = (r, f')" "fake_ok f"
  then show "fake_ok f' \<and> fake_object f' = fake_object f"
    by (auto simp: fake_get_def Let_def fake_ok_def fake_object_def quiet_def fun_eq_iff split: option.splits if_splits)
next
  fix b k f out f'
  assume "fake_get (quiet h) (get_request b k) f = (Inr out, f')"
  then show "\<exists>d. fake_object f k = Some d \<and> prefix (r_data (go_body out)) d"
    by (auto simp: fake_get_def Let_def fake_object_def quiet_def get_request_def to_string_def serve_range_def whole_out_def
        split: option.splits if_splits)
qed

end
