(* ===== verification/PushTotal.thy ===== *)
theory PushTotal
  imports PushStore
begin

text \<open>
  A push succeeds: when no call on the local files fails, the store takes every put whose
  bytes have the length and checksum it states and answers every head, and the manifest
  published before, if there is one, can be read. With \<open>PushStore\<close> that is total correctness.
\<close>

locale accepting_store = content_store +
  assumes put_takes: "ok s \<Longrightarrow> r_err (pi_body i) = None \<Longrightarrow> pi_length i = Some (int (length (r_data (pi_body i)))) \<Longrightarrow>
      pi_sum i = Some (content_sum (r_data (pi_body i))) \<Longrightarrow> \<exists>s'. put i s = (Inr (), s')"
    and head_answers: "ok s \<Longrightarrow> head j s = (Inl e, s') \<Longrightarrow> is_not_found e \<or> forbidden e"

text \<open>What a push needs of the manifest that was published before.\<close>

definition manifest_readable :: "platform \<Rightarrow> 's get_fn \<Rightarrow> string \<Rightarrow> string \<Rightarrow> 's \<Rightarrow> bool" where
  "manifest_readable P get bucket key s \<longleftrightarrow>
     (case fst (get (get_request bucket key) s) of
        Inl e \<Rightarrow> is_no_such_key e
      | Inr out \<Rightarrow> (case decode_reader P (go_body out) of Inl e \<Rightarrow> False | Inr m \<Rightarrow> True))"

lemma remote_manifest_done:
  assumes "manifest_readable P get bucket key (w_s3 w)"
  shows "\<exists>rm w'. remote_manifest P get bucket key w = (Inr rm, w')"
  using assms
  by (auto simp: manifest_readable_def remote_manifest_def s3_call_def split: prod.splits sum.splits)

lemma put_file_same: "put_file E put bucket pre root f w = (e, w') \<Longrightarrow> same_fs w w'"
  by (auto simp: put_file_def same.refl dest!: os_open_same s3_call_same intro: same.trans split: prod.splits sum.splits)

text \<open>The file an entry names, as the manifest says.\<close>

definition uploadable :: "fpath \<Rightarrow> 's world \<Rightarrow> mfile \<Rightarrow> bool" where
  "uploadable root w f \<longleftrightarrow> is_sha256 (f_sha256 f) \<and>
     (\<exists>i x. look w (fs_join root (f_path f)) = Some (Reg i) \<and> ino w i = Some x \<and>
       sha256_hex (i_data x) = f_sha256 f \<and> int (length (i_data x)) = f_size f)"

lemma uploadable_same: "same_fs w w' \<Longrightarrow> uploadable root w' f = uploadable root w f"
  by (simp add: uploadable_def same_fs_look same_fs_ino)

lemma matching_uploadable:
  assumes "tree_matches P m (tree_at w root)" "f \<in> set (files_of m)" "is_sha256 (f_sha256 f)" "plain_path (f_path f)"
  shows "uploadable root w f"
proof -
  obtain e where e: "tree_at w root (comps (f_path f)) = Some e" "entry_matches P f e"
    using assms(1,2) by (auto simp: tree_matches_def)
  then obtain d md where d: "e = EFile d md" "int (length d) = f_size f" "sha256_hex d = f_sha256 f"
    by (auto simp: entry_matches_def split: entry.splits)
  then obtain n where n: "look w (root @ comps (f_path f)) = Some n" "entry_of w n = Some (EFile d md)"
    using e(1) by (auto simp: tree_at_def bind_eq_Some_conv)
  then have "\<exists>i x. n = Reg i \<and> ino w i = Some x \<and> i_data x = d"
    by (cases n) (auto simp: entry_of_def split: option.splits)
  with n(1) have "\<exists>i x. look w (fs_join root (f_path f)) = Some (Reg i) \<and> ino w i = Some x \<and> i_data x = d"
    by (simp add: fs_join_plain [OF assms(4)])
  with d assms(3) show ?thesis by (auto simp: uploadable_def)
qed

context accepting_store
begin

lemma put_file_done:
  assumes calm: "\<And>t c. \<not> fault E t c" and ok: "ok (w_s3 w)" and f: "uploadable root w f"
  shows "\<exists>w'. put_file E put bucket pre root f w = (None, w')"
proof -
  from f obtain i x where x: "look w (fs_join root (f_path f)) = Some (Reg i)" "ino w i = Some x"
    "sha256_hex (i_data x) = f_sha256 f" "int (length (i_data x)) = f_size f" and sha: "is_sha256 (f_sha256 f)"
    by (auto simp: uploadable_def)
  obtain c where c: "b64_sha256 f = Inr c" using b64_sha256_total [OF sha] by blast
  obtain w1 where o: "os_open E (fs_join root (f_path f)) w =
      (Inr \<lparr>r_data = i_data x, r_err = None, h_node = Reg i, h_size = int (length (i_data x)), h_mode = i_mode x\<rparr>, w1)"
    using os_open_no_fault [OF calm x(1,2)] by blast
  have "w_s3 w1 = w_s3 w"
    using o by (auto simp: os_open_def sys_def Let_def split: if_splits option.splits node.splits)
  moreover have "content_sum (i_data x) = c" using b64_sha256_sum(1) [OF c sha] x(3) by simp
  ultimately obtain s' where "put (put_request bucket (path_join pre (f_path f)) \<lparr>r_data = i_data x, r_err = None\<rparr> (f_size f) c) (w_s3 w1)
      = (Inr (), s')"
    using put_takes [of "w_s3 w1"] ok x(4) by (fastforce simp: put_request_def)
  with c o show ?thesis by (simp add: put_file_def s3_call_def)
qed

lemma upload_list_done:
  assumes calm: "\<And>t c. \<not> fault E t c" and "ok (w_s3 w)" "\<forall>f \<in> set fs. uploadable root w f"
  shows "\<exists>w'. upload_list E put bucket pre root fs w = (None, w')"
  using assms(2,3)
proof (induction fs arbitrary: w)
  case (Cons f fs)
  obtain w1 where 1: "put_file E put bucket pre root f w = (None, w1)"
    using put_file_done [OF calm Cons.prems(1)] Cons.prems(2) by fastforce
  have "ok (w_s3 w1)" using put_file_effect(1) [OF 1 Cons.prems(1)] Cons.prems(2) by (simp add: uploadable_def)
  moreover have "\<forall>g \<in> set fs. uploadable root w1 g"
    using Cons.prems(2) uploadable_same [OF put_file_same [OF 1]] by simp
  ultimately obtain w2 where "upload_list E put bucket pre root fs w1 = (None, w2)" using Cons.IH by blast
  with 1 show ?case by simp
qed simp

lemma put_manifest_done: "ok (w_s3 w) \<Longrightarrow> \<exists>w'. put_manifest put bucket key raw w = (None, w')"
  using put_takes [of "w_s3 w" "put_request bucket key \<lparr>r_data = raw, r_err = None\<rparr> (int (length raw)) (content_sum raw)"]
  by (auto simp: put_manifest_def s3_call_def put_request_def content_sum_def)

lemma publish_done:
  assumes calm: "\<And>t c. \<not> fault E t c" and ok: "ok (w_s3 w)" and f: "\<forall>f \<in> set fs. uploadable root w f"
    and p: "pushable pre key fs" and o: "\<And>xs. mset (order xs) = mset xs"
  shows "\<exists>w'. publish E order put bucket pre root key raw fs put_m w = (None, w')"
proof -
  have s: "set (order fs) = set fs" using o by (metis set_mset_mset)
  have p': "pushable pre key (order fs)"
    using p o [of fs] s by (auto simp: pushable_def) (metis mset_eq_imp_distinct_iff mset_map)
  obtain w1 where 1: "upload_list E put bucket pre root (order fs) w = (None, w1)"
    using upload_list_done [OF calm ok, of "order fs" root bucket pre] f s by auto
  have "ok (w_s3 w1)" using upload_list_effect [OF 1 ok p'] by blast
  with put_manifest_done [of w1 bucket key raw] 1 show ?thesis
    by (auto simp: publish_def upload_files_def if_ok_def)
qed

lemma verify_object_done:
  assumes "ok (w_s3 w)" "is_sha256 (f_sha256 f)"
  shows "\<exists>v w'. verify_object head bucket key f w = (Inr v, w')"
proof -
  obtain c where "b64_sha256 f = Inr c" using b64_sha256_total [OF assms(2)] by blast
  then have v: "\<exists>v. head_verdict out f = Inr v" for out by (simp add: head_verdict_def Let_def)
  obtain r s where h: "head (head_request bucket key) (w_s3 w) = (r, s)" by fastforce
  show ?thesis
    using head_answers [OF assms(1)] h v by (cases r) (fastforce simp: verify_object_def s3_call_def)+
qed

lemma verify_objects_done:
  assumes "ok (w_s3 w)" "\<forall>f \<in> set fs. is_sha256 (f_sha256 f)"
  shows "\<exists>vs w'. verify_objects head bucket pre fs w = (Inr vs, w')"
  using assms
proof (induction fs arbitrary: w)
  case (Cons f fs)
  obtain v w1 where 1: "verify_object head bucket (path_join pre (f_path f)) f w = (Inr v, w1)"
    using verify_object_done [OF Cons.prems(1)] Cons.prems(2) by fastforce
  have "ok (w_s3 w1)" using verify_object_effect(1) [OF 1 Cons.prems(1)] Cons.prems(2) by simp
  then obtain vs w2 where "verify_objects head bucket pre fs w1 = (Inr vs, w2)" using Cons.IH Cons.prems(2) by force
  with 1 show ?case by simp
qed simp

lemma diff_remote_done:
  assumes ok: "ok (w_s3 w)" and sha: "\<forall>f \<in> set fs. is_sha256 (f_sha256 f)" and m: "manifest_readable P get bucket key (w_s3 w)"
  obtains d w' where "diff_remote P get head bucket pre key raw fs w = (Inr d, w')" "same_fs w w'"
proof -
  obtain rm w1 where 1: "remote_manifest P get bucket key w = (Inr rm, w1)" using remote_manifest_done [OF m] by blast
  obtain cand up rest where sp: "split_files fs (case rm of None \<Rightarrow> [] | Some m \<Rightarrow> rev (map (\<lambda>f. (f_path f, f_sha256 f)) (files_of (fst (encode m))))) = (cand, up, rest)"
    by (rule prod_cases3)
  have "set cand \<subseteq> set fs" using split_files_mset [OF sp] by (metis set_mset_mset set_mset_union sup_ge1)
  then obtain vs w2 where 2: "verify_objects head bucket pre cand w1 = (Inr vs, w2)"
    using verify_objects_done [OF remote_manifest_effect(1) [OF 1 ok]] sha by blast
  have "same_fs w w2" using remote_manifest_same [OF 1] verify_objects_same [OF 2] by (rule same.trans)
  with that 1 sp 2 show thesis by (simp add: diff_remote_def Let_def)
qed

lemma push_done:
  assumes calm: "\<And>t c. \<not> fault E t c" and ok: "ok (w_s3 w)"
    and prep: "prepare E (trim_suffix pre0 ''/'') root (pu_manifest_key opts) w = (Inr (m, key, raw), w1)"
    and w: "wf w" "look w root = Some Dir" and o: "\<And>xs. mset (order xs) = mset xs"
    and old: "pu_adopt opts \<or> pu_full opts \<or> manifest_readable (plat E) get bucket key (w_s3 w)"
  shows "\<exists>st w'. push E order get head put bucket pre0 root opts w = (Inr st, w')"
proof -
  define pre where "pre = trim_suffix pre0 ''/''"
  note prep = prep [folded pre_def]
  note pr = prepare_Inr [OF prep w]
  have s1: "w_s3 w1 = w_s3 w" using pr(1) by (rule same_clientD)
  have ok1: "ok (w_s3 w1)" using ok s1 by simp
  have sha: "\<forall>f \<in> set (files_of m). is_sha256 (f_sha256 f)" and plain: "\<forall>f \<in> set (files_of m). plain_path (f_path f)"
    using pr(2) by (simp_all add: pushable_def)
  have "same_fs w w1" using prep by (rule prepare_same)
  then have up: "\<forall>f \<in> set (files_of m). uploadable root w1 f"
    using matching_uploadable [OF pr(4)] sha plain uploadable_same by blast
  consider "pu_adopt opts" | "\<not> pu_adopt opts" "pu_full opts" | "\<not> pu_adopt opts" "\<not> pu_full opts" by blast
  then show ?thesis
  proof cases
    case 1
    with prep put_manifest_done [OF ok1, of bucket key raw] show ?thesis by (auto simp: push_def Let_def pre_def)
  next
    case 2
    with prep publish_done [OF calm ok1 up pr(2) o, of bucket raw True] show ?thesis by (auto simp: push_def Let_def pre_def)
  next
    case 3
    then have "manifest_readable (plat E) get bucket key (w_s3 w1)" using old s1 by simp
    then obtain d w2 where d: "diff_remote (plat E) get head bucket pre key raw (files_of m) w1 = (Inr d, w2)" "same_fs w1 w2"
      using diff_remote_done [OF ok1 sha] by blast
    note de = diff_remote_effect [OF d(1) ok1 pr(2)]
    have p: "pushable pre key (df_upload d)" "set (df_upload d) \<subseteq> set (files_of m)" using de(3) by blast+
    then have "\<forall>f \<in> set (df_upload d). uploadable root w2 f" using up uploadable_same [OF d(2)] by blast
    then obtain w3 where "publish E order put bucket pre root key raw (df_upload d) (\<not> df_same d) w2 = (None, w3)"
      using publish_done [OF calm de(1) _ p(1) o] by blast
    with 3 prep d(1) show ?thesis by (auto simp: push_def Let_def pre_def)
  qed
qed

end

section \<open>The in-memory store without hooks accepts\<close>

interpretation fake_open: accepting_store "fake_put no_hooks" "fake_head (quiet no_hooks)" "fake_get (quiet no_hooks)" fake_object fake_ok
proof
  fix f :: fake and i :: put_in
  assume "r_err (pi_body i) = None" "pi_length i = Some (int (length (r_data (pi_body i))))"
    "pi_sum i = Some (content_sum (r_data (pi_body i)))"
  then show "\<exists>f'. fake_put no_hooks i f = (Inr (), f')"
    by (simp add: fake_put_def no_hooks_def io_read_all_def put_refused_def fake_sleep_def to_string_def Let_def)
next
  fix f :: fake and j e f'
  assume "fake_head (quiet no_hooks) j f = (Inl e, f')"
  then show "is_not_found e \<or> forbidden e"
    by (auto simp: fake_head_def Let_def no_hooks_def quiet_def fake_sleep_def is_not_found_def split: option.splits)
qed

end
