(* ===== verification/JsonTrip.thy ===== *)
theory JsonTrip
  imports ManifestCodec
begin

text \<open>
  Printing and reading JSON round trip. A printed string reads back with every invalid byte
  replaced, so exactly when it is valid UTF-8; a printed integer, array or object reads back
  as itself. For manifests: \<open>Decode\<close> gives back what \<open>Encode\<close> wrote.
\<close>

section \<open>Escapes\<close>

definition hexv :: "char \<Rightarrow> nat option" where
  "hexv c = (if char_between CHR ''0'' CHR ''9'' c then Some (byte c - 48)
             else if char_between CHR ''a'' CHR ''f'' c then Some (byte c - 87)
             else if char_between CHR ''A'' CHR ''F'' c then Some (byte c - 55) else None)"

lemma hex4_Cons:
  "hex4 (a # b # c # d # t) =
     (case (hexv a, hexv b, hexv c, hexv d) of
        (Some a, Some b, Some c, Some d) \<Rightarrow> Some (a * 4096 + b * 256 + c * 16 + d) | _ \<Rightarrow> None)"
  by (simp add: hex4_def hexv_def Let_def)

lemma hexv_hex_char: "n < 16 \<Longrightarrow> hexv (hex_char n) = Some n"
proof -
  have "list_all (\<lambda>n. hexv (hex_char n) = Some n) [0..<16]" by code_simp
  then show "n < 16 \<Longrightarrow> hexv (hex_char n) = Some n" by (simp add: list_all_iff)
qed

lemma hex4_hex_chars:
  "a < 16 \<Longrightarrow> b < 16 \<Longrightarrow> c < 16 \<Longrightarrow> d < 16 \<Longrightarrow>
    hex4 (hex_char a # hex_char b # hex_char c # hex_char d # t) = Some (a * 4096 + b * 256 + c * 16 + d)"
  by (simp add: hex4_Cons hexv_hex_char)

lemma hex4_u_escape:
  assumes "n < 65536"
  shows "hex4 (tl (tl (u_escape n)) @ t) = Some n"
proof -
  have "n div 4096 mod 16 = n div 4096" using assms by simp
  moreover have "n div 256 = n div 4096 * 16 + n div 256 mod 16"
    using div_mult_mod_eq [of "n div 256" 16] by (simp add: div_mult2_eq [symmetric])
  moreover have "n div 16 = n div 256 * 16 + n div 16 mod 16"
    using div_mult_mod_eq [of "n div 16" 16] by (simp add: div_mult2_eq [symmetric])
  moreover have "n = n div 16 * 16 + n mod 16" by simp
  ultimately have "n div 4096 mod 16 * 4096 + n div 256 mod 16 * 256 + n div 16 mod 16 * 16 + n mod 16 = n"
    by linarith
  moreover have "tl (tl (u_escape n)) @ t =
      hex_char (n div 4096 mod 16) # hex_char (n div 256 mod 16) # hex_char (n div 16 mod 16) # hex_char (n mod 16) # t"
    by (simp add: u_escape_def)
  moreover have "hex4 \<dots> = Some (n div 4096 mod 16 * 4096 + n div 256 mod 16 * 256 + n div 16 mod 16 * 16 + n mod 16)"
    by (rule hex4_hex_chars) simp_all
  ultimately show ?thesis by (simp only:)
qed

lemma u_escape_shape: "u_escape n = bslash # CHR ''u'' # tl (tl (u_escape n))" "length (tl (tl (u_escape n))) = 4"
  by (simp_all add: u_escape_def)

lemma scan_u_escape:
  assumes "n < 65536"
  shows "scan_string (u_escape n @ t) = map_option (\<lambda>(b, r). (u_escape n @ b, r)) (scan_string t)"
proof -
  let ?h = "tl (tl (u_escape n))"
  have e: "u_escape n @ t = bslash # CHR ''u'' # ?h @ t" by (simp add: u_escape_def)
  have "scan_string (bslash # CHR ''u'' # ?h @ t) = map_option (\<lambda>(b, r). (bslash # CHR ''u'' # ?h @ b, r)) (scan_string t)"
    using hex4_u_escape [OF assms, of t] u_escape_shape(2) [of n] by simp
  then show ?thesis unfolding e by (simp add: u_escape_def)
qed

lemma unquote_u_escape:
  assumes "n < 65536" "\<not> surrogate n"
  shows "unquote (u_escape n @ t) = encode_rune n @ unquote t"
proof -
  let ?h = "tl (tl (u_escape n))"
  have e: "u_escape n @ t = bslash # CHR ''u'' # ?h @ t" by (simp add: u_escape_def)
  show ?thesis unfolding e using hex4_u_escape [OF assms(1), of t] u_escape_shape(2) [of n] assms(2) by simp
qed

section \<open>Strings\<close>

text \<open>What may follow is passed through: a piece of a printed string scans to itself.\<close>

definition scans :: "string \<Rightarrow> bool" where
  "scans x \<longleftrightarrow> (\<forall>t. scan_string (x @ t) = map_option (\<lambda>(b, r). (x @ b, r)) (scan_string t))"

lemma scans_append: "scans x \<Longrightarrow> scans y \<Longrightarrow> scans (x @ y)"
  by (auto simp: scans_def option.map_comp intro!: option.map_cong)

lemma scans_Nil: "scans []"
  by (simp add: scans_def option.map_id)

lemma scans_high: "list_all (\<lambda>c. 128 \<le> byte c) x \<Longrightarrow> scans x"
proof (induction x)
  case (Cons c x)
  have "scans [c]"
    unfolding scans_def using Cons.prems by auto
  from scans_append [OF this, of x] Cons show ?case by simp
qed (rule scans_Nil)

lemma byte_eq: "byte c = n \<Longrightarrow> c = char_of n" for n :: nat
  by auto

lemma quote_char_trip:
  assumes "byte c < 128"
  shows "scans (quote_char c)" "unquote (quote_char c @ t) = c # unquote t"
proof -
  have u: "encode_rune (byte c) = [c]" "\<not> surrogate (byte c)" "byte c < 65536"
    using assms by (simp_all add: encode_rune_def surrogate_def)
  consider "quote_char c = [bslash, c] \<and> (c = bslash \<or> c = quote)"
    | e where "quote_char c = [bslash, e]" "e \<in> {CHR ''b'', CHR ''f'', CHR ''n'', CHR ''r'', CHR ''t''}" "simple_escape e = c"
    | "quote_char c = u_escape (byte c)"
    | "quote_char c = [c]" "c \<noteq> bslash" "c \<noteq> quote" "32 \<le> byte c"
    unfolding quote_char_def simple_escape_def
    by (cases "c = bslash \<or> c = quote"; cases "byte c = 8"; cases "byte c = 12"; cases "byte c = 10"; cases "byte c = 13";
        cases "byte c = 9"; cases "byte c < 32 \<or> c = CHR ''<'' \<or> c = CHR ''>'' \<or> c = CHR ''&''")
      (auto dest!: byte_eq split: if_splits)
  then have "scans (quote_char c) \<and> unquote (quote_char c @ t) = c # unquote t"
  proof cases
    case 1
    then show ?thesis by (auto simp: scans_def simple_escape_def)
  next
    case (2 e)
    then show ?thesis by (auto simp: scans_def)
  next
    case 3
    then show ?thesis using u by (simp add: scans_def scan_u_escape unquote_u_escape)
  next
    case 4
    then show ?thesis using assms by (auto simp: scans_def rune_len_def)
  qed
  then show "scans (quote_char c)" "unquote (quote_char c @ t) = c # unquote t" by blast+
qed

text \<open>A rune is recognised whatever follows it.\<close>

definition rune_ok :: "bytes \<Rightarrow> bool" where
  "rune_ok x \<longleftrightarrow> x \<noteq> [] \<and> (\<forall>t. rune_len (x @ t) = length x)"

lemma rune_len_le: "rune_len s \<le> length s"
  by (auto simp: rune_len_def split: list.splits)

lemma rune_len_take:
  assumes "rune_len s \<noteq> 0"
  shows "rune_ok (take (rune_len s) s)"
proof -
  obtain a r where s: "s = a # r" using assms by (cases s) (auto simp: rune_len_def)
  consider "byte a < 128" | "byte_in 194 223 a" "\<not> byte a < 128" | "byte_in 224 239 a" "\<not> byte a < 128" "\<not> byte_in 194 223 a"
    | "byte_in 240 244 a" "\<not> byte a < 128" "\<not> byte_in 194 223 a" "\<not> byte_in 224 239 a"
    using assms by (auto simp: rune_len_def s split: if_splits)
  then show ?thesis
  proof cases
    case 1
    then show ?thesis by (simp add: rune_ok_def rune_len_def s)
  next
    case 2
    then obtain b r' where r: "r = b # r'" "cont b" using assms by (auto simp: rune_len_def s split: list.splits if_splits)
    then show ?thesis using 2 by (simp add: rune_ok_def rune_len_def s)
  next
    case 3
    then obtain b c r' where r: "r = b # c # r'" using assms by (auto simp: rune_len_def s split: list.splits if_splits)
    then have "(if byte a = 224 then byte_in 160 191 b else if byte a = 237 then byte_in 128 159 b else cont b) \<and> cont c"
      using assms 3 by (simp add: rune_len_def s split: if_splits)
    then show ?thesis using 3 by (simp add: rune_ok_def rune_len_def s r)
  next
    case 4
    then obtain b c d r' where r: "r = b # c # d # r'" using assms by (auto simp: rune_len_def s split: list.splits if_splits)
    then have "(if byte a = 240 then byte_in 144 191 b else if byte a = 244 then byte_in 128 143 b else cont b) \<and> cont c \<and> cont d"
      using assms 4 by (simp add: rune_len_def s split: if_splits)
    then show ?thesis using 4 by (simp add: rune_ok_def rune_len_def s r)
  qed
qed

lemma rune_ok_one: "rune_ok [c] \<Longrightarrow> byte c < 128"
  by (auto simp: rune_ok_def rune_len_def byte_in_def dest!: spec [of _ "[]"] split: if_splits)

lemma rune_len_4: "rune_len s \<le> 4"
  by (auto simp: rune_len_def split: list.splits)

lemma rune_ok_high:
  assumes "rune_ok (a # b # x)"
  shows "list_all (\<lambda>c. 128 \<le> byte c) (a # b # x)"
proof -
  have l: "rune_len (a # b # x) = length (a # b # x)" using assms by (auto simp: rune_ok_def dest: spec [of _ "[]"])
  with rune_len_4 [of "a # b # x"] consider "x = []" | c where "x = [c]" | c d where "x = [c, d]"
    by (cases x rule: remdups_adj.cases) auto
  then show ?thesis
  proof cases
    case 1
    with l show ?thesis by (auto simp: rune_len_def byte_in_def cont_def split: if_splits)
  next
    case (2 c)
    with l show ?thesis by (auto simp: rune_len_def byte_in_def cont_def split: if_splits)
  next
    case (3 c d)
    with l show ?thesis by (auto simp: rune_len_def byte_in_def cont_def split: if_splits)
  qed
qed

lemma runes_ok: "Some x \<in> set (runes s) \<Longrightarrow> rune_ok x"
proof (induction s rule: runes.induct)
  case (1 s)
  then show ?case
    using rune_len_take [of s] by (subst (asm) (3) runes.simps) (auto split: if_splits)
qed

lemma quote_rune_trip:
  assumes "\<And>x. r = Some x \<Longrightarrow> rune_ok x"
  shows "scans (quote_rune r)" "unquote (quote_rune r @ t) = (case r of None \<Rightarrow> replacement | Some x \<Rightarrow> x) @ unquote t"
proof -
  have rep: "encode_rune 65533 = replacement"
    by (simp add: encode_rune_def replacement_def char_of_eq_iff take_bit_eq_mod)
  have "\<not> surrogate 65533" "\<not> surrogate 8232" "\<not> surrogate 8233"
    by (simp_all add: surrogate_def)
  note hi = rep this
  have esc: "scans (u_escape n)" if "n < 65536" for n
    using that by (simp add: scans_def scan_u_escape)
  have "scans (quote_rune r) \<and> unquote (quote_rune r @ t) = (case r of None \<Rightarrow> replacement | Some x \<Rightarrow> x) @ unquote t"
  proof (cases r)
    case None
    then show ?thesis using esc [of 65533] hi by (simp add: quote_rune_def unquote_u_escape)
  next
    case (Some x)
    note ok = assms [OF Some]
    then consider c where "x = [c]" | a b y where "x = a # b # y"
      by (cases x rule: remdups_adj.cases) (auto simp: rune_ok_def)
    then show ?thesis
    proof cases
      case (1 c)
      then show ?thesis using Some quote_char_trip rune_ok_one ok by (simp add: quote_rune_def)
    next
      case (2 a b y)
      note h = rune_ok_high [OF ok [unfolded 2]]
      have q: "quote_rune r = (if x = encode_rune 8232 then u_escape 8232 else if x = encode_rune 8233 then u_escape 8233 else x)"
        by (simp add: quote_rune_def Some 2)
      have "unquote (x @ t) = x @ unquote t"
      proof -
        have l: "rune_len (x @ t) = length x" using ok by (simp add: rune_ok_def)
        have "a \<noteq> bslash" using h by auto
        then have "unquote (x @ t) = take (rune_len (x @ t)) (x @ t) @ unquote (drop (rune_len (x @ t)) (x @ t))"
          using l by (simp add: 2 del: take_append drop_append)
        then show ?thesis using l by simp
      qed
      moreover have "scans x" using scans_high h 2 by blast
      ultimately show ?thesis
        using q esc [of 8232] esc [of 8233] hi Some by (auto simp: unquote_u_escape)
    qed
  qed
  then show "scans (quote_rune r)" "unquote (quote_rune r @ t) = (case r of None \<Rightarrow> replacement | Some x \<Rightarrow> x) @ unquote t"
    by blast+
qed

lemma quote_body_trip:
  "scans (quote_body s)" "unquote (quote_body s) = coerce_utf8 s"
proof -
  have "scans (concat (map quote_rune rs)) \<and>
      unquote (concat (map quote_rune rs)) = concat (map (\<lambda>r. case r of None \<Rightarrow> replacement | Some x \<Rightarrow> x) rs)"
    if "\<And>x. Some x \<in> set rs \<Longrightarrow> rune_ok x" for rs
    using that by (induction rs) (simp_all add: scans_Nil scans_append quote_rune_trip)
  from this [of "runes s"] runes_ok [of _ s]
  show "scans (quote_body s)" "unquote (quote_body s) = coerce_utf8 s"
    by (simp_all add: quote_body_def coerce_utf8_def)
qed

lemma scan_quoted: "scan_string (quote_body s @ quote # t) = Some (quote_body s, t)"
  using quote_body_trip(1) [of s] by (simp add: scans_def)

text \<open>A valid string is left as it is.\<close>

lemma coerce_valid: "valid_utf8 s \<Longrightarrow> coerce_utf8 s = s"
proof (induction s rule: runes.induct)
  case (1 s)
  show ?case
  proof (cases "s = []")
    case True
    then show ?thesis by (simp add: coerce_utf8_def runes.simps)
  next
    case False
    have "rune_len s \<noteq> 0" using 1(3) False runes.simps [of s] by (auto simp: valid_utf8_def split: if_splits)
    with False have r: "runes s = Some (take (rune_len s) s) # runes (drop (rune_len s) s)" by (simp add: runes.simps)
    with 1(3) have "valid_utf8 (drop (rune_len s) s)" by (simp add: valid_utf8_def)
    from 1(2) [OF False \<open>rune_len s \<noteq> 0\<close> this] show ?thesis by (simp add: coerce_utf8_def r)
  qed
qed

text \<open>What is stored is always valid, so a string comes back as it was just when it is valid.\<close>

lemma runes_rune:
  assumes "rune_ok x"
  shows "runes (x @ t) = Some x # runes t"
proof -
  have l: "rune_len (x @ t) = length x" and "x \<noteq> []" using assms by (simp_all add: rune_ok_def)
  then show ?thesis by (simp add: runes.simps [of "x @ t"])
qed

lemma rune_ok_replacement: "rune_ok replacement"
  by (simp add: rune_ok_def replacement_def rune_len_def byte_in_def cont_def)

lemma valid_coerce: "valid_utf8 (coerce_utf8 s)"
proof -
  have "valid_utf8 (concat (map (\<lambda>r. case r of None \<Rightarrow> replacement | Some x \<Rightarrow> x) rs))"
    if "\<And>x. Some x \<in> set rs \<Longrightarrow> rune_ok x" for rs
    using that
  proof (induction rs)
    case Nil
    then show ?case by (simp add: valid_utf8_def runes.simps)
  next
    case (Cons r rs)
    have "rune_ok (case r of None \<Rightarrow> replacement | Some x \<Rightarrow> x)"
      using Cons.prems rune_ok_replacement by (auto split: option.splits)
    with Cons show ?case by (simp add: valid_utf8_def runes_rune)
  qed
  from this [of "runes s"] runes_ok [of _ s] show ?thesis by (simp add: coerce_utf8_def)
qed

lemma coerce_iff: "coerce_utf8 s = s \<longleftrightarrow> valid_utf8 s"
  using valid_coerce [of s] coerce_valid [of s] by auto

lemma ascii_valid: "list_all (\<lambda>c. byte c < 128) s \<Longrightarrow> valid_utf8 s"
proof (induction s)
  case (Cons c s)
  then have "runes (c # s) = Some [c] # runes s" by (simp add: runes.simps [of "c # s"] rune_len_def)
  with Cons show ?case by (simp add: valid_utf8_def)
qed (simp add: valid_utf8_def runes.simps)

section \<open>Numbers\<close>

lemma dec_digits_digits: "dec_digits n \<noteq> [] \<and> list_all is_digit (dec_digits n)"
proof (induction n rule: dec_digits.induct)
  case (1 n)
  have d: "is_digit (char_of (48 + k))" if "k < 10" for k :: nat
    using that by (simp add: is_digit_def char_between_def)
  show ?case
    using 1 d [of n] d [of "n mod 10"] by (cases "n < 10") (simp_all add: dec_digits.simps [of n])
qed

lemma dec_digits_zero: "hd (dec_digits n) = CHR ''0'' \<Longrightarrow> n = 0"
proof (induction n rule: dec_digits.induct)
  case (1 n)
  show ?case
  proof (cases "n < 10")
    case True
    then have "dec_digits n = [char_of (48 + n)]" by (simp add: dec_digits.simps)
    with 1(2) True show ?thesis by (auto dest: arg_cong [where f = byte])
  next
    case False
    then have "hd (dec_digits n) = hd (dec_digits (n div 10))"
      using dec_digits_digits [of "n div 10"] by (subst dec_digits.simps) simp
    with 1 False show ?thesis by simp
  qed
qed

lemma parse_dec_append: "parse_dec a (x @ y) = (case parse_dec a x of None \<Rightarrow> None | Some b \<Rightarrow> parse_dec b y)"
  by (induction x arbitrary: a) (auto split: option.splits)

lemma parse_dec_digits: "parse_dec 0 (dec_digits n) = Some n"
proof (induction n rule: dec_digits.induct)
  case (1 n)
  have d: "is_digit (char_of (48 + k))" "byte (char_of (48 + k)) - 48 = k" if "k < 10" for k :: nat
    using that by (simp_all add: is_digit_def char_between_def)
  show ?case
    using 1 d [of n] d [of "n mod 10"] by (cases "n < 10") (simp_all add: dec_digits.simps [of n] parse_dec_append)
qed

lemma parse_fmt_int: "is_int64 i \<Longrightarrow> parse_int (fmt_int i) = Some i"
proof -
  assume i: "is_int64 i"
  have h: "dec_digits n \<noteq> []" "hd (dec_digits n) \<noteq> CHR ''-''" "hd (dec_digits n) \<noteq> CHR ''+''" for n
    using dec_digits_digits [of n] by (cases "dec_digits n"; force simp: is_digit_def char_between_def)+
  show ?thesis
  proof (cases "i < 0")
    case True
    then show ?thesis using i h [of "nat (- i)"] by (simp add: fmt_int_def parse_int_def parse_dec_digits)
  next
    case False
    obtain a l where l: "dec_digits (nat i) = a # l" using h(1) [of "nat i"] by (meson neq_Nil_conv)
    have "parse_dec 0 (a # l) = Some (nat i)" using parse_dec_digits [of "nat i"] by (simp only: l)
    with i False h(2,3) [of "nat i"] show ?thesis
      by (simp add: fmt_int_def parse_int_def l del: parse_dec.simps)
  qed
qed

text \<open>A printed number ends where no digit, point or exponent follows.\<close>

definition ends_number :: "bytes \<Rightarrow> bool" where
  "ends_number t \<longleftrightarrow> t = [] \<or> \<not> is_digit (hd t) \<and> hd t \<notin> {CHR ''.'', CHR ''e'', CHR ''E''}"

lemma scan_digits_all:
  assumes "d \<noteq> []" "list_all is_digit d" "ends_number t"
  shows "scan_digits (d @ t) = Some (d, t)"
proof -
  have "takeWhile is_digit t = []" "dropWhile is_digit t = t"
    using assms(3) by (cases t; simp add: ends_number_def)+
  then have "takeWhile is_digit (d @ t) = d" "dropWhile is_digit (d @ t) = t"
    using assms(2) by (simp_all add: list_all_iff)
  with assms(1) show ?thesis by (simp add: scan_digits_def)
qed

lemma scan_ends: "ends_number t \<Longrightarrow> scan_frac t = Some ([], t) \<and> scan_exp t = Some ([], t)"
  by (cases t) (auto simp: ends_number_def scan_frac_def scan_exp_def)

lemma scan_nat:
  assumes "ends_number t"
  shows "(case dec_digits n @ t of
      c # u \<Rightarrow> (if c = CHR ''0'' then Some ([c], u) else scan_digits (dec_digits n @ t)) | [] \<Rightarrow> None) = Some (dec_digits n, t)"
proof -
  note d = dec_digits_digits [of n]
  show ?thesis
  proof (cases "hd (dec_digits n) = CHR ''0''")
    case True
    then have "n = 0" by (rule dec_digits_zero)
    then have "dec_digits n = [CHR ''0'']" by (simp add: dec_digits.simps char_of_eq_iff take_bit_eq_mod)
    then show ?thesis by simp
  next
    case False
    with d scan_digits_all [OF _ _ assms, of "dec_digits n"] show ?thesis by (cases "dec_digits n") simp_all
  qed
qed

lemma scan_number_fmt:
  assumes "ends_number t"
  shows "scan_number (fmt_int i @ t) = Some (fmt_int i, t)"
proof -
  have m: "hd (dec_digits n) \<noteq> CHR ''-''" "dec_digits n \<noteq> []" for n
    using dec_digits_digits [of n] by (cases "dec_digits n"; force simp: is_digit_def char_between_def)+
  show ?thesis
  proof (cases "i < 0")
    case True
    let ?n = "nat (- i)"
    obtain c u where c: "dec_digits ?n = c # u" using m(2) by (meson neq_Nil_conv)
    have "(if c = CHR ''0'' then Some ([c], u @ t) else scan_digits (c # u @ t)) = Some (c # u, t)"
      using scan_nat [OF assms, of ?n] by (simp add: c cong: if_cong)
    then show ?thesis using True scan_ends [OF assms] by (simp add: fmt_int_def scan_number_def c)
  next
    case False
    let ?n = "nat i"
    obtain c u where c: "dec_digits ?n = c # u" "c \<noteq> CHR ''-''" using m [of ?n] by (cases "dec_digits ?n") auto
    have "(if c = CHR ''0'' then Some ([c], u @ t) else scan_digits (c # u @ t)) = Some (c # u, t)"
      using scan_nat [OF assms, of ?n] by (simp add: c cong: if_cong)
    then show ?thesis using False scan_ends [OF assms] c(2) by (simp add: fmt_int_def scan_number_def c)
  qed
qed

section \<open>Values\<close>

text \<open>White space before a token does not count.\<close>

lemma next_token_ws: "list_all is_ws x \<Longrightarrow> next_token (x @ s) = next_token s"
  by (simp add: next_token_def dropWhile_append2 list_all_iff)

lemma newline_ws: "list_all is_ws (newline d)"
  by (simp add: newline_def is_ws_def list_all_iff)

lemma next_newline: "next_token (newline d @ s) = next_token s"
  by (rule next_token_ws [OF newline_ws])

lemma ends_newline: "ends_number (newline d @ s)"
  by (simp add: ends_number_def newline_def is_digit_def char_between_def)

lemma next_token_punct [simp]:
  "next_token (CHR ''['' # s) = Some (TOpenA, s)" "next_token (CHR '']'' # s) = Some (TCloseA, s)"
  "next_token (CHR ''{'' # s) = Some (TOpenO, s)" "next_token (CHR ''}'' # s) = Some (TCloseO, s)"
  "next_token (CHR '':'' # s) = Some (TColon, s)" "next_token (CHR '','' # s) = Some (TComma, s)"
  by (simp_all add: next_token_def is_ws_def)

lemma next_token_string: "next_token (quote_json s @ t) = Some (TLit (JStr (coerce_utf8 s)), t)"
  by (simp add: next_token_def is_ws_def quote_json_def scan_quoted quote_body_trip(2))

lemma next_token_number:
  assumes "ends_number t"
  shows "next_token (fmt_int i @ t) = Some (TLit (JNum (fmt_int i)), t)"
proof -
  have d: "\<exists>c u. fmt_int i = c # u \<and> (is_digit c \<or> c = CHR ''-'')"
    using dec_digits_digits [of "nat i"] by (cases "dec_digits (nat i)") (auto simp: fmt_int_def)
  then obtain c u where c: "fmt_int i = c # u" "is_digit c \<or> c = CHR ''-''" by blast
  have "c \<notin> set ('' []{}:,tfn'' @ [quote])" "\<not> is_ws c"
    using c(2) by (auto simp: is_digit_def char_between_def is_ws_def)
  then have "next_token (c # u @ t) = map_option (\<lambda>(n, r). (TLit (JNum n), r)) (scan_number (c # u @ t))"
    by (simp add: next_token_def)
  then show ?thesis using scan_number_fmt [OF assms, of i] by (simp add: c(1))
qed

text \<open>A value with printed integers for numbers, and what it reads back as.\<close>

fun printed :: "json \<Rightarrow> bool" where
  "printed (JNum n) \<longleftrightarrow> (\<exists>i. n = fmt_int i)"
| "printed (JArr js) \<longleftrightarrow> (\<forall>j \<in> set js. printed j)"
| "printed (JObj kvs) \<longleftrightarrow> (\<forall>kv \<in> set kvs. printed (snd kv))"
| "printed j \<longleftrightarrow> True"

fun coerced :: "json \<Rightarrow> json" where
  "coerced (JStr s) = JStr (coerce_utf8 s)"
| "coerced (JArr js) = JArr (map coerced js)"
| "coerced (JObj kvs) = JObj (map (\<lambda>(k, j). (coerce_utf8 k, coerced j)) kvs)"
| "coerced j = j"

fun height :: "json \<Rightarrow> nat" where
  "height (JArr js) = Suc (Max (insert 0 (height ` set js)))"
| "height (JObj kvs) = Suc (Max (insert 0 ((height \<circ> snd) ` set kvs)))"
| "height j = 0"

lemma run_json_step:
  assumes "(\<forall>v. m \<noteq> MAfter v) \<or> st \<noteq> []" "next_token s = Some (t, r)" "json_step m st t = Some (m', st')"
  shows "run_json m st s = run_json m' st' r"
  using assms by (subst run_json.simps) (auto split: mode.splits)

lemma run_literal:
  "next_token s = Some (TLit j, r) \<Longrightarrow> m = MVal \<or> m = MValOrClose \<Longrightarrow> run_json m st s = run_json (MAfter j) st r"
  by (rule run_json_step) (auto simp: json_step_def begin_value_def)

text \<open>The printed text of \<open>j\<close> reads as its coerced value, from either mode that expects one.\<close>

definition reads :: "nat \<Rightarrow> json \<Rightarrow> bool" where
  "reads d j \<longleftrightarrow> (\<forall>m st ws t. (m = MVal \<or> m = MValOrClose) \<longrightarrow> list_all is_ws ws \<longrightarrow> ends_number t \<longrightarrow>
     length st + height j \<le> max_depth \<longrightarrow> run_json m st (ws @ render d j @ t) = run_json (MAfter (coerced j)) st t)"

lemma readsD:
  "reads d j \<Longrightarrow> m = MVal \<or> m = MValOrClose \<Longrightarrow> list_all is_ws ws \<Longrightarrow> ends_number t \<Longrightarrow>
    length st + height j \<le> max_depth \<Longrightarrow> run_json m st (ws @ render d j @ t) = run_json (MAfter (coerced j)) st t"
  unfolding reads_def by blast

lemma read_elements:
  assumes "js \<noteq> []" "m = MVal \<or> m = MValOrClose"
    and "\<And>j. j \<in> set js \<Longrightarrow> reads (Suc d) j" "\<And>j. j \<in> set js \<Longrightarrow> Suc (length st) + height j \<le> max_depth"
  shows "run_json m (FArr vs # st)
      (newline (Suc d) @ join_with ('','' @ newline (Suc d)) (map (render (Suc d)) js) @ newline d @ '']'' @ t)
    = run_json (MAfter (JArr (rev vs @ map coerced js))) st t"
  using assms
proof (induction js arbitrary: vs m)
  case (Cons j js)
  have j: "run_json m (FArr vs # st) (newline (Suc d) @ render (Suc d) j @ r) = run_json (MAfter (coerced j)) (FArr vs # st) r"
    if "ends_number r" for r
    using Cons.prems(2) Cons.prems(3,4) [of j] that newline_ws by (intro readsD) simp_all
  show ?case
  proof (cases js)
    case Nil
    have "run_json (MAfter (coerced j)) (FArr vs # st) (newline d @ '']'' @ t) = run_json (MAfter (JArr (rev (coerced j # vs)))) st t"
      by (rule run_json_step [where t = TCloseA]) (simp_all add: next_newline json_step_def end_value_def)
    then show ?thesis using j [of "newline d @ '']'' @ t"] by (simp add: Nil ends_newline)
  next
    case (Cons j' js')
    let ?r = "newline (Suc d) @ join_with ('','' @ newline (Suc d)) (map (render (Suc d)) js) @ newline d @ '']'' @ t"
    have "run_json (MAfter (coerced j)) (FArr vs # st) (CHR '','' # ?r) = run_json MVal (FArr (coerced j # vs) # st) ?r"
      by (rule run_json_step [where t = TComma]) (simp_all add: json_step_def end_value_def)
    also have "\<dots> = run_json (MAfter (JArr (rev (coerced j # vs) @ map coerced js))) st t"
      by (rule Cons.IH) (use Cons Cons.prems in auto)
    finally have "run_json (MAfter (coerced j)) (FArr vs # st) (CHR '','' # ?r)
        = run_json (MAfter (JArr (rev vs @ map coerced (j # js)))) st t" by simp
    moreover have "ends_number (CHR '','' # ?r)" by (simp add: ends_number_def is_digit_def char_between_def)
    ultimately show ?thesis using j [of "CHR '','' # ?r"] by (simp add: Cons)
  qed
qed simp

abbreviation member_text :: "nat \<Rightarrow> bytes \<times> json \<Rightarrow> string" where
  "member_text d kv \<equiv> quote_json (fst kv) @ '': '' @ render d (snd kv)"

lemma read_members:
  assumes "kvs \<noteq> []" "m = MKey \<or> m = MKeyOrClose"
    and "\<And>kv. kv \<in> set kvs \<Longrightarrow> reads (Suc d) (snd kv)"
    and "\<And>kv. kv \<in> set kvs \<Longrightarrow> Suc (length st) + height (snd kv) \<le> max_depth"
  shows "run_json m (FObj vs # st)
      (newline (Suc d) @ join_with ('','' @ newline (Suc d)) (map (member_text (Suc d)) kvs) @ newline d @ ''}'' @ t)
    = run_json (MAfter (JObj (rev vs @ map (\<lambda>(k, j). (coerce_utf8 k, coerced j)) kvs))) st t"
  using assms
proof (induction kvs arbitrary: vs m)
  case (Cons kv kvs)
  let ?k = "coerce_utf8 (fst kv)" and ?v = "coerced (snd kv)"
  have kv: "run_json m (FObj vs # st) (newline (Suc d) @ member_text (Suc d) kv @ r) = run_json (MAfter ?v) (FKey vs ?k # st) r"
    if r: "ends_number r" for r
  proof -
    let ?r1 = "'': '' @ render (Suc d) (snd kv) @ r"
    have "run_json m (FObj vs # st) (newline (Suc d) @ quote_json (fst kv) @ ?r1) = run_json MColon (FKey vs ?k # st) ?r1"
      using Cons.prems(2)
      by (intro run_json_step [where t = "TLit (JStr ?k)"])
        (auto simp: next_newline next_token_string json_step_def key_token_def)
    also have "\<dots> = run_json MVal (FKey vs ?k # st) ('' '' @ render (Suc d) (snd kv) @ r)"
      by (rule run_json_step [where t = TColon]) (simp_all add: json_step_def)
    also have "\<dots> = run_json (MAfter ?v) (FKey vs ?k # st) r"
      using Cons.prems(3,4) [of kv] r by (intro readsD) (simp_all add: is_ws_def)
    finally show ?thesis by simp
  qed
  show ?case
  proof (cases kvs)
    case Nil
    have "run_json (MAfter ?v) (FKey vs ?k # st) (newline d @ ''}'' @ t) = run_json (MAfter (JObj (rev ((?k, ?v) # vs)))) st t"
      by (rule run_json_step [where t = TCloseO]) (simp_all add: next_newline json_step_def end_value_def)
    then show ?thesis using kv [of "newline d @ ''}'' @ t"] by (simp add: Nil ends_newline case_prod_beta)
  next
    case (Cons kv' kvs')
    let ?r = "newline (Suc d) @ join_with ('','' @ newline (Suc d)) (map (member_text (Suc d)) kvs) @ newline d @ ''}'' @ t"
    have "run_json (MAfter ?v) (FKey vs ?k # st) (CHR '','' # ?r) = run_json MKey (FObj ((?k, ?v) # vs) # st) ?r"
      by (rule run_json_step [where t = TComma]) (simp_all add: json_step_def end_value_def)
    also have "\<dots> = run_json (MAfter (JObj (rev ((?k, ?v) # vs) @ map (\<lambda>(k, j). (coerce_utf8 k, coerced j)) kvs))) st t"
      by (rule Cons.IH) (use Cons Cons.prems in auto)
    finally have "run_json (MAfter ?v) (FKey vs ?k # st) (CHR '','' # ?r)
        = run_json (MAfter (JObj (rev vs @ map (\<lambda>(k, j). (coerce_utf8 k, coerced j)) (kv # kvs)))) st t"
      by (simp add: case_prod_beta)
    moreover have "ends_number (CHR '','' # ?r)" by (simp add: ends_number_def is_digit_def char_between_def)
    ultimately show ?thesis using kv [of "CHR '','' # ?r"] by (simp add: Cons)
  qed
qed simp

lemma reads_literal:
  assumes "\<And>t. ends_number t \<Longrightarrow> next_token (render d j @ t) = Some (TLit (coerced j), t)"
  shows "reads d j"
  unfolding reads_def by (auto simp: next_token_ws assms intro!: run_literal)

lemma reads_open:
  assumes "\<And>m st t. m = MVal \<or> m = MValOrClose \<Longrightarrow> length st + height j \<le> max_depth \<Longrightarrow>
    \<exists>tk m' st' r. next_token (render d j @ t) = Some (tk, r) \<and> json_step m st tk = Some (m', st') \<and>
      run_json m' st' r = run_json (MAfter (coerced j)) st t"
  shows "reads d j"
  unfolding reads_def
proof (intro allI impI)
  fix m :: mode and st :: "frame list" and ws t
  assume m: "m = MVal \<or> m = MValOrClose" and ws: "list_all is_ws ws" and "length st + height j \<le> max_depth"
  from assms [OF m this(3)] obtain tk m' st' r where
    n: "next_token (render d j @ t) = Some (tk, r)" "json_step m st tk = Some (m', st')"
      "run_json m' st' r = run_json (MAfter (coerced j)) st t" by blast
  have "run_json m st (ws @ render d j @ t) = run_json m' st' r"
    using m by (intro run_json_step [OF _ _ n(2)]) (auto simp: next_token_ws [OF ws] n(1))
  with n(3) show "run_json m st (ws @ render d j @ t) = run_json (MAfter (coerced j)) st t" by simp
qed

lemma height_elem: "x \<in> A \<Longrightarrow> finite A \<Longrightarrow> f x \<le> Max (insert 0 (f ` A))" for f :: "'a \<Rightarrow> nat"
  by (intro Max_ge) auto

lemma render_reads: "printed j \<Longrightarrow> reads d j"
proof (induction j arbitrary: d)
  case JNull
  show ?case by (rule reads_literal) (simp add: next_token_def is_ws_def scan_word_def)
next
  case (JBool b)
  show ?case by (rule reads_literal) (simp add: next_token_def is_ws_def scan_word_def)
next
  case (JNum n)
  then show ?case by (intro reads_literal) (auto simp: next_token_number)
next
  case (JStr x)
  show ?case by (rule reads_literal) (simp add: next_token_string)
next
  case (JArr js)
  have r: "reads (Suc d) j" if "j \<in> set js" for j using JArr that by simp
  show ?case
  proof (rule reads_open)
    fix m :: mode and st :: "frame list" and t
    assume m: "m = MVal \<or> m = MValOrClose" and h: "length st + height (JArr js) \<le> max_depth"
    then have st: "length st < max_depth" by simp
    show "\<exists>tk m' st' r. next_token (render d (JArr js) @ t) = Some (tk, r) \<and> json_step m st tk = Some (m', st') \<and>
      run_json m' st' r = run_json (MAfter (coerced (JArr js))) st t"
    proof (cases "js = []")
      case True
      have "run_json MValOrClose (FArr [] # st) (CHR '']'' # t) = run_json (MAfter (JArr [])) st t"
        by (rule run_json_step [where t = TCloseA]) (simp_all add: json_step_def)
      with True m st show ?thesis by (auto simp: json_step_def begin_value_def)
    next
      case False
      have "Suc (length st) + height j \<le> max_depth" if "j \<in> set js" for j
        using height_elem [OF that, of height] h by simp
      from read_elements [OF False disjI2 [OF refl] r this] m st False show ?thesis
        by (auto simp: json_step_def begin_value_def)
    qed
  qed
next
  case (JObj kvs)
  have r: "reads (Suc d) (snd kv)" if "kv \<in> set kvs" for kv
    using JObj that by (cases kv) (force simp: snds.simps)
  show ?case
  proof (rule reads_open)
    fix m :: mode and st :: "frame list" and t'
    assume m: "m = MVal \<or> m = MValOrClose" and h: "length st + height (JObj kvs) \<le> max_depth"
    then have st: "length st < max_depth" by simp
    show "\<exists>tk m' st' r. next_token (render d (JObj kvs) @ t') = Some (tk, r) \<and> json_step m st tk = Some (m', st') \<and>
      run_json m' st' r = run_json (MAfter (coerced (JObj kvs))) st t'"
    proof (cases "kvs = []")
      case True
      have "run_json MKeyOrClose (FObj [] # st) (CHR ''}'' # t') = run_json (MAfter (JObj [])) st t'"
        by (rule run_json_step [where t = TCloseO]) (simp_all add: json_step_def)
      with True m st show ?thesis by (auto simp: json_step_def begin_value_def)
    next
      case False
      have "Suc (length st) + height (snd kv) \<le> max_depth" if "kv \<in> set kvs" for kv
        using height_elem [OF that, of "height \<circ> snd"] h by simp
      from read_members [OF False disjI2 [OF refl] r this, of "[]" t'] m st False show ?thesis
        by (auto simp: json_step_def begin_value_def case_prod_unfold)
    qed
  qed
qed

section \<open>Manifests\<close>

lemma decode_value_render:
  assumes "printed j" "height j \<le> max_depth"
  shows "decode_value (render 0 j @ [CHR 0x0A]) = Some (coerced j)"
proof -
  have e: "ends_number [CHR 0x0A]" by (simp add: ends_number_def is_digit_def char_between_def)
  have "run_json MVal [] (render 0 j @ [CHR 0x0A]) = run_json (MAfter (coerced j)) [] [CHR 0x0A]"
    using readsD [OF render_reads [OF assms(1)], of MVal "[]" "[CHR 0x0A]" "[]" 0] e assms(2) by simp
  then show ?thesis by (simp add: decode_value_def run_json.simps [of "MAfter _"])
qed

text \<open>A manifest as its JSON text can hold it.\<close>

definition coerce_file :: "mfile \<Rightarrow> mfile" where
  "coerce_file f = f\<lparr>f_path := coerce_utf8 (f_path f), f_sha256 := coerce_utf8 (f_sha256 f), f_mode := coerce_utf8 (f_mode f)\<rparr>"

definition coerce_manifest :: "manifest \<Rightarrow> manifest" where
  "coerce_manifest m = m\<lparr>m_files := map_option (map coerce_file) (m_files m)\<rparr>"

lemma coerce_ascii: "list_all (\<lambda>c. byte c < 128) s \<Longrightarrow> coerce_utf8 s = s"
  by (rule coerce_valid [OF ascii_valid])

lemma coerced_file: "coerced (file_json f) = file_json (coerce_file f)"
  by (simp add: file_json_def coerce_file_def coerce_ascii)

lemma coerced_manifest: "coerced (manifest_json m) = manifest_json (coerce_manifest m)"
  by (simp add: manifest_json_def coerce_manifest_def coerce_ascii coerced_file split: option.splits)

lemma printed_manifest: "printed (manifest_json m)"
  by (auto simp: manifest_json_def file_json_def split: option.splits)

lemma Max_const: "finite A \<Longrightarrow> (\<And>x. x \<in> A \<Longrightarrow> f x \<le> k) \<Longrightarrow> Max (insert 0 (f ` A)) \<le> k" for k :: nat
  by (subst Max_le_iff) auto

lemma height_manifest: "height (manifest_json m) \<le> max_depth"
proof -
  have f: "height (file_json f) = 1" for f by (simp add: file_json_def)
  have "height (JArr (map file_json fs)) \<le> 2" for fs
    using Max_const [of "file_json ` set fs" height 1] f by auto
  then have "height (case m_files m of None \<Rightarrow> JNull | Some fs \<Rightarrow> JArr (map file_json fs)) \<le> 2"
    by (auto split: option.splits)
  then show ?thesis by (simp add: manifest_json_def max_depth_def)
qed

lemma dec_file: "is_int64 (f_size f) \<Longrightarrow> dec_struct dec_file_field (file_json f) zero_file = Inr f"
  by (simp add: file_json_def dec_file_field_def field_of_def parse_fmt_int zero_file_def)

lemma dec_file_list: "list_all (\<lambda>f. is_int64 (f_size f)) fs \<Longrightarrow> dec_elements (map file_json fs) [] = Inr fs"
  by (induction fs) (simp_all add: dec_file)

lemma dec_manifest:
  assumes "is_int64 (m_version m)" "list_all (\<lambda>f. is_int64 (f_size f)) (files_of m)"
  shows "dec_struct dec_manifest_field (manifest_json m) (zero_manifest, []) = Inr (m, [])"
  using assms
  by (cases "m_files m")
    (simp_all add: manifest_json_def dec_manifest_field_def field_of_def parse_fmt_int zero_manifest_def dec_file_list files_of_def)

text \<open>What \<open>Decode\<close> makes of what \<open>Encode\<close> wrote.\<close>

lemma decode_encode_coerced:
  assumes "m_version m = manifest_version" "list_all (\<lambda>f. is_int64 (f_size f)) (files_of m)"
  shows "decode P (snd (encode m)) =
    (let m' = coerce_manifest (sort_files m) in case validate P m' of None \<Rightarrow> Inr m' | Some e \<Rightarrow> Inl e)"
proof -
  let ?m = "coerce_manifest (sort_files m)"
  have v: "m_version ?m = manifest_version" using assms(1) by (simp add: coerce_manifest_def sort_files_def)
  then have "is_int64 (m_version ?m)" by (simp add: manifest_version_def is_int64_def)
  moreover have "list_all (\<lambda>f. is_int64 (f_size f)) (files_of ?m)"
    using assms(2) by (cases "m_files m") (simp_all add: files_of_def coerce_manifest_def sort_files_def list_all_iff coerce_file_def)
  ultimately have "dec_struct dec_manifest_field (manifest_json ?m) (zero_manifest, []) = Inr (?m, [])" by (rule dec_manifest)
  moreover have "decode_value (snd (encode m)) = Some (manifest_json ?m)"
    using decode_value_render [OF printed_manifest height_manifest, of "sort_files m"]
    by (simp add: encode_def Let_def coerced_manifest)
  ultimately show ?thesis using v by (simp add: decode_def Let_def)
qed

lemma loop_ascii: "parse_uint_loop b mx s n cs = Inr k \<Longrightarrow> list_all (\<lambda>c. byte c < 128) cs"
  by (induction b mx s n cs rule: parse_uint_loop.induct) (auto simp: char_between_def split: if_splits)

lemma entry_ascii:
  assumes "entry_ok f"
  shows "coerce_utf8 (f_sha256 f) = f_sha256 f" "coerce_utf8 (f_mode f) = f_mode f"
proof -
  obtain md where "file_mode f = Inr md" using assms by (auto simp: entry_ok_def)
  then have "list_all (\<lambda>c. byte c < 128) (f_mode f)"
    by (auto simp: file_mode_def parse_uint_def dest: loop_ascii split: sum.splits if_splits)
  then show "coerce_utf8 (f_mode f) = f_mode f" by (rule coerce_ascii)
  have "list_all (\<lambda>c. byte c < 128) (f_sha256 f)"
    using assms by (auto simp: entry_ok_def list_all_iff char_between_def)
  then show "coerce_utf8 (f_sha256 f) = f_sha256 f" by (rule coerce_ascii)
qed

lemma files_sorted: "files_of (sort_files m) = sort_key f_path (files_of m)"
  by (cases "m_files m") (simp_all add: files_of_def sort_files_def)

lemma valid_sort: "valid_manifest P m \<Longrightarrow> valid_manifest P (sort_files m)"
  by (simp add: valid_manifest_def files_sorted list_all_iff distinct_map)

lemma coerce_same:
  assumes "valid_manifest P m" "list_all (\<lambda>f. valid_utf8 (f_path f)) (files_of m)"
  shows "coerce_manifest m = m"
proof (cases "m_files m")
  case (Some fs)
  then have "coerce_file f = f" if "f \<in> set fs" for f
    using assms that by (auto simp: valid_manifest_def files_of_def list_all_iff coerce_file_def coerce_valid entry_ascii)
  then have "map coerce_file fs = fs" by (simp add: map_idI)
  with Some show ?thesis by (simp add: coerce_manifest_def)
qed (simp add: coerce_manifest_def)

text \<open>Names that are not valid UTF-8 are lost: the manifest read back has the replaced name instead,
  which names no entry of the original.\<close>

lemma coerced_paths: "map f_path (files_of (coerce_manifest m)) = map coerce_utf8 (map f_path (files_of m))"
  by (cases "m_files m") (simp_all add: files_of_def coerce_manifest_def coerce_file_def)

lemma coerced_name_lost:
  assumes v: "valid_manifest P (coerce_manifest m)" and f: "f \<in> set (files_of m)" "\<not> valid_utf8 (f_path f)"
  shows "f_path f \<notin> f_path ` set (files_of (coerce_manifest m))"
    "coerce_utf8 (f_path f) \<notin> f_path ` set (files_of m)"
proof -
  have paths: "f_path ` set (files_of (coerce_manifest m)) = coerce_utf8 ` f_path ` set (files_of m)"
    using coerced_paths [of m] by (metis set_map)
  show "f_path f \<notin> f_path ` set (files_of (coerce_manifest m))"
    unfolding paths using f(2) valid_coerce by auto
  have inj: "inj_on coerce_utf8 (f_path ` set (files_of m))"
    using valid_manifest_distinct [OF v] unfolding coerced_paths by (metis distinct_map list.set_map)
  show "coerce_utf8 (f_path f) \<notin> f_path ` set (files_of m)"
  proof
    assume g: "coerce_utf8 (f_path f) \<in> f_path ` set (files_of m)"
    have "coerce_utf8 (coerce_utf8 (f_path f)) = coerce_utf8 (f_path f)" by (simp add: coerce_iff valid_coerce)
    with inj g f(1) have "coerce_utf8 (f_path f) = f_path f" by (auto dest: inj_onD)
    with f(2) show False by (simp add: coerce_iff)
  qed
qed

lemma decode_encode:
  assumes "valid_manifest P m" "m_version m = manifest_version"
    and "list_all (\<lambda>f. is_int64 (f_size f)) (files_of m)" "list_all (\<lambda>f. valid_utf8 (f_path f)) (files_of m)"
  shows "decode P (snd (encode m)) = Inr (sort_files m)"
proof -
  note v = valid_sort [OF assms(1)]
  have "coerce_manifest (sort_files m) = sort_files m"
    by (rule coerce_same [OF v]) (use assms(4) in \<open>simp add: files_sorted list_all_iff\<close>)
  moreover have "validate P (sort_files m) = None" using v by (simp add: validate_iff)
  ultimately show ?thesis using decode_encode_coerced [OF assms(2,3)] by (simp add: Let_def)
qed

text \<open>The bytes depend on the set of entries alone, not on their order.\<close>

lemma sort_key_unique:
  assumes "mset xs = mset ys" "inj_on k (set xs)"
  shows "sort_key k xs = sort_key k ys"
proof (rule properties_for_sort_key)
  show "mset (sort_key k ys) = mset xs" using assms(1) by simp
  show "filter (\<lambda>x. k y = k x) (sort_key k ys) = filter (\<lambda>x. k y = k x) xs" if "y \<in> set (sort_key k ys)" for y
  proof -
    have y: "y \<in> set xs" using that assms(1) by (metis set_sort mset_eq_setD)
    have eq: "filter (\<lambda>x. k y = k x) zs = filter (\<lambda>x. x = y) zs" if "set zs = set xs" for zs
      using that y assms(2) by (auto simp: inj_on_def intro: filter_cong)
    have "filter (\<lambda>x. x = y) zs = replicate (count (mset zs) y) y" for zs
      by (induction zs) auto
    then have "filter (\<lambda>x. x = y) (sort_key k ys) = filter (\<lambda>x. x = y) xs" using assms(1) by simp
    then show ?thesis using eq [of xs] eq [of "sort_key k ys"] assms(1) by (metis mset_eq_setD mset_sort)
  qed
qed simp

lemma encode_order:
  assumes "mset fs = mset gs" "distinct (map f_path fs)"
  shows "snd (encode \<lparr>m_version = v, m_files = Some fs\<rparr>) = snd (encode \<lparr>m_version = v, m_files = Some gs\<rparr>)"
  using sort_key_unique [OF assms(1), of f_path] assms(2)
  by (simp add: encode_def Let_def sort_files_def distinct_map)

end
