(* ===== verification/FakeFacts.thy ===== *)
theory FakeFacts
  imports PushStore Prune PullResume JsonTrip
begin

text \<open>
  What the program relies on in the store of \<open>pkg/s3test/fake.go\<close>: a refused put changes no
  object, listings are complete, sorted and paged without gaps, a ranged get continues a
  prefix the way \<open>checkContinues\<close> asks; and a prune of such a store removes exactly the stale
  objects. \<open>fake_pages\<close> is the SDK's paginator as documented: it follows the continuation
  token while the listing is truncated.
\<close>

section \<open>Puts\<close>

lemma fake_put_refused: "fake_put h i f = (Inl e, f') \<Longrightarrow> fake_object f' = fake_object f"
  by (cases rule: fake_put_cases) (auto simp: fake_object_def)

section \<open>Listings\<close>

fun follow_pages :: "nat \<Rightarrow> list_in \<Rightarrow> fake \<Rightarrow> list_out list" where
  "follow_pages 0 inp f = []"
| "follow_pages (Suc n) inp f =
     (case fst (fake_list inp f) of
        Inl e \<Rightarrow> []
      | Inr out \<Rightarrow> out # (if lo_truncated out then follow_pages n (inp\<lparr>li_token := lo_next out\<rparr>) f else []))"

definition fake_pages :: "fake pages_fn" where
  "fake_pages inp f = (Inr (follow_pages (Suc (length (fk_objects f))) inp f), f)"

definition listed_as :: "fake \<Rightarrow> string \<Rightarrow> s3_object" where
  "listed_as f k = \<lparr>ob_key = Some k, ob_modified = Some (case map_of (fk_mod f) k of None \<Rightarrow> zero_time | Some t \<Rightarrow> t)\<rparr>"

lemma keys_after_facts:
  "sorted (keys_after f pre t)" "distinct (keys_after f pre t)"
  "set (keys_after f pre t) = {k. fake_object f k \<noteq> None \<and> prefix pre k \<and> t < k}"
  by (auto simp: keys_after_def fake_object_def map_of_eq_None_iff)

lemma nil_less: "[] < s \<longleftrightarrow> s \<noteq> []" for s :: string
  by (cases s) simp_all

lemma sorted_tail:
  fixes xs :: "'a::linorder list"
  assumes "sorted xs" "distinct xs" "0 < n" "n < length xs"
  shows "filter (\<lambda>x. last (take n xs) < x) xs = drop n xs"
proof -
  have l: "last (take n xs) = xs ! (n - 1)" by (subst last_conv_nth) (use assms(3,4) in auto)
  have "filter (\<lambda>x. last (take n xs) < x) (take n xs) = []"
    using assms(1,3,4) by (auto simp: filter_empty_conv l in_set_conv_nth not_less intro!: sorted_nth_mono) linarith+
  moreover have "filter (\<lambda>x. last (take n xs) < x) (drop n xs) = drop n xs"
  proof -
    have "xs ! (n - 1) < xs ! (n + i)" if "n + i < length xs" for i
    proof -
      have "xs ! (n - 1) \<le> xs ! (n + i)" by (rule sorted_nth_mono [OF assms(1)]) (use that in auto)
      moreover have "n - 1 \<noteq> n + i" "n - 1 < length xs" using assms(3,4) by linarith+
      then have "xs ! (n - 1) \<noteq> xs ! (n + i)" using nth_eq_iff_index_eq [OF assms(2)] that by blast
      ultimately show ?thesis by (rule order.not_eq_order_implies_strict [rotated])
    qed
    then show ?thesis by (auto simp: filter_id_conv l in_set_conv_nth)
  qed
  ultimately show ?thesis by (metis append_take_drop_id filter_append append_Nil)
qed

lemma keys_after_next:
  assumes "0 < n" "n < length (keys_after f pre t)"
  shows "keys_after f pre (last (take n (keys_after f pre t))) = drop n (keys_after f pre t)"
proof -
  let ?ks = "keys_after f pre t" and ?l = "last (take n (keys_after f pre t))"
  have "?l \<in> set ?ks" using assms by (metis last_in_set in_set_takeD take_eq_Nil length_0_conv less_nat_zero_code not_less_iff_gr_or_eq)
  then have tl: "t < ?l" by (simp add: keys_after_facts(3))
  have "keys_after f pre ?l = filter (\<lambda>k. ?l < k) ?ks"
    by (rule sorted_distinct_set_unique) (use tl in \<open>auto simp: keys_after_facts sorted_wrt_filter\<close>)
  then show ?thesis using sorted_tail [OF keys_after_facts(1,2) assms] by simp
qed

lemma follow_pages_keys:
  assumes "length (keys_after f (li_prefix inp) (to_string (li_token inp))) < n"
  shows "concat (map lo_contents (follow_pages n inp f)) = map (listed_as f) (keys_after f (li_prefix inp) (to_string (li_token inp)))"
  using assms
proof (induction n arbitrary: inp)
  case (Suc n)
  let ?ks = "keys_after f (li_prefix inp) (to_string (li_token inp))"
  define mx where "mx = (case li_max inp of Some n \<Rightarrow> if n > 0 then n else 1000 | None \<Rightarrow> 1000)"
  have mx: "0 < mx" by (simp add: mx_def split: option.split)
  show ?case
  proof (cases "length ?ks > mx")
    case False
    then show ?thesis by (simp add: fake_list_def Let_def mx_def [symmetric] listed_as_def comp_def)
  next
    case True
    let ?inp = "inp\<lparr>li_token := Some (last (take mx ?ks))\<rparr>"
    have next_keys: "keys_after f (li_prefix ?inp) (to_string (li_token ?inp)) = drop mx ?ks"
      using keys_after_next [OF mx True] by (simp add: to_string_def)
    have "concat (map lo_contents (follow_pages n ?inp f)) = map (listed_as f) (drop mx ?ks)"
      using Suc.IH [of ?inp] Suc.prems mx True unfolding next_keys by simp
    moreover have "follow_pages (Suc n) inp f =
        \<lparr>lo_contents = map (listed_as f) (take mx ?ks), lo_truncated = True, lo_next = Some (last (take mx ?ks))\<rparr> # follow_pages n ?inp f"
      using True by (simp add: fake_list_def Let_def mx_def [symmetric] listed_as_def comp_def)
    ultimately show ?thesis by (simp add: map_append [symmetric] del: map_append)
  qed
qed simp

lemma fake_pages_complete:
  assumes "fake_pages inp f = (r, f')"
  shows "f' = f \<and> (\<exists>outs. r = Inr outs \<and>
    concat (map lo_contents outs) = map (listed_as f) (keys_after f (li_prefix inp) (to_string (li_token inp))))"
proof -
  have "length (keys_after f (li_prefix inp) t) \<le> length (fk_objects f)" for t
    unfolding keys_after_def by (simp, rule order_trans [OF length_filter_le], rule order_trans [OF length_remdups_leq]) simp
  then show ?thesis using assms follow_pages_keys [of f inp "Suc (length (fk_objects f))"] by (auto simp: fake_pages_def le_imp_less_Suc)
qed

section \<open>Deletes\<close>

lemma delete_keys_objects:
  assumes "\<And>k. hk_delete_err h k = None"
  shows "fake_object (snd (delete_keys h q ks out f)) = (fake_object f) |` (- set ks) \<and> do_errors (fst (delete_keys h q ks out f)) = do_errors out"
proof (induction ks arbitrary: out f)
  case (Cons k ks)
  have "fake_object (fake_delete k f\<lparr>fk_del_order := x\<rparr>) = (fake_object f)(k := None)" for x
    by (simp add: fake_object_def fake_delete_def fun_eq_iff delete_conv')
  then show ?case by (auto simp: assms Let_def Cons.IH restrict_map_def fun_eq_iff)
qed (simp add: restrict_map_def fun_eq_iff)

lemma delete_chunks_objects:
  assumes "\<And>k. hk_delete_err h k = None" "delete_chunks (fake_delete_objects h) bucket kss n errs f = ((m, r), f')"
  shows "r = Inr errs \<and> m = n + int (length (concat kss)) \<and> fake_object f' = (fake_object f) |` (- set (concat kss))"
  using assms(2)
proof (induction kss arbitrary: n errs f)
  case (Cons ks kss)
  let ?d = "delete_keys h True ks \<lparr>do_deleted = [], do_errors = []\<rparr> f"
  have d: "fake_object (snd ?d) = (fake_object f) |` (- set ks)" "do_errors (fst ?d) = []"
    using delete_keys_objects [OF assms(1)] by simp_all
  have "delete_chunks (fake_delete_objects h) bucket kss (n + int (length ks)) errs (snd ?d) = ((m, r), f')"
  proof -
    have "fake_delete_objects h (delete_request bucket ks) f = (Inr (fst ?d), snd ?d)"
      by (simp add: fake_delete_objects_def delete_request_def split: prod.split)
    then show ?thesis using Cons.prems d(2) by simp
  qed
  from Cons.IH [OF this] show ?case by (auto simp: d(1) restrict_map_def fun_eq_iff)
qed (simp add: restrict_map_def fun_eq_iff)

lemma delete_batched_objects:
  assumes "\<And>k. hk_delete_err h k = None" "delete_batched (fake_delete_objects h) bucket ks f = ((n, err), f')"
  shows "err = None \<and> n = int (length ks) \<and> fake_object f' = (fake_object f) |` (- set ks)"
proof -
  obtain m r f1 where c: "delete_chunks (fake_delete_objects h) bucket (chunks batch_size ks) 0 [] f = ((m, r), f1)" by (metis prod.collapse)
  from delete_chunks_objects [OF assms(1) c] assms(2) c show ?thesis
    by (simp add: delete_batched_def concat_chunks batch_size_def)
qed

section \<open>A prune of the store\<close>

text \<open>The objects a prune is to remove, read off the store itself.\<close>

definition stale_object :: "int \<Rightarrow> string \<Rightarrow> string \<Rightarrow> manifest \<Rightarrow> fake \<Rightarrow> string \<Rightarrow> bool" where
  "stale_object cutoff pre key m f k \<longleftrightarrow>
     k \<noteq> [] \<and> fake_object f k \<noteq> None \<and> prefix (list_prefix pre) k \<and> k \<noteq> key \<and>
     (\<forall>e \<in> set (files_of m). k \<noteq> path_join pre (f_path e)) \<and>
     (case map_of (fk_mod f) k of None \<Rightarrow> zero_time | Some t \<Rightarrow> t) \<le> cutoff"

lemma fake_get_keeps: "fake_get (quiet h) i f = (r, f') \<Longrightarrow> fake_object f' = fake_object f \<and> fk_mod f' = fk_mod f"
  by (auto simp: fake_get_def Let_def fake_object_def quiet_def fun_eq_iff split: option.splits if_splits)

lemma prune_store:
  assumes h: "\<And>k. hk_delete_err h k = None" and pre: "pre = trim_suffix pre0 ''/''" "key = prune_manifest_key pre (po_manifest_key opts)"
    and m: "prune_fetch_manifest P (fake_get (quiet h)) bucket key f = (Inr m, f1)"
    and run: "prune P now (fake_get (quiet h)) fake_pages (fake_delete_objects h) bucket pre0 opts f = ((st, err), f')"
  shows "err = None \<and> (\<forall>k. fake_object f' k = (if stale_object (now - po_min_age opts) pre key m f k then None else fake_object f k)) \<and>
    ps_deleted st = int (card {k. stale_object (now - po_min_age opts) pre key m f k})"
proof -
  have f1: "fake_object f1 = fake_object f" "fk_mod f1 = fk_mod f"
    using m fake_get_keeps by (auto simp: prune_fetch_manifest_def split: prod.splits sum.splits if_splits)
  obtain outs where outs: "fake_pages (list_request bucket pre) f1 = (Inr outs, f1)"
    "concat (map lo_contents outs) = map (listed_as f1) (keys_after f1 (list_prefix pre) [])"
    using fake_pages_complete [of "list_request bucket pre" f1] by (metis (no_types, lifting) list_request_def list_in.simps(2,3) prod.collapse to_string_def option.case(1))
  let ?cut = "now - po_min_age opts"
  let ?ks = "keys_after f1 (list_prefix pre) []"
  let ?del = "sort (filter (\<lambda>k. candidate (prune_keep pre key m) ?cut (listed_as f1 k)) ?ks)"
  obtain p where p: "prune_classify P now (fake_get (quiet h)) fake_pages bucket pre0 opts f = (Inr p, f1)" "pp_delete p = ?del"
    using m outs pre
    by (simp add: prune_classify_def Let_def classify_objects_result empty_prune_def filter_map comp_def listed_as_def to_string_def)
  have del: "set ?del = {k. stale_object ?cut pre key m f k}"
    by (auto simp: keys_after_facts candidate_def prune_keep_def stale_object_def listed_as_def to_string_def too_young_def f1 nil_less)
  obtain n err' where d: "delete_batched (fake_delete_objects h) bucket ?del f1 = ((n, err'), f')" "err = err'" "ps_deleted st = n"
    using run p by (auto simp: prune_def split: prod.splits)
  have e: "err' = None" "n = int (length ?del)" "fake_object f' = fake_object f |` (- set ?del)"
    using delete_batched_objects [OF h d(1)] f1 by simp_all
  have "distinct ?del" using keys_after_facts(2) by (simp add: distinct_filter)
  then have "length ?del = card {k. stale_object ?cut pre key m f k}" using del by (metis distinct_card)
  moreover have "fake_object f' k = (if stale_object ?cut pre key m f k then None else fake_object f k)" for k
    unfolding e(3) restrict_map_def using del by auto
  ultimately show ?thesis using d e by simp
qed

section \<open>Ranged gets\<close>

lemma fmt_int_no_dash: "CHR ''-'' \<notin> set (dec_digits n)"
  using dec_digits_digits [of n] by (auto simp: list_all_iff is_digit_def char_between_def)

lemma cut_plain: "c \<notin> set s \<Longrightarrow> cut c (s @ c # t) = Some (s, t)"
  by (induction s) (auto simp: cut_def)

lemma parse_range_from:
  assumes "is_int64 (int n)"
  shows "parse_range (''bytes='' @ fmt_int (int n) @ ''-'') = Some (int n, 2 ^ 62 - 1)"
proof -
  have "cut_prefix (''bytes='' @ fmt_int (int n) @ ''-'') ''bytes='' = Some (fmt_int (int n) @ ''-'')"
    by (simp add: cut_prefix_def)
  moreover have "cut CHR ''-'' (fmt_int (int n) @ ''-'') = Some (fmt_int (int n), [])"
    using cut_plain [OF fmt_int_no_dash [of n], of "[]"] by (simp add: fmt_int_def)
  ultimately show ?thesis using parse_fmt_int [OF assms] by (simp add: parse_range_def)
qed

lemma fake_continues:
  assumes obj: "fake_object f key = Some body" and n: "n < length body" "int (length body) < 2 ^ 62"
    and size: "f_size mf = int (length body)" and etag: "px_etag info = fake_etag f key"
    and vid: "px_version info = [] \<or> px_version info = to_string (map_of (fk_versions f) key)"
  shows "\<exists>out f'. fake_get no_hooks (range_request b key (int n) info) f = (Inr out, f') \<and>
    r_data (go_body out) = drop n body \<and> check_continues out mf (int n) info = None"
proof -
  have i: "is_int64 (int n)" using n by (simp add: is_int64_def)
  let ?f = "f\<lparr>fk_get_order := fk_get_order f @ [key], fk_get_mode := AList.update key False (fk_get_mode f)\<rparr>"
  have e: "fake_etag ?f key = fake_etag f key" by (cases "map_of (fk_etags f) key") (simp_all add: fake_etag_def)
  have stop: "min (2 ^ 62 - 1) (int (length body) - 1) = int (length body) - 1" using n by simp
  have cut: "take (nat (int (length body) - 1 + 1 - int n)) (drop n body) = drop n body" by simp
  show ?thesis
    using obj n etag vid size
    by (auto simp: fake_get_def Let_def no_hooks_def range_request_def fake_object_def e to_string_def serve_range_def
        parse_range_from [OF i, simplified] stop check_continues_def whole_out_def content_range_def)
qed

end
