(* ===== verification/GoHttp.thy ===== *)
theory GoHttp
  imports JsonTrip Digest "HOL-Library.AList"
begin

text \<open>
  What the request signing of \<open>pkg/rolesanywhere/sign.go\<close> uses of Go's \<open>net/http\<close>,
  \<open>net/url\<close>, \<open>net/textproto\<close>, \<open>strings\<close> and \<open>time\<close>: a request with its URL and header
  map, percent encoding, the query's canonical form, canonical header keys, \<open>strings.Fields\<close>
  and the two date layouts. A header map is an association list: its order is the order in
  which one \<open>range\<close> over the map happens to go.
\<close>

record url =
  u_host :: string
  u_path :: string
  u_raw_path :: string
  u_raw_query :: string

type_synonym header = "(string \<times> string list) list"

record http_request =
  rq_method :: string
  rq_url :: url
  rq_header :: header

section \<open>Percent encoding\<close>

definition is_alnum :: "char \<Rightarrow> bool" where
  "is_alnum c \<longleftrightarrow> char_between CHR ''a'' CHR ''z'' c \<or> char_between CHR ''A'' CHR ''Z'' c \<or> char_between CHR ''0'' CHR ''9'' c"

text \<open>\<open>shouldEscape\<close> in a path (\<open>q\<close> false) and in a query component (\<open>q\<close> true).\<close>

definition should_escape :: "bool \<Rightarrow> char \<Rightarrow> bool" where
  "should_escape q c \<longleftrightarrow>
     \<not> (is_alnum c \<or> c \<in> set ''-_.~'' \<or> (\<not> q \<and> c \<in> set ''$&+,/:;=@''))"

definition upper_hex :: "nat \<Rightarrow> char" where
  "upper_hex n = ''0123456789ABCDEF'' ! n"

definition escape_char :: "bool \<Rightarrow> char \<Rightarrow> string" where
  "escape_char q c =
     (if \<not> should_escape q c then [c]
      else if q \<and> c = CHR '' '' then ''+''
      else [CHR ''%'', upper_hex (byte c div 16), upper_hex (byte c mod 16)])"

definition escape :: "bool \<Rightarrow> string \<Rightarrow> string" where
  "escape q s = concat (map (escape_char q) s)"

fun unescape :: "bool \<Rightarrow> string \<Rightarrow> string option" where
  "unescape q [] = Some []"
| "unescape q (c # s) =
     (if c = CHR ''%'' then
        (case s of
           a # b # t \<Rightarrow>
             (case (hexv a, hexv b) of
                (Some x, Some y) \<Rightarrow> map_option (Cons (char_of (16 * x + y))) (unescape q t)
              | _ \<Rightarrow> None)
         | _ \<Rightarrow> None)
      else map_option (Cons (if q \<and> c = CHR ''+'' then CHR '' '' else c)) (unescape q s))"

text \<open>\<open>URL.EscapedPath\<close>: a raw path that encodes the path is kept.\<close>

definition valid_encoded :: "string \<Rightarrow> bool" where
  "valid_encoded s \<longleftrightarrow> list_all (\<lambda>c. c \<in> set ''!$&()*+,;=:@[]%'' \<or> c = CHR 0x27 \<or> \<not> should_escape False c) s"

definition escaped_path :: "url \<Rightarrow> string" where
  "escaped_path u =
     (if u_raw_path u \<noteq> [] \<and> valid_encoded (u_raw_path u) \<and> unescape False (u_raw_path u) = Some (u_path u) then u_raw_path u
      else if u_path u = ''*'' then ''*''
      else escape False (u_path u))"

text \<open>\<open>URL.Query\<close>, the pairs of the raw query that parse, and \<open>Values.Encode\<close>, which sorts by key
  and keeps the order of one key's values.\<close>

definition cut_eq :: "string \<Rightarrow> string \<times> string" where
  "cut_eq s = (takeWhile (\<lambda>c. c \<noteq> CHR ''='') s, tl (dropWhile (\<lambda>c. c \<noteq> CHR ''='') s))"

definition query_pair :: "string \<Rightarrow> (string \<times> string) list" where
  "query_pair s =
     (if CHR '';'' \<in> set s \<or> s = [] then []
      else (case (unescape True (fst (cut_eq s)), unescape True (snd (cut_eq s))) of
              (Some k, Some v) \<Rightarrow> [(k, v)]
            | _ \<Rightarrow> []))"

definition url_query :: "url \<Rightarrow> (string \<times> string) list" where
  "url_query u = concat (map query_pair (split_on CHR ''&'' (u_raw_query u)))"

definition encode_query :: "(string \<times> string) list \<Rightarrow> string" where
  "encode_query ps = join_with ''&'' (map (\<lambda>(k, v). escape True k @ ''='' @ escape True v) (sort_key fst ps))"

section \<open>Headers\<close>

definition is_token_char :: "char \<Rightarrow> bool" where
  "is_token_char c \<longleftrightarrow> is_alnum c \<or> c \<in> set ''!#$%&*+-.^_`|~'' \<or> c = CHR 0x27"

text \<open>\<open>CanonicalMIMEHeaderKey\<close>: a capital at the start and after every hyphen.\<close>

fun canon_chars :: "bool \<Rightarrow> string \<Rightarrow> string" where
  "canon_chars up [] = []"
| "canon_chars up (c # s) = (if up then upper_char c else lower_char c) # canon_chars (c = CHR ''-'') s"

definition canonical_key :: "string \<Rightarrow> string" where
  "canonical_key k = (if list_all is_token_char k then canon_chars True k else k)"

text \<open>\<open>Header.Set\<close> replaces the values of a key.\<close>

definition header_set :: "string \<Rightarrow> string \<Rightarrow> header \<Rightarrow> header" where
  "header_set k v h = AList.update (canonical_key k) [v] h"

text \<open>\<open>strings.Fields\<close>: the runs between runs of white space, rune by rune.\<close>

definition space_runes :: "bytes list" where
  "space_runes = map encode_rune ([9, 10, 11, 12, 13, 32, 133, 160, 5760] @ [8192..<8203] @ [8232, 8233, 8239, 8287, 12288])"

function rune_chunks :: "bytes \<Rightarrow> bytes list" where
  "rune_chunks s =
     (if s = [] then []
      else take (max 1 (rune_len s)) s # rune_chunks (drop (max 1 (rune_len s)) s))"
  by pat_completeness auto
termination
  by (relation "measure length") (auto simp: neq_Nil_conv)

declare rune_chunks.simps [simp del]

fun gather_fields :: "bytes \<Rightarrow> bytes list \<Rightarrow> string list" where
  "gather_fields cur [] = (if cur = [] then [] else [cur])"
| "gather_fields cur (r # rs) =
     (if r \<in> set space_runes then (if cur = [] then gather_fields [] rs else cur # gather_fields [] rs)
      else gather_fields (cur @ r) rs)"

definition split_fields :: "string \<Rightarrow> string list" where
  "split_fields s = gather_fields [] (rune_chunks s)"

section \<open>Dates\<close>

text \<open>A \<open>time.Time\<close> already in UTC, with the layouts \<open>20060102T150405Z\<close> and \<open>20060102\<close>.\<close>

record utc =
  t_year :: nat
  t_month :: nat
  t_day :: nat
  t_hour :: nat
  t_min :: nat
  t_sec :: nat

definition pad_zero :: "nat \<Rightarrow> nat \<Rightarrow> string" where
  "pad_zero k n = (let d = dec_digits n in replicate (k - length d) CHR ''0'' @ d)"

definition short_date :: "utc \<Rightarrow> string" where
  "short_date t = pad_zero 4 (t_year t) @ pad_zero 2 (t_month t) @ pad_zero 2 (t_day t)"

definition long_date :: "utc \<Rightarrow> string" where
  "long_date t = short_date t @ ''T'' @ pad_zero 2 (t_hour t) @ pad_zero 2 (t_min t) @ pad_zero 2 (t_sec t) @ ''Z''"

section \<open>Facts\<close>

text \<open>Percent encoding reads back.\<close>

lemma hexv_upper: "n < 16 \<Longrightarrow> hexv (upper_hex n) = Some n"
proof -
  assume "n < 16"
  then have "n \<in> set [0..<16]" by simp
  moreover have "\<forall>n \<in> set [0..<16]. hexv (upper_hex n) = Some n"
    by (simp add: upt_rec hexv_def upper_hex_def char_between_def)
  ultimately show ?thesis by blast
qed

lemma byte_rebuild: "char_of (16 * (byte c div 16) + byte c mod 16) = c"
  by (simp add: mult.commute)

lemma unescape_escape: "unescape q (escape q s) = Some s"
proof (induction s)
  case (Cons c s)
  have "unescape q (escape_char q c @ t) = map_option (Cons c) (unescape q t)" for t
  proof (cases "should_escape q c")
    case True
    then show ?thesis
      using hexv_upper [OF byte_halves(1), of c] hexv_upper [OF byte_halves(2), of c] byte_rebuild [of c]
      by (auto simp: escape_char_def)
  next
    case False
    then have "c \<noteq> CHR ''%''" "\<not> (q \<and> c = CHR ''+'')"
      by (auto simp: should_escape_def is_alnum_def char_between_def)
    with False show ?thesis by (cases q) (simp_all add: escape_char_def)
  qed
  with Cons show ?case by (simp add: escape_def)
qed (simp add: escape_def)

text \<open>Header maps: canonical keys, each once.\<close>

definition header_ok :: "header \<Rightarrow> bool" where
  "header_ok h \<longleftrightarrow> distinct (map fst h) \<and> (\<forall>k \<in> fst ` set h. list_all is_token_char k \<and> canonical_key k = k)"

lemma letter_codes:
  "char_between CHR ''A'' CHR ''Z'' c \<longleftrightarrow> 65 \<le> byte c \<and> byte c \<le> 90"
  "char_between CHR ''a'' CHR ''z'' c \<longleftrightarrow> 97 \<le> byte c \<and> byte c \<le> 122"
  "char_between CHR ''0'' CHR ''9'' c \<longleftrightarrow> 48 \<le> byte c \<and> byte c \<le> 57"
  by (simp_all add: char_between_def)

lemma byte_case:
  "byte (lower_char c) = (if 65 \<le> byte c \<and> byte c \<le> 90 then byte c + 32 else byte c)"
  "byte (upper_char c) = (if 97 \<le> byte c \<and> byte c \<le> 122 then byte c - 32 else byte c)"
  by (auto simp: lower_char_def upper_char_def letter_codes)

lemma byte_inj: "c = d \<longleftrightarrow> byte c = byte d"
  by (metis char_of_char)

lemma letter_token: "65 \<le> byte c \<and> byte c \<le> 90 \<or> 97 \<le> byte c \<and> byte c \<le> 122 \<Longrightarrow> is_token_char c"
  by (auto simp: is_token_char_def is_alnum_def letter_codes)

lemma token_case: "is_token_char (upper_char c) = is_token_char c" "is_token_char (lower_char c) = is_token_char c"
proof -
  show "is_token_char (upper_char c) = is_token_char c"
  proof (cases "97 \<le> byte c \<and> byte c \<le> 122")
    case True
    then have "65 \<le> byte (upper_char c) \<and> byte (upper_char c) \<le> 90" unfolding byte_case by (simp; linarith)
    with True show ?thesis using letter_token by blast
  qed (auto simp: upper_char_def letter_codes)
  show "is_token_char (lower_char c) = is_token_char c"
  proof (cases "65 \<le> byte c \<and> byte c \<le> 90")
    case True
    then have "97 \<le> byte (lower_char c) \<and> byte (lower_char c) \<le> 122" by (simp add: byte_case)
    with True show ?thesis using letter_token by blast
  qed (auto simp: lower_char_def letter_codes)
qed

lemma lower_upper_facts:
  "upper_char (lower_char c) = upper_char c" "lower_char (upper_char c) = lower_char c" "upper_char (upper_char c) = upper_char c"
  "lower_char c = CHR ''-'' \<longleftrightarrow> c = CHR ''-''" "upper_char c = CHR ''-'' \<longleftrightarrow> c = CHR ''-''"
  "is_token_char (upper_char c) = is_token_char c" "is_token_char (lower_char c) = is_token_char c"
proof -
  have hyphen: "d = CHR ''-'' \<longleftrightarrow> byte d = 45" for d by (simp add: byte_inj [of d])
  show "lower_char c = CHR ''-'' \<longleftrightarrow> c = CHR ''-''" "upper_char c = CHR ''-'' \<longleftrightarrow> c = CHR ''-''"
    by (auto simp: hyphen byte_case)
  show "is_token_char (upper_char c) = is_token_char c" "is_token_char (lower_char c) = is_token_char c"
    by (rule token_case)+
  show "upper_char (lower_char c) = upper_char c"
    by (rule iffD2 [OF byte_inj]) (auto simp: byte_case)
  show "lower_char (upper_char c) = lower_char c"
    by (rule iffD2 [OF byte_inj]) (auto simp: byte_case)
  show "upper_char (upper_char c) = upper_char c"
    by (rule iffD2 [OF byte_inj]) (auto simp: byte_case)
qed

lemma canon_lower: "canon_chars up (map lower_char k) = canon_chars up k"
  by (induction up k rule: canon_chars.induct) (auto simp: lower_upper_facts)

lemma canon_canon: "canon_chars up (canon_chars up k) = canon_chars up k"
  by (induction up k rule: canon_chars.induct) (auto simp: lower_upper_facts)

lemma canon_token: "list_all is_token_char (canon_chars up k) = list_all is_token_char k"
  by (induction up k rule: canon_chars.induct) (auto simp: lower_upper_facts)

lemma canonical_idem: "canonical_key (canonical_key k) = canonical_key k"
  by (simp add: canonical_key_def canon_canon canon_token)

lemma token_ascii: "list_all is_token_char k \<Longrightarrow> is_ascii k"
  by (force simp: is_ascii_def list_all_iff is_token_char_def is_alnum_def char_between_def)

lemma lower_key_inj:
  assumes "list_all is_token_char k" "canonical_key k = k" "list_all is_token_char l" "canonical_key l = l"
    and "to_lower P k = to_lower P l"
  shows "k = l"
proof -
  have "map lower_char k = map lower_char l" using assms(5) token_ascii [OF assms(1)] token_ascii [OF assms(3)] by (simp add: to_lower_def)
  then have "canon_chars True k = canon_chars True l" by (metis canon_lower)
  with assms(1-4) show ?thesis by (simp add: canonical_key_def)
qed

lemma lower_keys_distinct:
  assumes "header_ok h"
  shows "distinct (map (\<lambda>(k, v). to_lower P k) h)"
proof -
  have "inj_on (to_lower P) (fst ` set h)"
    using assms by (auto simp: header_ok_def inj_on_def intro: lower_key_inj)
  then have "distinct (map (to_lower P) (map fst h))"
    using assms by (subst distinct_map) (simp add: header_ok_def)
  then show ?thesis by (simp add: comp_def case_prod_unfold)
qed

lemma header_set_ok: "header_ok h \<Longrightarrow> list_all is_token_char k \<Longrightarrow> header_ok (header_set k v h)"
  by (auto simp: header_ok_def header_set_def distinct_update dom_update canonical_idem canon_token canonical_key_def canon_canon)

lemma header_ok_perm: "mset h = mset h' \<Longrightarrow> header_ok h = header_ok h'"
  by (metis header_ok_def mset_map mset_eq_setD mset_eq_imp_distinct_iff image_set)

lemma map_of_header_set: "map_of (header_set k v h) = (map_of h)(canonical_key k \<mapsto> [v])"
  by (simp add: header_set_def update_conv')

lemma header_set_same: "map_of h (canonical_key k) = Some [v] \<Longrightarrow> header_set k v h = h"
  unfolding header_set_def by (induction h) (auto split: if_splits)

lemma map_of_perm: "header_ok h \<Longrightarrow> mset h = mset h' \<Longrightarrow> map_of h' = map_of h"
  by (metis header_ok_def header_ok_perm map_of_inject_set mset_eq_setD)

end
