(* ===== verification/RaSign.thy ===== *)
theory RaSign
  imports GoHttp
begin

text \<open>
  \<open>pkg/rolesanywhere/sign.go\<close>: the SigV4-X509 signature of a \<open>CreateSession\<close> request. A
  certificate is the part of it the code reads, \<open>crypto.Signer\<close> a function on digests, the
  clock an argument. \<open>sign_x509\<close> returns the request it changed, also when it fails.
\<close>

datatype pub_key = RSA_key | ECDSA_key | Other_key string

record cert =
  ct_raw :: bytes
  ct_key :: pub_key
  ct_serial :: int
  ct_subject_cn :: string
  ct_issuer_cn :: string

type_synonym 's signer = "bytes \<Rightarrow> 's \<Rightarrow> bytes res \<times> 's"

definition signing_service :: string where "signing_service = ''rolesanywhere''"
definition alg_rsa :: string where "alg_rsa = ''AWS4-X509-RSA-SHA256''"
definition alg_ecdsa :: string where "alg_ecdsa = ''AWS4-X509-ECDSA-SHA256''"

definition ignored_headers :: "string list" where
  "ignored_headers = [''authorization'', ''user-agent'', ''x-amzn-trace-id'']"

definition x509_algorithm :: "pub_key \<Rightarrow> string res" where
  "x509_algorithm pub =
     (case pub of
        RSA_key \<Rightarrow> Inr alg_rsa
      | ECDSA_key \<Rightarrow> Inr alg_ecdsa
      | Other_key ty \<Rightarrow> Inl (E_new ''unsupported certificate key type %T'' [ty]))"

definition trim_header_value :: "string \<Rightarrow> string" where
  "trim_header_value v = join_with '' '' (split_fields v)"

text \<open>The loop over the header map: the keys kept, and the map of their values.\<close>

fun collect_headers :: "platform \<Rightarrow> header \<Rightarrow> string list \<Rightarrow> (string \<rightharpoonup> string) \<Rightarrow> string list \<times> (string \<rightharpoonup> string)" where
  "collect_headers P [] keys vals = (keys, vals)"
| "collect_headers P ((k, v) # h) keys vals =
     (let low = to_lower P k
      in if low \<in> set ignored_headers then collect_headers P h keys vals
         else collect_headers P h (keys @ [low]) (vals(low \<mapsto> trim_header_value (join_with '','' v))))"

definition newline_sep :: string where "newline_sep = [CHR 0x0A]"

definition canonical_headers :: "platform \<Rightarrow> header \<Rightarrow> string \<times> string" where
  "canonical_headers P h =
     (case collect_headers P h [] Map.empty of
        (keys, vals) \<Rightarrow>
          (let ks = sort keys
           in (join_with newline_sep (map (\<lambda>k. k @ '':'' @ (case vals k of None \<Rightarrow> [] | Some v \<Rightarrow> v)) ks), join_with '';'' ks)))"

text \<open>\<open>strings.ReplaceAll(s, "+", "%20")\<close>.\<close>

definition plus_to_space :: "string \<Rightarrow> string" where
  "plus_to_space s = concat (map (\<lambda>c. if c = CHR ''+'' then ''%20'' else [c]) s)"

definition canonical_request :: "platform \<Rightarrow> http_request \<Rightarrow> string \<Rightarrow> string \<times> string" where
  "canonical_request P r payload_hash =
     (case canonical_headers P (rq_header r) of
        (headers, signed_names) \<Rightarrow>
          (let uri = escaped_path (rq_url r);
               uri = (if uri = [] then ''/'' else uri);
               query = plus_to_space (encode_query (url_query (rq_url r)))
           in (join_with newline_sep [rq_method r, uri, query, headers, [], signed_names, payload_hash], signed_names)))"

definition string_to_sign :: "string \<Rightarrow> string \<Rightarrow> string \<Rightarrow> string \<Rightarrow> string" where
  "string_to_sign canonical algorithm amz_date scope =
     join_with newline_sep [algorithm, amz_date, scope, sha256_hex canonical]"

definition cert_equal :: "cert \<Rightarrow> cert \<Rightarrow> bool" where
  "cert_equal c d \<longleftrightarrow> ct_raw c = ct_raw d"

definition strip_leaf :: "cert \<Rightarrow> cert list \<Rightarrow> cert list" where
  "strip_leaf leaf chain = filter (\<lambda>c. \<not> cert_equal c leaf) chain"

definition encode_chain :: "cert list \<Rightarrow> string" where
  "encode_chain chain = (if chain = [] then [] else join_with '','' (map (\<lambda>c. base64_encode (ct_raw c)) chain))"

definition add_header :: "string \<Rightarrow> string \<Rightarrow> http_request \<Rightarrow> http_request" where
  "add_header k v r = r\<lparr>rq_header := header_set k v (rq_header r)\<rparr>"

definition scope_of :: "utc \<Rightarrow> string \<Rightarrow> string" where
  "scope_of now region = short_date now @ ''/'' @ region @ ''/'' @ signing_service @ ''/aws4_request''"

text \<open>The headers set before the request is canonicalised.\<close>

definition set_signed_headers :: "cert \<Rightarrow> cert list \<Rightarrow> utc \<Rightarrow> http_request \<Rightarrow> http_request" where
  "set_signed_headers leaf chain now req =
     (let r = add_header ''X-Amz-X509'' (base64_encode (ct_raw leaf))
                (add_header ''X-Amz-Date'' (long_date now)
                  (add_header ''Host'' (u_host (rq_url req)) req));
          chain_header = encode_chain (strip_leaf leaf chain)
      in if chain_header \<noteq> [] then add_header ''X-Amz-X509-Chain'' chain_header r else r)"

definition authorization :: "string \<Rightarrow> cert \<Rightarrow> string \<Rightarrow> string \<Rightarrow> bytes \<Rightarrow> string" where
  "authorization algorithm leaf scope signed_names sig =
     algorithm @ '' Credential='' @ fmt_int (ct_serial leaf) @ ''/'' @ scope @ '', SignedHeaders='' @ signed_names @
     '', Signature='' @ hex_encode sig"

definition sign_x509 ::
  "platform \<Rightarrow> http_request \<Rightarrow> string \<Rightarrow> 's signer \<Rightarrow> cert \<Rightarrow> cert list \<Rightarrow> string \<Rightarrow> utc \<Rightarrow> 's \<Rightarrow> (gerr option \<times> http_request) \<times> 's" where
  "sign_x509 P req payload_hash sign leaf chain region now s =
     (case x509_algorithm (ct_key leaf) of
        Inl e \<Rightarrow> ((Some e, req), s)
      | Inr algorithm \<Rightarrow>
          (let amz_date = long_date now;
               scope = scope_of now region;
               r = set_signed_headers leaf chain now req
           in case canonical_request P r payload_hash of
                (canonical, signed_names) \<Rightarrow>
                  (case sign (sha256 (string_to_sign canonical algorithm amz_date scope)) s of
                     (Inl e, s) \<Rightarrow> ((Some (E_wrap ''signing CreateSession request: %w'' [] [e]), r), s)
                   | (Inr sig, s) \<Rightarrow> ((None, add_header ''Authorization'' (authorization algorithm leaf scope signed_names sig) r), s))))"

text \<open>The finalize middleware: a request of another type is refused, an unsigned one never passed on.\<close>

datatype mw_request = Smithy_request http_request | Other_request string

definition x509_sign_middleware ::
  "platform \<Rightarrow> 's signer \<Rightarrow> cert \<Rightarrow> cert list \<Rightarrow> string \<Rightarrow> string \<Rightarrow> utc \<Rightarrow> (mw_request \<Rightarrow> 's \<Rightarrow> 'o res \<times> 's) \<Rightarrow> mw_request \<Rightarrow> 's \<Rightarrow> 'o res \<times> 's" where
  "x509_sign_middleware P sign leaf chain region payload_hash now following rq s =
     (case rq of
        Other_request ty \<Rightarrow> (Inl (E_new ''unexpected request middleware type %T'' [ty]), s)
      | Smithy_request req \<Rightarrow>
          (case sign_x509 P req payload_hash sign leaf chain region now s of
             ((Some e, req'), s) \<Rightarrow> (Inl e, s)
           | ((None, req'), s) \<Rightarrow> following (Smithy_request req') s))"

section \<open>Canonical headers\<close>

text \<open>The headers that are signed, and the canonical block as one list comprehension over them.\<close>

definition signed_part :: "platform \<Rightarrow> header \<Rightarrow> (string \<times> string) list" where
  "signed_part P h = [(to_lower P k, trim_header_value (join_with '','' v)). (k, v) \<leftarrow> h, to_lower P k \<notin> set ignored_headers]"

lemma signed_part_Cons:
  "signed_part P ((k, v) # h) =
     (if to_lower P k \<in> set ignored_headers then signed_part P h
      else (to_lower P k, trim_header_value (join_with '','' v)) # signed_part P h)"
  by (simp add: signed_part_def)

lemma collect_headers_eq:
  "collect_headers P h keys vals = (keys @ map fst (signed_part P h), vals ++ map_of (rev (signed_part P h)))"
proof (induction h arbitrary: keys vals)
  case (Cons kv h)
  obtain k v where [simp]: "kv = (k, v)" by (cases kv)
  show ?case by (simp add: Cons.IH signed_part_Cons Let_def) (auto simp: fun_eq_iff map_add_def split: option.splits)
qed (simp add: signed_part_def)

lemma signed_part_keys: "header_ok h \<Longrightarrow> distinct (map fst (signed_part P h))"
proof -
  assume "header_ok h"
  then have "distinct (map (\<lambda>(k, v). to_lower P k) h)" by (rule lower_keys_distinct)
  then show ?thesis
  proof (induction h)
    case (Cons kv h)
    obtain k v where [simp]: "kv = (k, v)" by (cases kv)
    have "fst ` set (signed_part P h) \<subseteq> (\<lambda>(k, v). to_lower P k) ` set h" by (auto simp: signed_part_def)
    with Cons show ?case by (auto simp: signed_part_Cons)
  qed (simp add: signed_part_def)
qed

lemma signed_part_perm:
  assumes "mset h = mset h'"
  shows "mset (signed_part P h) = mset (signed_part P h')"
proof -
  have "mset (signed_part P h) =
      image_mset (\<lambda>(k, v). (to_lower P k, trim_header_value (join_with '','' v)))
        (filter_mset (\<lambda>(k, v). to_lower P k \<notin> set ignored_headers) (mset h))" for h
    by (induction h) (auto simp: signed_part_def)
  with assms show ?thesis by simp
qed

lemma canonical_headers_perm:
  assumes "header_ok h" "mset h = mset h'"
  shows "canonical_headers P h = canonical_headers P h'"
proof -
  let ?s = "signed_part P h" and ?s' = "signed_part P h'"
  have m: "mset ?s = mset ?s'" by (rule signed_part_perm [OF assms(2)])
  have d: "distinct (map fst ?s)" "distinct (map fst ?s')"
    using signed_part_keys [of h P] signed_part_keys [of h' P] assms header_ok_perm [OF assms(2)] by simp_all
  have "sort (map fst ?s) = sort (map fst ?s')"
    using m by (metis mset_map sorted_list_of_multiset_mset)
  moreover have "map_of (rev ?s) = map_of (rev ?s')"
    using d m by (intro iffD2 [OF map_of_inject_set]) (auto simp: rev_map [symmetric] dest: mset_eq_setD)
  ultimately show ?thesis by (simp add: canonical_headers_def collect_headers_eq)
qed

text \<open>Setting an ignored header changes nothing that is signed.\<close>

lemma signed_part_ignored:
  assumes "to_lower P (canonical_key k) \<in> set ignored_headers"
  shows "signed_part P (header_set k v h) = signed_part P h"
  unfolding header_set_def
proof (induction h)
  case Nil
  with assms show ?case by (simp add: signed_part_def)
next
  case (Cons kv h)
  obtain k' v' where [simp]: "kv = (k', v')" by (cases kv)
  from Cons assms show ?case by (simp add: signed_part_Cons)
qed

lemma canonical_headers_ignored:
  "to_lower P (canonical_key k) \<in> set ignored_headers \<Longrightarrow> canonical_headers P (header_set k v h) = canonical_headers P h"
  by (simp add: canonical_headers_def collect_headers_eq signed_part_ignored)

section \<open>Signing\<close>

lemma header_keys:
  "canonical_key ''Host'' = ''Host''" "canonical_key ''X-Amz-Date'' = ''X-Amz-Date''"
  "canonical_key ''X-Amz-X509'' = ''X-Amz-X509''" "canonical_key ''X-Amz-X509-Chain'' = ''X-Amz-X509-Chain''"
  "canonical_key ''Authorization'' = ''Authorization''"
  "list_all is_token_char ''Host''" "list_all is_token_char ''X-Amz-Date''" "list_all is_token_char ''X-Amz-X509''"
  "list_all is_token_char ''X-Amz-X509-Chain''" "list_all is_token_char ''Authorization''"
  by code_simp+

lemmas set_oks = header_keys(6-10) [THEN header_set_ok [rotated]]

lemma lower_authorization: "to_lower P ''Authorization'' \<in> set ignored_headers"
proof -
  have "is_ascii ''Authorization'' \<and> map lower_char ''Authorization'' \<in> set ignored_headers" by code_simp
  then show ?thesis by (simp add: to_lower_def)
qed

lemma add_header_simps [simp]:
  "rq_header (add_header k v r) = header_set k v (rq_header r)" "rq_url (add_header k v r) = rq_url r"
  "rq_method (add_header k v r) = rq_method r"
  by (simp_all add: add_header_def)

lemma set_signed_ok: "header_ok (rq_header req) \<Longrightarrow> header_ok (rq_header (set_signed_headers leaf chain now req))"
  by (simp add: set_signed_headers_def Let_def set_oks)

lemma canonical_request_cong:
  assumes "canonical_headers P (rq_header r) = canonical_headers P (rq_header r')" "rq_url r = rq_url r'" "rq_method r = rq_method r'"
  shows "canonical_request P r ph = canonical_request P r' ph"
  using assms by (simp add: canonical_request_def)

lemma canonical_request_auth: "canonical_request P (add_header ''Authorization'' v r) ph = canonical_request P r ph"
  by (rule canonical_request_cong) (simp_all add: canonical_headers_ignored header_keys lower_authorization)

text \<open>What a successful signature is, read off the request that is sent.\<close>

lemma sign_x509_Some:
  assumes "sign_x509 P req ph sign leaf chain region now s = ((None, req'), s')"
  obtains algorithm sig where "x509_algorithm (ct_key leaf) = Inr algorithm"
    "sign (sha256 (string_to_sign (fst (canonical_request P req' ph)) algorithm (long_date now) (scope_of now region))) s = (Inr sig, s')"
    "req' = add_header ''Authorization'' (authorization algorithm leaf (scope_of now region) (snd (canonical_request P req' ph)) sig)
       (set_signed_headers leaf chain now req)"
proof -
  let ?r = "set_signed_headers leaf chain now req"
  obtain algorithm where a: "x509_algorithm (ct_key leaf) = Inr algorithm"
    using assms by (auto simp: sign_x509_def split: sum.splits)
  obtain c signed_names where c: "canonical_request P ?r ph = (c, signed_names)" by fastforce
  obtain sig where g: "sign (sha256 (string_to_sign c algorithm (long_date now) (scope_of now region))) s = (Inr sig, s')"
    and r: "req' = add_header ''Authorization'' (authorization algorithm leaf (scope_of now region) signed_names sig) ?r"
    using assms a c by (auto simp: sign_x509_def Let_def split: sum.splits prod.splits)
  have "canonical_request P req' ph = (c, signed_names)" unfolding r canonical_request_auth by (rule c)
  then show ?thesis using that [OF a] g r by simp
qed

lemma set_signed_url [simp]:
  "rq_url (set_signed_headers leaf chain now req) = rq_url req" "rq_method (set_signed_headers leaf chain now req) = rq_method req"
  by (simp_all add: set_signed_headers_def Let_def)

lemma sign_x509_cases:
  assumes "sign_x509 P req ph sign leaf chain region now s = ((e, req'), s')"
  shows "req' = req \<or> req' = set_signed_headers leaf chain now req \<or> (\<exists>v. req' = add_header ''Authorization'' v (set_signed_headers leaf chain now req))"
  using assms by (auto simp: sign_x509_def Let_def split: sum.splits prod.splits)

lemma sign_x509_url:
  assumes "sign_x509 P req ph sign leaf chain region now s = ((e, req'), s')"
  shows "rq_url req' = rq_url req" "rq_method req' = rq_method req" "header_ok (rq_header req) \<Longrightarrow> header_ok (rq_header req')"
  using sign_x509_cases [OF assms] by (auto simp: set_oks set_signed_ok)

text \<open>The verifier's view: whatever order it reads the headers in, the canonical request it computes
  from the request as sent is the one that was signed.\<close>

lemma signature_verifies:
  assumes "header_ok (rq_header req)" "sign_x509 P req ph sign leaf chain region now s = ((None, req'), s')"
    and "mset h = mset (rq_header req')"
  shows "\<exists>algorithm sig. x509_algorithm (ct_key leaf) = Inr algorithm \<and>
    sign (sha256 (string_to_sign (fst (canonical_request P (req'\<lparr>rq_header := h\<rparr>) ph)) algorithm (long_date now) (scope_of now region))) s
      = (Inr sig, s') \<and>
    map_of h ''Authorization'' =
      Some [authorization algorithm leaf (scope_of now region) (snd (canonical_request P (req'\<lparr>rq_header := h\<rparr>) ph)) sig]"
proof -
  have ok: "header_ok (rq_header req')" using sign_x509_url(3) [OF assms(2)] assms(1) by simp
  have "canonical_request P (req'\<lparr>rq_header := h\<rparr>) ph = canonical_request P req' ph"
    by (rule canonical_request_cong) (simp_all add: canonical_headers_perm [OF ok assms(3) [symmetric], symmetric])
  moreover have "map_of h = map_of (rq_header req')" by (rule map_of_perm [OF ok assms(3) [symmetric]])
  moreover obtain algorithm sig where "x509_algorithm (ct_key leaf) = Inr algorithm"
    "sign (sha256 (string_to_sign (fst (canonical_request P req' ph)) algorithm (long_date now) (scope_of now region))) s = (Inr sig, s')"
    and r: "req' = add_header ''Authorization'' (authorization algorithm leaf (scope_of now region) (snd (canonical_request P req' ph)) sig)
       (set_signed_headers leaf chain now req)"
    using sign_x509_Some [OF assms(2)] by blast
  moreover have "map_of (rq_header req') ''Authorization'' =
      Some [authorization algorithm leaf (scope_of now region) (snd (canonical_request P req' ph)) sig]"
    by (subst r) (simp add: map_of_header_set header_keys)
  ultimately show ?thesis by auto
qed

text \<open>Signing a signed request again, with the same signer state and clock, changes nothing.\<close>

lemma set_signed_again:
  assumes "rq_url r = rq_url req" "map_of (rq_header r) ''Host'' = Some [u_host (rq_url req)]"
    "map_of (rq_header r) ''X-Amz-Date'' = Some [long_date now]" "map_of (rq_header r) ''X-Amz-X509'' = Some [base64_encode (ct_raw leaf)]"
    "encode_chain (strip_leaf leaf chain) \<noteq> [] \<Longrightarrow> map_of (rq_header r) ''X-Amz-X509-Chain'' = Some [encode_chain (strip_leaf leaf chain)]"
  shows "set_signed_headers leaf chain now r = r"
  using assms by (simp add: set_signed_headers_def Let_def add_header_def header_set_same header_keys)

lemma set_signed_values:
  fixes leaf chain now req
  defines "h \<equiv> map_of (rq_header (set_signed_headers leaf chain now req))"
  shows "h ''Host'' = Some [u_host (rq_url req)]" "h ''X-Amz-Date'' = Some [long_date now]"
    "h ''X-Amz-X509'' = Some [base64_encode (ct_raw leaf)]"
    "encode_chain (strip_leaf leaf chain) \<noteq> [] \<Longrightarrow> h ''X-Amz-X509-Chain'' = Some [encode_chain (strip_leaf leaf chain)]"
    "encode_chain (strip_leaf leaf chain) = [] \<Longrightarrow> h ''X-Amz-X509-Chain'' = map_of (rq_header req) ''X-Amz-X509-Chain''"
  by (simp_all add: h_def set_signed_headers_def Let_def map_of_header_set header_keys)

lemma sign_again:
  assumes "sign_x509 P req ph sign leaf chain region now s = ((None, req'), s')"
  shows "sign_x509 P req' ph sign leaf chain region now s = ((None, req'), s')"
proof -
  let ?r = "set_signed_headers leaf chain now req"
  obtain algorithm sig where a: "x509_algorithm (ct_key leaf) = Inr algorithm"
    and g: "sign (sha256 (string_to_sign (fst (canonical_request P req' ph)) algorithm (long_date now) (scope_of now region))) s = (Inr sig, s')"
    and r: "req' = add_header ''Authorization'' (authorization algorithm leaf (scope_of now region) (snd (canonical_request P req' ph)) sig) ?r"
    using sign_x509_Some [OF assms] by blast
  let ?v = "authorization algorithm leaf (scope_of now region) (snd (canonical_request P req' ph)) sig"
  have m: "map_of (rq_header req') k = map_of (rq_header ?r) k" if "k \<noteq> ''Authorization''" for k
    by (subst r) (simp add: map_of_header_set header_keys that)
  have "set_signed_headers leaf chain now req' = req'"
    by (rule set_signed_again [where req = req])
      (simp_all add: m set_signed_values sign_x509_url(1) [OF assms])
  moreover have "map_of (rq_header req') ''Authorization'' = Some [?v]"
    by (subst r) (simp add: map_of_header_set header_keys)
  then have "add_header ''Authorization'' ?v req' = req'" by (simp add: add_header_def header_set_same header_keys)
  ultimately show ?thesis using a g
    by (cases "canonical_request P req' ph") (simp add: sign_x509_def Let_def)
qed

text \<open>Errors: an unsupported key changes nothing; a failing signer leaves no \<open>Authorization\<close> of its own.\<close>

lemma sign_x509_error:
  assumes "sign_x509 P req ph sign leaf chain region now s = ((Some e, req'), s')"
  shows "map_of (rq_header req') ''Authorization'' = map_of (rq_header req) ''Authorization'' \<and>
    (x509_algorithm (ct_key leaf) = Inl e \<and> req' = req \<and> s' = s \<or>
     (\<exists>d e'. sign d s = (Inl e', s') \<and> e = E_wrap ''signing CreateSession request: %w'' [] [e']))"
proof -
  have "map_of (rq_header (set_signed_headers leaf chain now req)) ''Authorization'' = map_of (rq_header req) ''Authorization''"
    by (simp add: set_signed_headers_def Let_def map_of_header_set header_keys)
  then show ?thesis using assms by (auto simp: sign_x509_def Let_def split: sum.splits prod.splits)
qed

section \<open>The chain header\<close>

lemma b64_no_comma: "CHR '','' \<notin> set (base64_encode x)"
proof -
  have d: "CHR '','' \<notin> set (b64_nat n)" if "n < 16777216" for n
  proof
    assume "CHR '','' \<in> set (b64_nat n)"
    then obtain i where "i < 64" "CHR '','' = b64_digits ! i" using sextets_less [OF \<open>n < 16777216\<close>]
      by (auto simp: b64_nat_def)
    then have "CHR '','' \<in> set b64_digits" by (metis b64_length nth_mem)
    then show False by (simp add: b64_digits_def)
  qed
  show ?thesis
    by (induction x rule: base64_encode.induct) (auto simp: d byte_triple_less dest: in_set_takeD)
qed

lemma b64_third: "n < 16777216 \<Longrightarrow> b64_nat n ! 2 \<noteq> CHR ''=''" "n < 16777216 \<Longrightarrow> b64_nat n ! 3 \<noteq> CHR ''=''"
proof -
  have "b64_nat n ! i \<in> set b64_digits" if "n < 16777216" "i < 4" for i
  proof -
    have "sextets n ! i < 64" using subsetD [OF sextets_less [OF that(1)] nth_mem [of i "sextets n"]] that(2) by simp
    then show ?thesis using that(2) by (simp add: b64_nat_def b64_length)
  qed
  from this [of 2] this [of 3] show "n < 16777216 \<Longrightarrow> b64_nat n ! 2 \<noteq> CHR ''=''" "n < 16777216 \<Longrightarrow> b64_nat n ! 3 \<noteq> CHR ''=''"
    using b64_no_eq by auto
qed

lemma base64_pads:
  "base64_encode [a] ! 2 = CHR ''=''" "base64_encode [a, b] ! 2 \<noteq> CHR ''=''" "base64_encode [a, b] ! 3 = CHR ''=''"
  "base64_encode (a # b # c # r) ! 2 \<noteq> CHR ''=''" "base64_encode (a # b # c # r) ! 3 \<noteq> CHR ''=''"
  using b64_third [OF byte_triple_less] by (simp_all add: nth_append)

lemma base64_Nil: "base64_encode x = [] \<longleftrightarrow> x = []"
  by (cases x rule: base64_encode.cases) (simp_all add: b64_nat_def sextets_def)

lemma base64_length_inj: "base64_encode x = base64_encode y \<Longrightarrow> length x = length y"
proof (induction x arbitrary: y rule: base64_encode.induct)
  case 1
  then show ?case by (metis base64_Nil)
next
  case (2 a)
  then show ?case by (cases y rule: base64_encode.cases) (metis base64_Nil base64_pads length_Cons list.size(3))+
next
  case (3 a b)
  then show ?case by (cases y rule: base64_encode.cases) (metis base64_Nil base64_pads length_Cons list.size(3))+
next
  case (4 a b c r)
  show ?case
  proof (cases y rule: base64_encode.cases)
    case (4 a' b' c' r')
    with "4.prems" have "base64_encode r = base64_encode r'" by simp
    with "4.IH" 4 show ?thesis by simp
  qed (use "4.prems" in \<open>metis base64_Nil base64_pads list.distinct(1)\<close>)+
qed

lemma chain_header:
  assumes "strip_leaf leaf chain \<noteq> []"
  shows "split_on CHR '','' (encode_chain (strip_leaf leaf chain)) = map (\<lambda>c. base64_encode (ct_raw c)) (strip_leaf leaf chain)"
  using assms split_join [of "map (\<lambda>c. base64_encode (ct_raw c)) (strip_leaf leaf chain)" "CHR '',''"]
  by (simp add: encode_chain_def b64_no_comma)

lemma strip_leaf_no_leaf: "base64_encode (ct_raw leaf) \<notin> (\<lambda>c. base64_encode (ct_raw c)) ` set (strip_leaf leaf chain)"
  by (auto simp: strip_leaf_def cert_equal_def) (metis base64_encode_inj base64_length_inj)

text \<open>The identity a signed request carries: the leaf, and the intermediates without it.\<close>

lemma signed_identity:
  assumes "header_ok (rq_header req)" "sign_x509 P req ph sign leaf chain region now s = ((None, req'), s')"
    and "mset h = mset (rq_header req')"
  shows "map_of h ''X-Amz-X509'' = Some [base64_encode (ct_raw leaf)] \<and>
    (encode_chain (strip_leaf leaf chain) \<noteq> [] \<longrightarrow>
      (\<exists>v. map_of h ''X-Amz-X509-Chain'' = Some [v] \<and>
        split_on CHR '','' v = map (\<lambda>c. base64_encode (ct_raw c)) (strip_leaf leaf chain) \<and>
        base64_encode (ct_raw leaf) \<notin> set (split_on CHR '','' v)))"
proof -
  have ok: "header_ok (rq_header req')" using sign_x509_url(3) [OF assms(2)] assms(1) by simp
  have h: "map_of h = map_of (rq_header req')" by (rule map_of_perm [OF ok assms(3) [symmetric]])
  obtain v where r: "req' = add_header ''Authorization'' v (set_signed_headers leaf chain now req)"
    by (rule sign_x509_Some [OF assms(2)]) blast
  have m: "map_of h k = map_of (rq_header (set_signed_headers leaf chain now req)) k" if "k \<noteq> ''Authorization''" for k
    unfolding h r using that by (simp add: map_of_header_set header_keys)
  have "strip_leaf leaf chain \<noteq> []" if "encode_chain (strip_leaf leaf chain) \<noteq> []" using that by (auto simp: encode_chain_def)
  then show ?thesis
    using chain_header [of leaf chain] strip_leaf_no_leaf [of leaf chain] by (simp add: m set_signed_values)
qed

end
