(* ===== verification/RaSession.thy ===== *)
theory RaSession
  imports RaSign
begin

text \<open>
  The rest of \<open>pkg/rolesanywhere\<close>: selecting an identity of the certificate store
  (\<open>match.go\<close>, \<open>selector.go\<close>, \<open>selector_stub.go\<close>), the \<open>CreateSession\<close> exchange
  (\<open>credentials.go\<close>) and the credentials provider (\<open>provider.go\<close>). The certificate store,
  the SDK's client, \<open>arn.Parse\<close>, the regular expression and \<open>time.Parse\<close> are arguments. The
  interface between selection and exchange is the locale \<open>identity_finder\<close>: who holds which
  identity open.
\<close>

section \<open>Matching\<close>

datatype cert_field = Field_subject | Field_issuer | Field_other int
datatype store_loc = Store_user | Store_machine | Store_other int

definition field_string :: "cert_field \<Rightarrow> string" where
  "field_string f =
     (case f of
        Field_subject \<Rightarrow> ''subject''
      | Field_issuer \<Rightarrow> ''issuer''
      | Field_other n \<Rightarrow> ''CertField('' @ fmt_int n @ '')'')"

definition parse_cert_field :: "string \<Rightarrow> cert_field res" where
  "parse_cert_field s =
     (if s = ''subject'' then Inr Field_subject
      else if s = ''issuer'' then Inr Field_issuer
      else Inl (E_new ''invalid certificate field %q: want \"subject\" or \"issuer\"'' [s]))"

definition store_string :: "store_loc \<Rightarrow> string" where
  "store_string l =
     (case l of
        Store_user \<Rightarrow> ''user''
      | Store_machine \<Rightarrow> ''machine''
      | Store_other n \<Rightarrow> ''StoreLoc('' @ fmt_int n @ '')'')"

definition parse_store_loc :: "string \<Rightarrow> store_loc res" where
  "parse_store_loc s =
     (if s = ''user'' then Inr Store_user
      else if s = ''machine'' then Inr Store_machine
      else Inl (E_new ''invalid certificate store %q: want \"user\" or \"machine\"'' [s]))"

record regex =
  re_text :: string
  re_match :: "string \<Rightarrow> bool"

definition match_cert :: "cert \<Rightarrow> cert_field \<Rightarrow> regex \<Rightarrow> bool" where
  "match_cert c f re =
     re_match re (case f of Field_subject \<Rightarrow> ct_subject_cn c | Field_issuer \<Rightarrow> ct_issuer_cn c | Field_other _ \<Rightarrow> [])"

section \<open>Selecting\<close>

text \<open>The interface \<open>Identity\<close> of \<open>identity.go\<close>, and the store's operations the selector calls.\<close>

record ('i, 's) identity_api =
  id_certificate :: "'i \<Rightarrow> 's \<Rightarrow> cert res \<times> 's"
  id_chain :: "'i \<Rightarrow> 's \<Rightarrow> cert list res \<times> 's"
  id_signer :: "'i \<Rightarrow> 's \<Rightarrow> 's signer res \<times> 's"
  id_close :: "'i \<Rightarrow> 's \<Rightarrow> 's"

datatype store_kind = User_store | System_store

record ('i, 'h, 's) store_api =
  st_open :: "store_kind \<Rightarrow> 's \<Rightarrow> 'h res \<times> 's"
  st_identities :: "'h \<Rightarrow> 's \<Rightarrow> 'i list res \<times> 's"
  st_close :: "'h \<Rightarrow> 's \<Rightarrow> 's"

definition open_store :: "('i, 'h, 's) store_api \<Rightarrow> store_loc \<Rightarrow> 's \<Rightarrow> 'h res \<times> 's" where
  "open_store st loc s =
     (if loc = Store_machine
      then map_err (\<lambda>e. E_wrap ''opening machine certificate store: %w (machine store may require admin/SYSTEM)'' [] [e])
             (st_open st System_store s)
      else map_err (\<lambda>e. E_wrap ''opening user certificate store: %w'' [] [e]) (st_open st User_store s))"

fun close_identities :: "('i, 's) identity_api \<Rightarrow> 'i list \<Rightarrow> 's \<Rightarrow> 's" where
  "close_identities ids [] s = s"
| "close_identities ids (i # is) s = close_identities ids is (id_close ids i s)"

fun scan_identities :: "('i, 's) identity_api \<Rightarrow> cert_field \<Rightarrow> regex \<Rightarrow> nat \<Rightarrow> 'i list \<Rightarrow> 's \<Rightarrow> ('i \<times> cert) res \<times> 's" where
  "scan_identities ids field re n [] s =
     (Inl (E_new ''no certificate with %s CN matching %q (scanned %d identities)'' [field_string field, re_text re, dec_digits n]), s)"
| "scan_identities ids field re n (i # is) s =
     (case id_certificate ids i s of
        (Inl e, s) \<Rightarrow> scan_identities ids field re n is (id_close ids i s)
      | (Inr c, s) \<Rightarrow>
          if match_cert c field re then (Inr (i, c), close_identities ids is s)
          else scan_identities ids field re n is (id_close ids i s))"

type_synonym ('i, 's) find_fn = "cert_field \<Rightarrow> regex \<Rightarrow> store_loc \<Rightarrow> 's \<Rightarrow> ('i \<times> cert) res \<times> 's"

definition find_identity :: "('i, 'h, 's) store_api \<Rightarrow> ('i, 's) identity_api \<Rightarrow> ('i, 's) find_fn" where
  "find_identity st ids field re loc s =
     and_then (open_store st loc s) (\<lambda>store s.
       case and_then (map_err (\<lambda>e. E_wrap ''listing certificate identities: %w'' [] [e]) (st_identities st store s))
              (\<lambda>idents s. scan_identities ids field re (length idents) idents s) of
         (r, s) \<Rightarrow> (r, st_close st store s))"

text \<open>Off macOS and Windows.\<close>

definition find_identity_stub :: "('i, 's) find_fn" where
  "find_identity_stub field re loc s = (Inl (E_new ''IAM Roles Anywhere support requires macOS or Windows'' []), s)"

section \<open>The exchange\<close>

record ra_options =
  ra_trust_anchor :: string
  ra_profile :: string
  ra_role :: string
  ra_region_opt :: string
  ra_endpoint :: string

definition resolve_region :: "(string \<Rightarrow> string res) \<Rightarrow> ra_options \<Rightarrow> string res" where
  "resolve_region arn opts =
     (if ra_region_opt opts \<noteq> [] then Inr (ra_region_opt opts)
      else (case arn (ra_trust_anchor opts) of
              Inl e \<Rightarrow> Inl (E_wrap ''resolving region from trust anchor ARN: %w'' [] [e])
            | Inr region \<Rightarrow>
                if region = [] then Inl (E_new ''no region: set Options.Region or use a trust anchor ARN that carries a region'' [])
                else Inr region))"

text \<open>The client's options: the edits made to its finalize stack, in order, are interpreted by the SDK.\<close>

datatype 'f stack_op = Remove_step string | Add_last 'f

record 'f client_options =
  co_region :: string
  co_endpoint :: "string option"
  co_stack :: "'f stack_op list"

record session_in =
  si_cert :: string
  si_profile :: string
  si_role :: string
  si_anchor :: string

record session_creds =
  sc_key :: "string option"
  sc_secret :: "string option"
  sc_token :: "string option"
  sc_expiration :: "string option"

record aws_creds =
  ac_key :: string
  ac_secret :: string
  ac_token :: string
  ac_source :: string
  ac_can_expire :: bool
  ac_expires :: int

type_synonym session_out = "session_creds option list"

definition to_credentials :: "(string \<Rightarrow> int res) \<Rightarrow> session_out \<Rightarrow> aws_creds res" where
  "to_credentials parse_time out =
     (case out of
        Some c # _ \<Rightarrow>
          (case (sc_key c, sc_secret c, sc_token c, sc_expiration c) of
             (Some key, Some secret, Some token, Some expiration) \<Rightarrow>
               (case parse_time expiration of
                  Inl e \<Rightarrow> Inl (E_wrap ''parsing credential expiration %q: %w'' [expiration] [e])
                | Inr exp \<Rightarrow>
                    Inr \<lparr>ac_key = key, ac_secret = secret, ac_token = token, ac_source = ''RolesAnywhere'',
                      ac_can_expire = True, ac_expires = exp\<rparr>)
           | _ \<Rightarrow> Inl (E_new ''rolesanywhere CreateSession returned incomplete credentials'' []))
      | _ \<Rightarrow> Inl (E_new ''rolesanywhere CreateSession returned no credentials'' []))"

type_synonym ('o, 's) finalizer = "string \<Rightarrow> utc \<Rightarrow> (mw_request \<Rightarrow> 's \<Rightarrow> 'o res \<times> 's) \<Rightarrow> mw_request \<Rightarrow> 's \<Rightarrow> 'o res \<times> 's"
type_synonym ('o, 's) create_fn = "('o, 's) finalizer client_options \<Rightarrow> session_in \<Rightarrow> 's \<Rightarrow> session_out res \<times> 's"

definition session_client :: "platform \<Rightarrow> ra_options \<Rightarrow> string \<Rightarrow> 's signer \<Rightarrow> cert \<Rightarrow> cert list \<Rightarrow> ('o, 's) finalizer client_options" where
  "session_client P opts region sign leaf chain =
     \<lparr>co_region = region, co_endpoint = (if ra_endpoint opts \<noteq> [] then Some (ra_endpoint opts) else None),
      co_stack = [Remove_step ''Signing'', Remove_step ''setLegacyContextSigningOptions'', Remove_step ''GetIdentity'',
        Add_last (x509_sign_middleware P sign leaf chain region)]\<rparr>"

definition session_request :: "ra_options \<Rightarrow> cert \<Rightarrow> session_in" where
  "session_request opts leaf =
     \<lparr>si_cert = base64_encode (ct_raw leaf), si_profile = ra_profile opts, si_role = ra_role opts, si_anchor = ra_trust_anchor opts\<rparr>"

definition fetch_session ::
  "platform \<Rightarrow> (string \<Rightarrow> string res) \<Rightarrow> (string \<Rightarrow> int res) \<Rightarrow> ('o, 's) create_fn \<Rightarrow> ('i, 's) identity_api \<Rightarrow> 'i \<Rightarrow> ra_options \<Rightarrow> 's
    \<Rightarrow> aws_creds res \<times> 's" where
  "fetch_session P arn parse_time create ids i opts s =
     (case resolve_region arn opts of
        Inl e \<Rightarrow> (Inl e, s)
      | Inr region \<Rightarrow>
          and_then (map_err (\<lambda>e. E_wrap ''reading certificate: %w'' [] [e]) (id_certificate ids i s)) (\<lambda>leaf s.
          and_then (map_err (\<lambda>e. E_wrap ''reading certificate chain: %w'' [] [e]) (id_chain ids i s)) (\<lambda>chain s.
          and_then (map_err (\<lambda>e. E_wrap ''obtaining signer: %w'' [] [e]) (id_signer ids i s)) (\<lambda>sign s.
          and_then (map_err (\<lambda>e. E_wrap ''rolesanywhere CreateSession: %w'' [] [e])
                      (create (session_client P opts region sign leaf chain) (session_request opts leaf) s)) (\<lambda>out s.
            (to_credentials parse_time out, s))))))"

section \<open>The provider\<close>

record provider =
  pv_field :: cert_field
  pv_re :: regex
  pv_loc :: store_loc
  pv_opts :: ra_options

definition new_provider :: "cert_field \<Rightarrow> regex \<Rightarrow> store_loc \<Rightarrow> ra_options \<Rightarrow> provider" where
  "new_provider field re loc opts = \<lparr>pv_field = field, pv_re = re, pv_loc = loc, pv_opts = opts\<rparr>"

definition retrieve ::
  "('i, 's) find_fn \<Rightarrow> ('i \<Rightarrow> ra_options \<Rightarrow> 's \<Rightarrow> aws_creds res \<times> 's) \<Rightarrow> ('i \<Rightarrow> 's \<Rightarrow> 's) \<Rightarrow> provider \<Rightarrow> 's \<Rightarrow> aws_creds res \<times> 's" where
  "retrieve finder fetch close p s =
     and_then (finder (pv_field p) (pv_re p) (pv_loc p) s) (\<lambda>(i, c) s.
       case fetch i (pv_opts p) s of (r, s) \<Rightarrow> (r, close i s))"

section \<open>Parsing and printing\<close>

lemma parse_field_string: "parse_cert_field s = Inr f \<longleftrightarrow> s = field_string f \<and> f \<in> {Field_subject, Field_issuer}"
  by (cases f) (auto simp: parse_cert_field_def field_string_def)

lemma parse_store_string: "parse_store_loc s = Inr l \<longleftrightarrow> s = store_string l \<and> l \<in> {Store_user, Store_machine}"
  by (cases l) (auto simp: parse_store_loc_def store_string_def)

section \<open>Who holds what open\<close>

text \<open>
  \<open>held s i\<close> is how often identity \<open>i\<close> was handed out and not yet closed. A finder that
  fails holds nothing more than before; one that succeeds holds the one identity it returns.
\<close>

locale identity_finder =
  fixes finder :: "('i, 's) find_fn" and held :: "'s \<Rightarrow> 'i \<Rightarrow> int"
  assumes miss: "finder f re l s = (Inl e, s') \<Longrightarrow> held s' = held s"
    and hit: "finder f re l s = (Inr (i, c), s') \<Longrightarrow> held s' = (held s)(i := held s i + 1)"
begin

lemma retrieve_held:
  assumes fetch: "\<And>i opts s r s'. fetch i opts s = (r, s') \<Longrightarrow> held s' = held s"
    and close: "\<And>i s. held (close i s) = (held s)(i := held s i - 1)"
    and run: "retrieve finder fetch close p s = (r, s')"
  shows "held s' = held s"
proof -
  obtain q s1 where f: "finder (pv_field p) (pv_re p) (pv_loc p) s = (q, s1)" by fastforce
  show ?thesis
  proof (cases q)
    case (Inl e)
    with run f show ?thesis using miss by (auto simp: retrieve_def)
  next
    case (Inr ic)
    obtain i c where ic: "ic = (i, c)" by fastforce
    obtain r2 s2 where e: "fetch i (pv_opts p) s1 = (r2, s2)" by fastforce
    with run f Inr ic have "s' = close i s2" by (auto simp: retrieve_def)
    then show ?thesis using hit f Inr ic fetch [OF e] close by simp
  qed
qed

end

text \<open>A store that counts: listing hands out every identity once more, closing takes one back.\<close>

type_synonym ('i, 's) counted = "'s \<times> ('i \<Rightarrow> int)"

definition counting :: "('s \<Rightarrow> 'r \<times> 's) \<Rightarrow> ('i, 's) counted \<Rightarrow> 'r \<times> ('i, 's) counted" where
  "counting f sh = (case f (fst sh) of (r, s) \<Rightarrow> (r, (s, snd sh)))"

definition hand_out :: "'i list \<Rightarrow> ('i \<Rightarrow> int) \<Rightarrow> 'i \<Rightarrow> int" where
  "hand_out is h i = h i + int (count (mset is) i)"

definition counted_store :: "('i, 'h, 's) store_api \<Rightarrow> ('i, 'h, ('i, 's) counted) store_api" where
  "counted_store st =
     \<lparr>st_open = (\<lambda>k. counting (st_open st k)),
      st_identities = (\<lambda>h sh. case st_identities st h (fst sh) of
         (Inl e, s) \<Rightarrow> (Inl e, (s, snd sh)) | (Inr is, s) \<Rightarrow> (Inr is, (s, hand_out is (snd sh)))),
      st_close = (\<lambda>h sh. (st_close st h (fst sh), snd sh))\<rparr>"

definition counted_ids :: "('i, 's) identity_api \<Rightarrow> ('i, ('i, 's) counted) identity_api" where
  "counted_ids ids =
     \<lparr>id_certificate = (\<lambda>i. counting (id_certificate ids i)),
      id_chain = (\<lambda>i. counting (id_chain ids i)),
      id_signer = (\<lambda>i sh. case id_signer ids i (fst sh) of
         (Inl e, s) \<Rightarrow> (Inl e, (s, snd sh)) | (Inr sg, s) \<Rightarrow> (Inr (\<lambda>d. counting (sg d)), (s, snd sh))),
      id_close = (\<lambda>i sh. (id_close ids i (fst sh), (snd sh)(i := snd sh i - 1)))\<rparr>"

lemma counting_snd: "counting f sh = (r, sh') \<Longrightarrow> snd sh' = snd sh"
  by (auto simp: counting_def split: prod.splits)

lemma close_identities_held:
  "snd (close_identities (counted_ids ids) is sh) = (\<lambda>i. snd sh i - int (count (mset is) i))"
  by (induction "counted_ids ids" "is" sh rule: close_identities.induct) (auto simp: counted_ids_def fun_eq_iff)

lemma scan_held:
  assumes "scan_identities (counted_ids ids) f re n is sh = (r, sh')"
  shows "snd sh' = (\<lambda>i. snd sh i - int (count (mset is) i) + (case r of Inl _ \<Rightarrow> 0 | Inr (j, c) \<Rightarrow> if j = i then 1 else 0))"
  using assms
proof (induction "is" arbitrary: sh)
  case (Cons i "is")
  obtain q sh1 where c: "id_certificate (counted_ids ids) i sh = (q, sh1)" by (metis surj_pair)
  then have s1: "snd sh1 = snd sh" by (auto simp: counted_ids_def dest: counting_snd)
  let ?next = "id_close (counted_ids ids) i sh1"
  have close: "snd ?next = (snd sh)(i := snd sh i - 1)" by (simp add: counted_ids_def s1)
  show ?case
  proof (cases "\<exists>ct. q = Inr ct \<and> match_cert ct f re")
    case True
    with Cons.prems c obtain ct where "r = Inr (i, ct)" "sh' = close_identities (counted_ids ids) is sh1"
      by auto
    then show ?thesis by (auto simp: close_identities_held s1 fun_eq_iff)
  next
    case False
    with Cons.prems c have "scan_identities (counted_ids ids) f re n is ?next = (r, sh')"
      by (cases q) auto
    from Cons.IH [OF this] show ?thesis by (auto simp: close fun_eq_iff split: sum.splits)
  qed
qed (auto simp: fun_eq_iff)

lemma find_identity_held:
  assumes "find_identity (counted_store st) (counted_ids ids) f re loc sh = (r, sh')"
  shows "snd sh' = (\<lambda>i. snd sh i + (case r of Inl _ \<Rightarrow> 0 | Inr (j, c) \<Rightarrow> if j = i then 1 else 0))"
proof -
  let ?st = "counted_store st"
  obtain q sh1 where o: "open_store ?st loc sh = (q, sh1)" by (metis surj_pair)
  then have s1: "snd sh1 = snd sh"
    by (auto simp: open_store_def counted_store_def map_err_def split: if_splits prod.splits sum.splits dest!: counting_snd)
  show ?thesis
  proof (cases q)
    case (Inl e)
    with assms o s1 show ?thesis by (auto simp: find_identity_def)
  next
    case (Inr h)
    obtain q2 sh2 where l: "st_identities ?st h sh1 = (q2, sh2)" by (metis surj_pair)
    show ?thesis
    proof (cases q2)
      case (Inl e)
      with assms o l \<open>q = Inr h\<close> s1 show ?thesis
        by (auto simp: find_identity_def counted_store_def split: prod.splits sum.splits)
    next
      case (Inr "is")
      with l have s2: "snd sh2 = hand_out is (snd sh1)" by (auto simp: counted_store_def split: prod.splits sum.splits)
      obtain r3 sh3 where c: "scan_identities (counted_ids ids) f re (length is) is sh2 = (r3, sh3)" by (metis surj_pair)
      with assms o l \<open>q = Inr h\<close> Inr have "r = r3" "snd sh' = snd sh3"
        by (auto simp: find_identity_def counted_store_def)
      with scan_held [OF c] show ?thesis by (auto simp: s1 s2 hand_out_def fun_eq_iff)
    qed
  qed
qed

interpretation selector: identity_finder "find_identity (counted_store st) (counted_ids ids)" snd
  by unfold_locales (auto dest!: find_identity_held simp: fun_eq_iff)

interpretation stub: identity_finder find_identity_stub held
  by unfold_locales (auto simp: find_identity_stub_def)

lemma counted_ids_held:
  "id_certificate (counted_ids ids) i s = (q1, s') \<Longrightarrow> snd s' = snd s"
  "id_chain (counted_ids ids) i s = (q2, s') \<Longrightarrow> snd s' = snd s"
  "id_signer (counted_ids ids) i s = (q3, s') \<Longrightarrow> snd s' = snd s"
  by (auto simp: counted_ids_def dest: counting_snd split: prod.splits sum.splits)

lemma fetch_held:
  assumes create: "\<And>co i s r s'. create co i s = (r, s') \<Longrightarrow> snd s' = snd s"
    and run: "fetch_session P arn parse_time create (counted_ids ids) i opts s = (r, s')"
  shows "snd s' = snd s"
proof (cases "resolve_region arn opts")
  case (Inr region)
  show ?thesis
    by (insert run, simp add: fetch_session_def Inr, elim and_thenE map_errE; simp; metis counted_ids_held create)
qed (use run in \<open>simp add: fetch_session_def\<close>)

text \<open>Which identity is found: the first whose certificate reads and matches.\<close>

lemma scan_first:
  assumes pure: "\<And>i s. id_certificate ids i s = (cert_of i, s)"
  shows "fst (scan_identities ids f re n is s) =
    (case find (\<lambda>i. \<exists>c. cert_of i = Inr c \<and> match_cert c f re) is of
       Some i \<Rightarrow> (case cert_of i of Inr c \<Rightarrow> Inr (i, c) | Inl e \<Rightarrow> Inl e)
     | None \<Rightarrow> Inl (E_new ''no certificate with %s CN matching %q (scanned %d identities)'' [field_string f, re_text re, dec_digits n]))"
  by (induction "is" arbitrary: s) (auto simp: pure split: sum.splits)

end
