(* ===== verification/AwsClient.thy ===== *)
theory AwsClient
  imports RaSession
begin

text \<open>
  \<open>pkg/awsclient\<close>: the configuration of a session, with the SDK's default chain or with a
  cached Roles Anywhere provider, and the S3 client made from it. \<open>LoadDefaultConfig\<close>,
  \<open>NewCredentialsCache\<close> and \<open>NewFromConfig\<close> are arguments; what the code hands them is data.
\<close>

record ra_config =
  rc_anchor :: string
  rc_profile :: string
  rc_role :: string
  rc_pattern :: regex
  rc_field :: cert_field
  rc_store :: store_loc

record session_config =
  cf_region :: string
  cf_endpoint :: string
  cf_ra :: "ra_config option"

text \<open>Five minutes, in nanoseconds as \<open>time.Duration\<close> counts.\<close>

definition ra_expiry_window :: int where
  "ra_expiry_window = 5 * 60 * 1000000000"

definition ra_region :: "(string \<Rightarrow> string res) \<Rightarrow> string \<Rightarrow> string \<Rightarrow> string res" where
  "ra_region arn region anchor =
     (if region \<noteq> [] then Inr region
      else (case arn anchor of
              Inl e \<Rightarrow> Inl (E_wrap ''resolving region from -ra-trust-anchor-arn: %w'' [] [e])
            | Inr r \<Rightarrow>
                if r = [] then Inl (E_new ''no region: pass -region or use a trust anchor ARN that carries a region'' [])
                else Inr r))"

definition ra_provider :: "ra_config \<Rightarrow> string \<Rightarrow> provider" where
  "ra_provider ra region =
     new_provider (rc_field ra) (rc_pattern ra) (rc_store ra)
       \<lparr>ra_trust_anchor = rc_anchor ra, ra_profile = rc_profile ra, ra_role = rc_role ra, ra_region_opt = region, ra_endpoint = []\<rparr>"

datatype 'c load_option = With_region string | With_credentials 'c

text \<open>
  \<open>get p\<close> is \<open>Retrieve\<close> of provider \<open>p\<close>, \<open>cache\<close> builds a cache with an expiry window over it,
  \<open>cached\<close> is \<open>Retrieve\<close> of a cache.
\<close>

definition load_config ::
  "(string \<Rightarrow> string res) \<Rightarrow> (provider \<Rightarrow> 's \<Rightarrow> aws_creds res \<times> 's) \<Rightarrow> (('s \<Rightarrow> aws_creds res \<times> 's) \<Rightarrow> int \<Rightarrow> 'c) \<Rightarrow>
   ('c \<Rightarrow> 's \<Rightarrow> aws_creds res \<times> 's) \<Rightarrow> ('c load_option list \<Rightarrow> 's \<Rightarrow> 'cfg res \<times> 's) \<Rightarrow> session_config \<Rightarrow> 's \<Rightarrow> 'cfg res \<times> 's" where
  "load_config arn get cache cached load_default cfg s =
     (case cf_ra cfg of
        None \<Rightarrow> load_default (if cf_region cfg \<noteq> [] then [With_region (cf_region cfg)] else []) s
      | Some ra \<Rightarrow>
          (case ra_region arn (cf_region cfg) (rc_anchor ra) of
             Inl e \<Rightarrow> (Inl e, s)
           | Inr region \<Rightarrow>
               (let creds = cache (get (ra_provider ra region)) ra_expiry_window
                in and_then (cached creds s) (\<lambda>_ s. load_default [With_region region, With_credentials creds] s))))"

record s3_options =
  so_endpoint :: "string option"
  so_path_style :: bool

definition s3_option_fn :: "session_config \<Rightarrow> s3_options \<Rightarrow> s3_options" where
  "s3_option_fn cfg opts =
     (if cf_endpoint cfg \<noteq> [] then opts\<lparr>so_endpoint := Some (cf_endpoint cfg), so_path_style := True\<rparr> else opts)"

definition new_s3 ::
  "(session_config \<Rightarrow> 's \<Rightarrow> 'cfg res \<times> 's) \<Rightarrow> ('cfg \<Rightarrow> (s3_options \<Rightarrow> s3_options) \<Rightarrow> 'client) \<Rightarrow> session_config \<Rightarrow> 's \<Rightarrow> 'client res \<times> 's" where
  "new_s3 load from_config cfg s = and_then (load cfg s) (\<lambda>c s. (Inr (from_config c (s3_option_fn cfg)), s))"

section \<open>Facts\<close>

lemma ra_region_Inr: "ra_region arn region anchor = Inr r \<Longrightarrow> r \<noteq> []"
  by (auto simp: ra_region_def split: if_splits sum.splits)

lemma ra_region_same:
  "ra_region arn (ra_region_opt o') (ra_trust_anchor o') = Inr r \<longleftrightarrow> resolve_region arn o' = Inr r"
  by (auto simp: ra_region_def resolve_region_def split: sum.splits)

text \<open>The region resolved once is the one the exchange uses, whatever \<open>arn\<close> says of the anchor then.\<close>

lemma load_region_agrees:
  assumes "cf_ra cfg = Some ra" "load_config arn get cache cached load_default cfg s = (Inr c, s')"
  shows "\<exists>region cred s1. ra_region arn (cf_region cfg) (rc_anchor ra) = Inr region \<and>
    resolve_region arn' (pv_opts (ra_provider ra region)) = Inr region \<and>
    cached (cache (get (ra_provider ra region)) ra_expiry_window) s = (Inr cred, s1) \<and>
    load_default [With_region region, With_credentials (cache (get (ra_provider ra region)) ra_expiry_window)] s1 = (Inr c, s')"
proof -
  obtain region where r: "ra_region arn (cf_region cfg) (rc_anchor ra) = Inr region"
    using assms by (auto simp: load_config_def split: sum.splits)
  moreover have "resolve_region arn' (pv_opts (ra_provider ra region)) = Inr region"
    using ra_region_Inr [OF r] by (simp add: resolve_region_def ra_provider_def new_provider_def)
  ultimately show ?thesis
    using assms by (auto simp: load_config_def Let_def elim!: and_then_InrE)
qed

text \<open>Without a region or an exchange that answers, no configuration is loaded.\<close>

lemma load_error:
  assumes "cf_ra cfg = Some ra" "ra_region arn (cf_region cfg) (rc_anchor ra) = Inl e"
  shows "load_config arn get cache cached load_default cfg s = (Inl e, s)"
  using assms by (simp add: load_config_def)

end
