(* ===== verification/GoFlag.thy ===== *)
theory GoFlag
  imports JsonTrip
begin

text \<open>
  What the command line uses of Go's \<open>flag\<close>, \<open>strconv\<close> and \<open>slices\<close>: \<open>FlagSet.Parse\<close> over
  flags that set fields of a structure, \<open>ParseBool\<close>, \<open>ParseInt\<close> with base 0, and
  \<open>slices.BinarySearch\<close> on strings. The lemmas: an argument list is consumed from the left,
  parsing preserves what every flag's setter preserves, and the search decides membership.
\<close>

section \<open>Flag sets\<close>

text \<open>A flag: whether it is boolean, and what setting it does; a bad value is an error text.\<close>

record 'c flag_def =
  fl_bool :: bool
  fl_set :: "string \<Rightarrow> 'c \<Rightarrow> string + 'c"

type_synonym 'c flags = "(string \<times> 'c flag_def) list"

definition err_help :: gerr where
  "err_help = E_new ''flag: help requested'' []"

datatype 'c flag_step =
    Flag_stop "string list"
  | Flag_fail gerr
  | Flag_help
  | Flag_seen string 'c "string list"

text \<open>The name and value of \<open>-name=value\<close>; the first byte of the name is no equals sign.\<close>

definition flag_value :: "string \<Rightarrow> string \<times> string option" where
  "flag_value s =
     (if CHR ''='' \<in> set s
      then (takeWhile (\<lambda>c. c \<noteq> CHR ''='') s, Some (tl (dropWhile (\<lambda>c. c \<noteq> CHR ''='') s)))
      else (s, None))"

definition set_flag :: "'c flag_def \<Rightarrow> string \<Rightarrow> string option \<Rightarrow> string list \<Rightarrow> 'c \<Rightarrow> 'c flag_step" where
  "set_flag f name val rest c =
     (if fl_bool f then
        (case val of
           Some v \<Rightarrow>
             (case fl_set f v c of
                Inl t \<Rightarrow> Flag_fail (E_new ''invalid boolean value %q for -%s: %v'' [v, name, t])
              | Inr c \<Rightarrow> Flag_seen name c rest)
         | None \<Rightarrow>
             (case fl_set f ''true'' c of
                Inl t \<Rightarrow> Flag_fail (E_new ''invalid boolean flag %s: %v'' [name, t])
              | Inr c \<Rightarrow> Flag_seen name c rest))
      else
        (case (val, rest) of
           (None, []) \<Rightarrow> Flag_fail (E_new ''flag needs an argument: -%s'' [name])
         | (None, v # rest) \<Rightarrow>
             (case fl_set f v c of
                Inl t \<Rightarrow> Flag_fail (E_new ''invalid value %q for flag -%s: %v'' [v, name, t])
              | Inr c \<Rightarrow> Flag_seen name c rest)
         | (Some v, _) \<Rightarrow>
             (case fl_set f v c of
                Inl t \<Rightarrow> Flag_fail (E_new ''invalid value %q for flag -%s: %v'' [v, name, t])
              | Inr c \<Rightarrow> Flag_seen name c rest)))"

definition parse_one :: "'c flags \<Rightarrow> string list \<Rightarrow> 'c \<Rightarrow> 'c flag_step" where
  "parse_one formal args c =
     (case args of
        [] \<Rightarrow> Flag_stop []
      | s # rest \<Rightarrow>
          if length s < 2 \<or> hd s \<noteq> CHR ''-'' then Flag_stop args
          else if s = ''--'' then Flag_stop rest
          else
            (let body = (if s ! 1 = CHR ''-'' then drop 2 s else drop 1 s)
             in if body = [] \<or> hd body = CHR ''-'' \<or> hd body = CHR ''='' then Flag_fail (E_new ''bad flag syntax: %s'' [s])
                else
                  (case flag_value body of
                     (name, val) \<Rightarrow>
                       (case map_of formal name of
                          None \<Rightarrow>
                            if name = ''help'' \<or> name = ''h'' then Flag_help
                            else Flag_fail (E_new ''flag provided but not defined: -%s'' [name])
                        | Some f \<Rightarrow> set_flag f name val rest c))))"

text \<open>\<open>FlagSet.Parse\<close>: the structure, the flags that were set and the arguments left.\<close>

datatype 'c flag_result = Flags_ok 'c "string list" "string list" | Flags_fail gerr | Flags_help

lemma set_flag_shorter: "set_flag f name val rest c = Flag_seen n c' rest' \<Longrightarrow> length rest' \<le> length rest"
  by (auto simp: set_flag_def split: if_splits option.splits sum.splits list.splits)

lemma parse_one_shorter:
  assumes "parse_one formal args c = Flag_seen n c' rest"
  shows "length rest < length args"
  using assms set_flag_shorter
  by (fastforce simp: parse_one_def Let_def split: list.splits if_splits prod.splits option.splits)

function parse_flags :: "'c flags \<Rightarrow> string list \<Rightarrow> 'c \<Rightarrow> string list \<Rightarrow> 'c flag_result" where
  "parse_flags formal args c actual =
     (case parse_one formal args c of
        Flag_stop rest \<Rightarrow> Flags_ok c actual rest
      | Flag_fail e \<Rightarrow> Flags_fail e
      | Flag_help \<Rightarrow> Flags_help
      | Flag_seen name c rest \<Rightarrow> parse_flags formal rest c (name # actual))"
  by pat_completeness auto
termination
  by (relation "measure (\<lambda>(formal, args, c, actual). length args)") (auto dest: parse_one_shorter)

declare parse_flags.simps [simp del]

section \<open>Values\<close>

definition parse_bool :: "string \<Rightarrow> bool option" where
  "parse_bool s =
     (if s \<in> set [''1'', ''t'', ''T'', ''true'', ''TRUE'', ''True''] then Some True
      else if s \<in> set [''0'', ''f'', ''F'', ''false'', ''FALSE'', ''False''] then Some False
      else None)"

text \<open>\<open>strconv.ParseInt(s, 0, 64)\<close>: \<open>Inl True\<close> is a range error, \<open>Inl False\<close> a syntax error.\<close>

definition digit_of :: "char \<Rightarrow> nat option" where
  "digit_of c =
     (if char_between CHR ''0'' CHR ''9'' c then Some (byte c - 48)
      else if char_between CHR ''a'' CHR ''z'' (lower_char c) then Some (byte (lower_char c) - 87)
      else None)"

fun uint_loop :: "nat \<Rightarrow> nat \<Rightarrow> string \<Rightarrow> bool + nat" where
  "uint_loop base n [] = Inr n"
| "uint_loop base n (c # s) =
     (if c = CHR ''_'' then uint_loop base n s
      else
        (case digit_of c of
           None \<Rightarrow> Inl False
         | Some d \<Rightarrow>
             if base \<le> d then Inl False
             else if n * base + d > 2 ^ 64 - 1 then Inl True
             else uint_loop base (n * base + d) s))"

datatype saw = Saw_start | Saw_digit | Saw_under | Saw_other

fun under_loop :: "bool \<Rightarrow> saw \<Rightarrow> string \<Rightarrow> bool" where
  "under_loop hex seen [] = (seen \<noteq> Saw_under)"
| "under_loop hex seen (c # s) =
     (if char_between CHR ''0'' CHR ''9'' c \<or> (hex \<and> char_between CHR ''a'' CHR ''f'' (lower_char c))
      then under_loop hex Saw_digit s
      else if c = CHR ''_'' then (if seen \<noteq> Saw_digit then False else under_loop hex Saw_under s)
      else if seen = Saw_under then False
      else under_loop hex Saw_other s)"

definition underscore_ok :: "string \<Rightarrow> bool" where
  "underscore_ok s =
     (case s of
        a # b # t \<Rightarrow>
          if a = CHR ''0'' \<and> lower_char b \<in> set ''box'' then under_loop (lower_char b = CHR ''x'') Saw_digit t
          else under_loop False Saw_start s
      | _ \<Rightarrow> under_loop False Saw_start s)"

definition parse_uint0 :: "string \<Rightarrow> bool + nat" where
  "parse_uint0 s =
     (if s = [] then Inl False
      else
        (case (if hd s \<noteq> CHR ''0'' then (10, s)
               else if length s \<ge> 3 \<and> lower_char (s ! 1) = CHR ''b'' then (2, drop 2 s)
               else if length s \<ge> 3 \<and> lower_char (s ! 1) = CHR ''o'' then (8, drop 2 s)
               else if length s \<ge> 3 \<and> lower_char (s ! 1) = CHR ''x'' then (16, drop 2 s)
               else (8, tl s)) of
           (base, t) \<Rightarrow>
             (case uint_loop base 0 t of
                Inl r \<Rightarrow> Inl r
              | Inr n \<Rightarrow> if CHR ''_'' \<in> set t \<and> \<not> underscore_ok s then Inl False else Inr n)))"

definition parse_int0 :: "string \<Rightarrow> bool + int" where
  "parse_int0 s =
     (if s = [] then Inl False
      else
        (let neg = (hd s = CHR ''-''); t = (if hd s = CHR ''-'' \<or> hd s = CHR ''+'' then tl s else s)
         in case parse_uint0 t of
              Inl r \<Rightarrow> Inl r
            | Inr n \<Rightarrow>
                if \<not> neg \<and> n \<ge> 2 ^ 63 then Inl True
                else if neg \<and> n > 2 ^ 63 then Inl True
                else Inr (if neg then - int n else int n)))"

lemma parse_int0_int64: "parse_int0 s = Inr i \<Longrightarrow> is_int64 i"
  by (auto simp: parse_int0_def Let_def is_int64_def split: if_splits sum.splits)

text \<open>The setters of \<open>StringVar\<close>, \<open>BoolVar\<close>, \<open>IntVar\<close> and \<open>DurationVar\<close>.\<close>

definition string_flag :: "(string \<Rightarrow> 'c \<Rightarrow> 'c) \<Rightarrow> 'c flag_def" where
  "string_flag f = \<lparr>fl_bool = False, fl_set = (\<lambda>s c. Inr (f s c))\<rparr>"

definition bool_flag :: "(bool \<Rightarrow> 'c \<Rightarrow> 'c) \<Rightarrow> 'c flag_def" where
  "bool_flag f =
     \<lparr>fl_bool = True, fl_set = (\<lambda>s c. case parse_bool s of None \<Rightarrow> Inl ''parse error'' | Some b \<Rightarrow> Inr (f b c))\<rparr>"

definition int_flag :: "(int \<Rightarrow> 'c \<Rightarrow> 'c) \<Rightarrow> 'c flag_def" where
  "int_flag f =
     \<lparr>fl_bool = False, fl_set = (\<lambda>s c. case parse_int0 s of
        Inl range_err \<Rightarrow> Inl (if range_err then ''value out of range'' else ''parse error'')
      | Inr i \<Rightarrow> Inr (f i c))\<rparr>"

definition duration_flag :: "(string \<Rightarrow> int option) \<Rightarrow> (int \<Rightarrow> 'c \<Rightarrow> 'c) \<Rightarrow> 'c flag_def" where
  "duration_flag dur f =
     \<lparr>fl_bool = False, fl_set = (\<lambda>s c. case dur s of None \<Rightarrow> Inl ''parse error'' | Some d \<Rightarrow> Inr (f d c))\<rparr>"

lemmas flag_setters = string_flag_def bool_flag_def int_flag_def duration_flag_def

section \<open>What parsing preserves\<close>

text \<open>A property of the structure and the flags set so far that every setter of the set preserves.\<close>

definition flags_keep :: "'c flags \<Rightarrow> ('c \<Rightarrow> bool) \<Rightarrow> bool" where
  "flags_keep formal Q \<longleftrightarrow> (\<forall>(name, f) \<in> set formal. \<forall>s c c'. Q c \<longrightarrow> fl_set f s c = Inr c' \<longrightarrow> Q c')"

lemma flags_keep_list:
  "flags_keep [] Q"
  "flags_keep ((name, f) # fs) Q \<longleftrightarrow> (\<forall>s c c'. Q c \<longrightarrow> fl_set f s c = Inr c' \<longrightarrow> Q c') \<and> flags_keep fs Q"
  "flags_keep (fs @ gs) Q \<longleftrightarrow> flags_keep fs Q \<and> flags_keep gs Q"
  unfolding flags_keep_def by (simp_all add: ball_Un)

lemma setter_Inr:
  "fl_set (string_flag g) s c = Inr c' \<longleftrightarrow> c' = g s c"
  "fl_set (bool_flag h) s c = Inr c' \<longleftrightarrow> (\<exists>b. parse_bool s = Some b \<and> c' = h b c)"
  "fl_set (int_flag k) s c = Inr c' \<longleftrightarrow> (\<exists>i. parse_int0 s = Inr i \<and> c' = k i c)"
  "fl_set (duration_flag dur k) s c = Inr c' \<longleftrightarrow> (\<exists>i. dur s = Some i \<and> c' = k i c)"
  by (auto simp: flag_setters split: option.splits sum.splits)

lemma set_flag_seen:
  assumes "set_flag f name val rest c = Flag_seen n c' rest'"
  obtains v where "fl_set f v c = Inr c'" "n = name"
  using assms by (auto simp: set_flag_def split: if_splits option.splits sum.splits list.splits)

lemma parse_one_seen:
  assumes "parse_one formal args c = Flag_seen n c' rest"
  obtains f v where "(n, f) \<in> set formal" "fl_set f v c = Inr c'"
proof -
  obtain f name val rest0 where "map_of formal name = Some f" "set_flag f name val rest0 c = Flag_seen n c' rest"
    using assms by (auto simp: parse_one_def Let_def split: list.splits if_splits prod.splits option.splits)
  then show ?thesis using that by (metis set_flag_seen map_of_SomeD)
qed

text \<open>The same, for a property of the structure and the names set so far.\<close>

definition flags_track :: "'c flags \<Rightarrow> (string list \<Rightarrow> 'c \<Rightarrow> bool) \<Rightarrow> bool" where
  "flags_track formal Q \<longleftrightarrow>
     (\<forall>(name, f) \<in> set formal. \<forall>s names c c'. Q names c \<longrightarrow> fl_set f s c = Inr c' \<longrightarrow> Q (name # names) c')"

lemma flags_track_list:
  "flags_track [] Q"
  "flags_track ((name, f) # fs) Q \<longleftrightarrow>
     (\<forall>s names c c'. Q names c \<longrightarrow> fl_set f s c = Inr c' \<longrightarrow> Q (name # names) c') \<and> flags_track fs Q"
  "flags_track (fs @ gs) Q \<longleftrightarrow> flags_track fs Q \<and> flags_track gs Q"
  unfolding flags_track_def by (simp_all add: ball_Un)

lemma parse_flags_track:
  assumes "flags_track formal Q" "Q actual c" "parse_flags formal args c actual = Flags_ok c' actual' rest"
  shows "Q actual' c' \<and> set actual' \<subseteq> set actual \<union> fst ` set formal"
  using assms
proof (induction formal args c actual rule: parse_flags.induct)
  case (1 formal args c actual)
  show ?case
  proof (cases "parse_one formal args c")
    case (Flag_seen n c1 rest1)
    obtain f v where f: "(n, f) \<in> set formal" "fl_set f v c = Inr c1" using parse_one_seen [OF Flag_seen] by blast
    have "Q (n # actual) c1" using "1.prems"(1,2) f by (auto simp: flags_track_def)
    moreover have "n \<in> fst ` set formal" using f by force
    ultimately show ?thesis using "1.IH" [OF Flag_seen] "1.prems" Flag_seen by (auto simp: parse_flags.simps [of formal args])
  qed (use "1.prems" in \<open>auto simp: parse_flags.simps [of formal args]\<close>)
qed

lemma parse_flags_keep:
  assumes "flags_keep formal Q" "Q c" "parse_flags formal args c actual = Flags_ok c' actual' rest"
  shows "Q c' \<and> set actual' \<subseteq> set actual \<union> fst ` set formal"
proof -
  have "flags_track formal (\<lambda>_. Q)" using assms(1) unfolding flags_keep_def flags_track_def by fast
  from parse_flags_track [OF this assms(2,3)] show ?thesis .
qed

section \<open>Binary search\<close>

function bsearch_loop :: "'a::linorder list \<Rightarrow> 'a \<Rightarrow> nat \<Rightarrow> nat \<Rightarrow> nat" where
  "bsearch_loop xs x i j =
     (if i < j then
        (let h = (i + j) div 2
         in if xs ! h < x then bsearch_loop xs x (h + 1) j else bsearch_loop xs x i h)
      else i)"
  by pat_completeness auto
termination
  by (relation "measure (\<lambda>(xs, x, i, j). j - i)") auto

declare bsearch_loop.simps [simp del]

definition binary_search :: "'a::linorder list \<Rightarrow> 'a \<Rightarrow> nat \<times> bool" where
  "binary_search xs x = (let i = bsearch_loop xs x 0 (length xs) in (i, i < length xs \<and> xs ! i = x))"

lemma bsearch_loop_spec:
  assumes "sorted xs" "i \<le> j" "j \<le> length xs" "\<And>k. k < i \<Longrightarrow> xs ! k < x" "\<And>k. j \<le> k \<Longrightarrow> k < length xs \<Longrightarrow> x \<le> xs ! k"
  shows "let r = bsearch_loop xs x i j in r \<le> length xs \<and> (\<forall>k < r. xs ! k < x) \<and> (\<forall>k. r \<le> k \<and> k < length xs \<longrightarrow> x \<le> xs ! k)"
  using assms
proof (induction xs x i j rule: bsearch_loop.induct)
  case (1 xs x i j)
  show ?case
  proof (cases "i < j")
    case False
    then show ?thesis using "1.prems" by (simp add: bsearch_loop.simps [of xs x j j] Let_def)
  next
    case True
    let ?h = "(i + j) div 2"
    have h: "i \<le> ?h" "?h < j" "?h < length xs" using True "1.prems"(3) by linarith+
    have mono: "xs ! a \<le> xs ! b" if "a \<le> b" "b < length xs" for a b
      using "1.prems"(1) that by (simp add: sorted_nth_mono)
    show ?thesis
    proof (cases "xs ! ?h < x")
      case lt: True
      have low: "xs ! k < x" if "k < ?h + 1" for k using mono [of k ?h] that h lt by (auto intro: le_less_trans)
      have "let r = bsearch_loop xs x (?h + 1) j in r \<le> length xs \<and> (\<forall>k < r. xs ! k < x) \<and> (\<forall>k. r \<le> k \<and> k < length xs \<longrightarrow> x \<le> xs ! k)"
        by (rule "1.IH"(1)) (use True lt h low "1.prems" in auto)
      then show ?thesis using True lt by (simp add: bsearch_loop.simps [of xs x i j] Let_def)
    next
      case ge: False
      have "let r = bsearch_loop xs x i ?h in r \<le> length xs \<and> (\<forall>k < r. xs ! k < x) \<and> (\<forall>k. r \<le> k \<and> k < length xs \<longrightarrow> x \<le> xs ! k)"
        by (rule "1.IH"(2)) (use True ge h "1.prems" mono [of ?h] in \<open>auto intro: order_trans simp: not_less\<close>)
      then show ?thesis using True ge by (simp add: bsearch_loop.simps [of xs x i j] Let_def)
    qed
  qed
qed

lemma binary_search_iff: "sorted xs \<Longrightarrow> snd (binary_search xs x) \<longleftrightarrow> x \<in> set xs"
proof -
  assume s: "sorted xs"
  let ?r = "bsearch_loop xs x 0 (length xs)"
  have r: "\<forall>k < ?r. xs ! k < x" "\<forall>k. ?r \<le> k \<and> k < length xs \<longrightarrow> x \<le> xs ! k"
    using bsearch_loop_spec [OF s, of 0 "length xs" x] by (simp_all add: Let_def)
  have "xs ! ?r = x \<and> ?r < length xs" if k: "k < length xs" "xs ! k = x" for k
  proof -
    have "?r \<le> k" using r(1) k by (metis less_irrefl not_less)
    moreover from this have "xs ! ?r \<le> x" using sorted_nth_mono [OF s, of ?r k] k by simp
    ultimately show ?thesis using r(2) k by (meson le_less_trans order_antisym order_refl)
  qed
  then show ?thesis by (auto simp: binary_search_def Let_def in_set_conv_nth)
qed

end
