(* ===== verification/PullStats.thy ===== *)
theory PullStats
  imports PullSync
begin

text \<open>
  The counts a pull reports: every manifest entry is staged exactly once, as a download, a
  reuse, a link or a copy, so the counts of a success add up to the entries of the manifest,
  and the resumed downloads are among the downloads.
\<close>

definition staged_count :: "counters \<Rightarrow> nat" where
  "staged_count c = c_downloaded c + c_linked c + c_copied c + c_reused c"

lemma stage_entry_counts:
  assumes "stage_entry E s partial j c w = ((None, c'), w')"
  shows "staged_count c' = Suc (staged_count c)" "c_resumed c \<le> c_downloaded c \<Longrightarrow> c_resumed c' \<le> c_downloaded c'"
  using assms
  by (auto simp: stage_entry_def Let_def staged_count_def split: option.splits prod.splits action.splits sum.splits if_splits)

lemma stage_jobs_counts:
  assumes "stage_jobs E s partial js c w = ((None, c'), w')"
  shows "staged_count c' = staged_count c + length js \<and> (c_resumed c \<le> c_downloaded c \<longrightarrow> c_resumed c' \<le> c_downloaded c')"
  using assms
proof (induction js arbitrary: c w)
  case (Cons j js)
  obtain e c1 w1 where 1: "stage_entry E s partial j c w = ((e, c1), w1)" by (metis prod.collapse)
  obtain e2 c2 w2 where 2: "stage_jobs E s partial js c1 w1 = ((e2, c2), w2)" by (metis prod.collapse)
  have e: "e = None" "e2 = None" "c2 = c'" "w2 = w'" using Cons.prems 1 2 by (auto split: if_splits)
  from Cons.IH [OF 2 [unfolded e]] stage_entry_counts [OF 1 [unfolded e]] show ?case by simp
qed simp

lemma plan_jobs_length:
  "plan_jobs P client m live partial fs claimed = Inr (loc, rem) \<Longrightarrow> length loc + length rem = length fs"
  by (induction fs arbitrary: claimed loc rem) (auto simp: Let_def split: sum.splits prod.splits if_splits)

lemma stage_counts:
  assumes o: "\<And>js. length (sy_order s js) = length js" and run: "stage E s m live partial w = (Inr st, w')"
  shows "st_downloaded st + st_linked st + st_copied st + st_reused st = length (files_of m) \<and> st_resumed st \<le> st_downloaded st"
proof -
  obtain loc rem where p: "plan_jobs (plat E) (sy_client s) m live partial (files_of m) [] = Inr (loc, rem)"
    using run by (auto simp: stage_def split: sum.splits)
  obtain w1 where 1: "make_staging E s w = (None, w1)"
    using run p by (auto simp: stage_def split: sum.splits prod.splits option.splits)
  obtain c2 w2 where 2: "stage_all E s partial loc no_counts w1 = ((None, c2), w2)"
    using run p 1 by (auto simp: stage_def split: sum.splits prod.splits option.splits)
  obtain w3 where 3: "drop_partial E s (adopt_prefixes E s rem w2) = (None, w3)"
    using run p 1 2 by (auto simp: stage_def split: sum.splits prod.splits option.splits)
  obtain c4 w4 where 4: "stage_all E s partial rem c2 w3 = ((None, c4), w4)"
    using run p 1 2 3 by (auto simp: stage_def split: sum.splits prod.splits option.splits)
  have st: "st = stats_of c4"
    using run p 1 2 3 4 by (auto simp: stage_def split: sum.splits prod.splits option.splits)
  have "staged_count c2 = length loc \<and> c_resumed c2 \<le> c_downloaded c2"
    using stage_jobs_counts [OF 2 [unfolded stage_all_def]] by (simp add: o staged_count_def no_counts_def)
  moreover have "staged_count c4 = staged_count c2 + length rem \<and> (c_resumed c2 \<le> c_downloaded c2 \<longrightarrow> c_resumed c4 \<le> c_downloaded c4)"
    using stage_jobs_counts [OF 4 [unfolded stage_all_def]] by (simp add: o)
  ultimately show ?thesis using plan_jobs_length [OF p] by (simp add: st stats_of_def staged_count_def)
qed

text \<open>Counts that add up, and name the manifest's number of entries.\<close>

definition adds_up :: "platform \<Rightarrow> pull_result \<Rightarrow> bool" where
  "adds_up P res \<longleftrightarrow>
     (let st = pr_stats res
      in st_downloaded st + st_linked st + st_copied st + st_reused st = st_total st \<and> st_resumed st \<le> st_downloaded st \<and>
         (\<exists>m. decode P (pr_manifest res) = Inr m \<and> st_total st = length (files_of m)))"

lemma replace_counts:
  assumes "\<And>js. length (sy_order s js) = length js" "decode (plat E) raw = Inr m" "replace E s raw m w = (Inr res, w')"
  shows "adds_up (plat E) res"
proof -
  obtain live index w1 st w2 where st: "stage E s m live index w1 = (Inr st, w2)"
    and res: "res = \<lparr>pr_stats = st\<lparr>st_total := length (files_of m)\<rparr>, pr_manifest = raw\<rparr>"
    using assms(3) by (auto simp: replace_def give_up_def split: option.splits sum.splits prod.splits)
  from stage_counts [OF assms(1) st] assms(2) show ?thesis by (simp add: adds_up_def Let_def res)
qed

lemma sync_once_counts:
  assumes "\<And>js. length (sy_order s js) = length js" "sync_once E get s w = (Inr res, w')"
  shows "adds_up (plat E) res"
proof -
  obtain raw m w1 where f: "fetch_manifest get (plat E) s w = (Inr (raw, m), w1)" and r: "replace E s raw m w1 = (Inr res, w')"
    using assms(2) by (auto simp: sync_once_def split: sum.splits prod.splits)
  have "decode (plat E) raw = Inr m"
    using f by (auto simp: fetch_manifest_def Let_def split: sum.splits prod.splits if_splits)
  then show ?thesis by (rule replace_counts [OF assms(1) _ r])
qed

lemma pull_attempts_counts:
  assumes "\<And>js. length (sy_order s js) = length js" "pull_attempts E get s n first p w = (Inr res, w')"
  shows "adds_up (plat E) res"
  using assms(2)
proof (induction n arbitrary: first p w)
  case (Suc n)
  obtain e w1 where 1: "(if first then (None, w) else sleep_ctx E w) = (e, w1)" by fastforce
  with Suc.prems have e: "e = None" by (auto split: option.splits)
  obtain r w2 where 2: "sync_once E get s w1 = (r, w2)" by fastforce
  show ?case
  proof (cases r)
    case (Inr res')
    with Suc.prems 1 2 e have "res' = res" "w2 = w'" by auto
    with 2 Inr have "sync_once E get s w1 = (Inr res, w')" by simp
    from sync_once_counts [OF assms(1) this] show ?thesis .
  next
    case (Inl x)
    then show ?thesis using Suc.prems 1 2 e Suc.IH by (auto split: prod.splits option.splits)
  qed
qed simp

lemma pull_counts:
  assumes o: "\<And>js. length (order js) = length js" and run: "pull_with_manifest E order get bucket pre dest opts w = (Inr res, w')"
  shows "adds_up (plat E) res"
proof -
  obtain s0 where n: "new_syncer order dest opts = Inr s0" using run by (cases "new_syncer order dest opts") (auto simp: pull_with_manifest_def)
  obtain k w1 where a: "pull_attempts E get (s3_syncer E get bucket pre s0) k True [] w1 = (Inr res, w')"
    using run n by (auto simp: pull_with_manifest_def Let_def split: prod.splits option.splits)
  show ?thesis
    by (rule pull_attempts_counts [OF _ a]) (simp add: s3_syncer_def new_syncer_Inr(5) [OF n] o)
qed

end
