(* ===== verification/Cli.thy ===== *)
theory Cli
  imports AwsClient GoFlag PullStats PullDry Push Prune
begin

text \<open>
  \<open>cmd/pinsync/main.go\<close>: the command line, from \<open>parseArgs\<close> to the printed summary. What is
  written to standard error is a list of pieces, of which the flag package's list of flags
  stays symbolic; errors keep their format and arguments. \<open>regexp.Compile\<close> and
  \<open>time.ParseDuration\<close>, the S3 client and the way a directory argument names a path are
  arguments (\<open>services\<close>).
\<close>

section \<open>Usage\<close>

definition subcommands :: "(string \<times> string \<times> string) list" where
  "subcommands =
     [(''push'', ''<root>'', ''publish root to s3://B/<prefix>''),
      (''pull'', ''<dest>'', ''mirror s3://B/<prefix> into dest''),
      (''prune'', [], ''delete unreferenced objects under s3://B/<prefix>'')]"

text \<open>\<open>strings.TrimSpace\<close> of ASCII text.\<close>

definition trim_space :: "string \<Rightarrow> string" where
  "trim_space s = rev (dropWhile (\<lambda>c. c = CHR '' '') (rev (dropWhile (\<lambda>c. c = CHR '' '') s)))"

definition synopsis :: "string \<Rightarrow> string \<Rightarrow> string" where
  "synopsis name arg = trim_space (''pinsync '' @ name @ '' -bucket B [flags] '' @ arg)"

definition nl :: string where "nl = [CHR 0x0A]"

definition usage_line :: "string \<Rightarrow> string \<Rightarrow> string" where
  "usage_line left right = ''  '' @ left @ replicate (40 - length left) CHR '' '' @ '' '' @ right @ nl"

definition usage :: string where
  "usage =
     ''usage:'' @ nl @ concat (map (\<lambda>(name, arg, summary). usage_line (synopsis name arg) summary) subcommands) @
     usage_line ''pinsync version'' ''print the pinsync version and exit'' @
     nl @ ''run \"pinsync <command> -h\" for a command'' @ [CHR 0x27] @ ''s flags''"

datatype piece = Text string | Error_text gerr | Flag_list string

definition subcommand_usage :: "string \<Rightarrow> piece list" where
  "subcommand_usage name =
     concat (map (\<lambda>(n, arg, summary).
       if n \<noteq> name then []
       else [Text (''usage: '' @ synopsis n arg @ nl @ nl @ summary @ nl @ nl @
               (if arg \<noteq> [] then ''flags must come before '' @ arg @ nl @ nl else []) @ ''flags:'' @ nl), Flag_list n]) subcommands)"

definition version :: string where "version = ''0.5.2''"

section \<open>The command line\<close>

record cli =
  c_sub :: string
  c_bucket :: string
  c_prefix :: string
  c_region :: string
  c_endpoint :: string
  c_parallel :: int
  c_dir :: string
  c_manifest_key :: string
  c_full :: bool
  c_dry_run :: bool
  c_adopt :: bool
  c_min_age :: int
  c_apply :: bool
  c_log_level :: string
  c_log_format :: string
  c_log_level_val :: int
  c_ra_trust_anchor :: string
  c_ra_profile :: string
  c_ra_role :: string
  c_ra_cert_pattern :: string
  c_ra_cert_field :: string
  c_ra_cert_store :: string
  c_ra_mode :: bool
  c_ra_regex :: "regex option"
  c_ra_field :: cert_field
  c_ra_store :: store_loc

text \<open>\<open>&cli{sub: sub}\<close>.\<close>

definition zero_cli :: "string \<Rightarrow> cli" where
  "zero_cli sub =
     \<lparr>c_sub = sub, c_bucket = [], c_prefix = [], c_region = [], c_endpoint = [], c_parallel = 0, c_dir = [], c_manifest_key = [],
      c_full = False, c_dry_run = False, c_adopt = False, c_min_age = 0, c_apply = False, c_log_level = [], c_log_format = [],
      c_log_level_val = 0, c_ra_trust_anchor = [], c_ra_profile = [], c_ra_role = [], c_ra_cert_pattern = [],
      c_ra_cert_field = [], c_ra_cert_store = [], c_ra_mode = False, c_ra_regex = None, c_ra_field = Field_subject,
      c_ra_store = Store_user\<rparr>"

definition pos_arg_name :: "string \<Rightarrow> string" where
  "pos_arg_name sub = (if sub = ''pull'' then ''destination directory'' else ''root directory'')"

text \<open>\<open>registerFlags\<close>: the defaults it stores, and the flags it binds.\<close>

definition default_flags :: "cli \<Rightarrow> cli" where
  "default_flags c =
     (let c = c\<lparr>c_bucket := [], c_prefix := [], c_manifest_key := [], c_parallel := 16, c_region := [], c_endpoint := [],
                c_log_level := ''info'', c_log_format := ''text''\<rparr>;
          c = (if c_sub c = ''push'' then c\<lparr>c_dry_run := False, c_full := False, c_adopt := False\<rparr> else c);
          c = (if c_sub c = ''pull''
               then c\<lparr>c_dry_run := False, c_ra_trust_anchor := [], c_ra_profile := [], c_ra_role := [], c_ra_cert_pattern := [],
                      c_ra_cert_field := ''subject'', c_ra_cert_store := ''user''\<rparr>
               else c)
      in if c_sub c = ''prune'' then c\<lparr>c_min_age := 24 * 60 * 60 * 1000000000, c_apply := False\<rparr> else c)"

definition register_flags :: "(string \<Rightarrow> int option) \<Rightarrow> string \<Rightarrow> cli flags" where
  "register_flags dur sub =
     [(''bucket'', string_flag (\<lambda>v c. c\<lparr>c_bucket := v\<rparr>)),
      (''prefix'', string_flag (\<lambda>v c. c\<lparr>c_prefix := v\<rparr>)),
      (''manifest-key'', string_flag (\<lambda>v c. c\<lparr>c_manifest_key := v\<rparr>)),
      (''parallel'', int_flag (\<lambda>v c. c\<lparr>c_parallel := v\<rparr>)),
      (''region'', string_flag (\<lambda>v c. c\<lparr>c_region := v\<rparr>)),
      (''endpoint-url'', string_flag (\<lambda>v c. c\<lparr>c_endpoint := v\<rparr>)),
      (''log-level'', string_flag (\<lambda>v c. c\<lparr>c_log_level := v\<rparr>)),
      (''log-format'', string_flag (\<lambda>v c. c\<lparr>c_log_format := v\<rparr>))] @
     (if sub = ''push''
      then [(''dry-run'', bool_flag (\<lambda>v c. c\<lparr>c_dry_run := v\<rparr>)),
            (''full'', bool_flag (\<lambda>v c. c\<lparr>c_full := v\<rparr>)),
            (''adopt'', bool_flag (\<lambda>v c. c\<lparr>c_adopt := v\<rparr>))]
      else []) @
     (if sub = ''pull''
      then [(''dry-run'', bool_flag (\<lambda>v c. c\<lparr>c_dry_run := v\<rparr>)),
            (''ra-trust-anchor-arn'', string_flag (\<lambda>v c. c\<lparr>c_ra_trust_anchor := v\<rparr>)),
            (''ra-profile-arn'', string_flag (\<lambda>v c. c\<lparr>c_ra_profile := v\<rparr>)),
            (''ra-role-arn'', string_flag (\<lambda>v c. c\<lparr>c_ra_role := v\<rparr>)),
            (''ra-cert-pattern'', string_flag (\<lambda>v c. c\<lparr>c_ra_cert_pattern := v\<rparr>)),
            (''ra-cert-field'', string_flag (\<lambda>v c. c\<lparr>c_ra_cert_field := v\<rparr>)),
            (''ra-cert-store'', string_flag (\<lambda>v c. c\<lparr>c_ra_cert_store := v\<rparr>))]
      else []) @
     (if sub = ''prune''
      then [(''min-age'', duration_flag dur (\<lambda>v c. c\<lparr>c_min_age := v\<rparr>)),
            (''apply'', bool_flag (\<lambda>v c. c\<lparr>c_apply := v\<rparr>))]
      else [])"

definition parse_positional :: "cli \<Rightarrow> string list \<Rightarrow> cli res" where
  "parse_positional c args =
     (if c_sub c = ''prune'' then
        (case args of
           [] \<Rightarrow> Inr c
         | a # _ \<Rightarrow> Inl (E_new ''prune takes no positional argument, got %q'' [a]))
      else
        (case args of
           [a] \<Rightarrow> Inr (c\<lparr>c_dir := a\<rparr>)
         | _ \<Rightarrow> Inl (E_new ''expected exactly one positional argument: the %s'' [pos_arg_name (c_sub c)])))"

fun late_flag :: "string \<Rightarrow> string list \<Rightarrow> gerr option" where
  "late_flag head [] = None"
| "late_flag head (a # args) =
     (if length a > 1 \<and> hd a = CHR ''-''
      then Some (E_new ''flag %s follows %q; flags must come before it'' [a, head])
      else late_flag head args)"

definition check_usage :: "cli \<Rightarrow> string list \<Rightarrow> cli res" where
  "check_usage c rest =
     (case (case rest of [] \<Rightarrow> None | a # others \<Rightarrow> late_flag a others) of
        Some e \<Rightarrow> Inl e
      | None \<Rightarrow>
          if c_bucket c = [] then Inl (E_new ''-bucket is required'' [])
          else parse_positional c rest)"

definition parse_log_level :: "string \<Rightarrow> int res" where
  "parse_log_level s =
     (if s = ''debug'' then Inr (- 4)
      else if s = ''info'' then Inr 0
      else if s = ''warn'' then Inr 4
      else if s = ''error'' then Inr 8
      else Inl (E_new ''invalid -log-level %q: want debug|info|warn|error'' [s]))"

definition missing_ra :: "cli \<Rightarrow> string list" where
  "missing_ra c =
     (if c_ra_trust_anchor c = [] then [''-ra-trust-anchor-arn''] else []) @
     (if c_ra_profile c = [] then [''-ra-profile-arn''] else []) @
     (if c_ra_role c = [] then [''-ra-role-arn''] else []) @
     (if c_ra_cert_pattern c = [] then [''-ra-cert-pattern''] else [])"

definition parse_ra_flags :: "(string \<Rightarrow> regex res) \<Rightarrow> cli \<Rightarrow> string list \<Rightarrow> cli res" where
  "parse_ra_flags compile c actual =
     (if \<not> list_ex (\<lambda>name. prefix ''ra-'' name) actual then Inr c
      else
        (let c = c\<lparr>c_ra_mode := True\<rparr>
         in if missing_ra c \<noteq> []
            then Inl (E_new ''IAM Roles Anywhere requires: %s'' [join_with '', '' (missing_ra c)])
            else
              (case compile (c_ra_cert_pattern c) of
                 Inl e \<Rightarrow> Inl (E_wrap ''invalid -ra-cert-pattern %q: %w'' [c_ra_cert_pattern c] [e])
               | Inr re \<Rightarrow>
                   (case parse_cert_field (c_ra_cert_field c) of
                      Inl e \<Rightarrow> Inl e
                    | Inr f \<Rightarrow>
                        (case parse_store_loc (c_ra_cert_store c) of
                           Inl e \<Rightarrow> Inl e
                         | Inr l \<Rightarrow> Inr (c\<lparr>c_ra_regex := Some re, c_ra_field := f, c_ra_store := l\<rparr>))))))"

definition parse_args ::
  "(string \<Rightarrow> regex res) \<Rightarrow> (string \<Rightarrow> int option) \<Rightarrow> string list \<Rightarrow> cli res \<times> piece list" where
  "parse_args compile dur args =
     (case args of
        [] \<Rightarrow> (Inl (E_new (''missing subcommand'' @ nl @ usage) []), [])
      | sub # others \<Rightarrow>
          if sub \<noteq> ''push'' \<and> sub \<noteq> ''pull'' \<and> sub \<noteq> ''prune''
          then (Inl (E_new (''unknown subcommand %q'' @ nl @ ''%s'') [sub, usage]), [])
          else
            (case parse_flags (register_flags dur sub) others (default_flags (zero_cli sub)) [] of
               Flags_help \<Rightarrow> (Inl err_help, subcommand_usage sub)
             | Flags_fail e \<Rightarrow> (Inl e, Error_text e # Text nl # subcommand_usage sub)
             | Flags_ok c actual rest \<Rightarrow>
                 ((case check_usage c rest of
                     Inl e \<Rightarrow> Inl (E_wrap (''%w'' @ nl @ ''run \"pinsync %s -h\" for usage'') [sub] [e])
                   | Inr c \<Rightarrow>
                       if c_adopt c \<and> c_full c then Inl (E_new ''-adopt and -full are mutually exclusive'' [])
                       else
                         (case parse_log_level (c_log_level c) of
                            Inl e \<Rightarrow> Inl e
                          | Inr lvl \<Rightarrow>
                              if c_log_format c \<noteq> ''text'' \<and> c_log_format c \<noteq> ''json''
                              then Inl (E_new ''invalid -log-format %q: want text|json'' [c_log_format c])
                              else parse_ra_flags compile (c\<lparr>c_log_level_val := lvl\<rparr>) actual)), [])))"

section \<open>Reports\<close>

definition d_nat :: "nat \<Rightarrow> string" where "d_nat n = dec_digits n"

definition s3_dest :: "string \<Rightarrow> string \<Rightarrow> string" where
  "s3_dest bucket pre = ''s3://'' @ bucket @ ''/'' @ pre"

definition up_to_date :: "nat \<Rightarrow> string \<Rightarrow> string" where
  "up_to_date n dest = ''up to date: '' @ d_nat n @ '' files unchanged at '' @ dest"

definition pull_report :: "stats \<Rightarrow> string" where
  "pull_report s =
     ''pulled '' @ d_nat (st_total s) @ '' files: '' @ d_nat (st_downloaded s) @ '' downloaded ('' @ d_nat (st_resumed s) @
     '' resumed), '' @ d_nat (st_reused s) @ '' reused, '' @ d_nat (st_linked s) @ '' linked, '' @ d_nat (st_copied s) @ '' copied''"

definition push_summary :: "push_stats \<Rightarrow> string \<Rightarrow> string \<Rightarrow> string" where
  "push_summary s bucket pre =
     (let dest = s3_dest bucket pre
      in if pt_uploaded s = 0 then up_to_date (pt_total s) dest
         else if pt_repaired s > 0
         then ''pushed '' @ d_nat (pt_uploaded s) @ '' of '' @ d_nat (pt_total s) @ '' files ('' @ d_nat (pt_repaired s) @
              '' repaired, '' @ d_nat (pt_skipped s) @ '' unchanged) to '' @ dest
         else ''pushed '' @ d_nat (pt_uploaded s) @ '' of '' @ d_nat (pt_total s) @ '' files ('' @ d_nat (pt_skipped s) @
              '' unchanged) to '' @ dest)"

definition adopt_summary :: "push_stats \<Rightarrow> string \<Rightarrow> string \<Rightarrow> string" where
  "adopt_summary s bucket pre =
     ''adopted: published manifest for '' @ d_nat (pt_total s) @ '' files to '' @ s3_dest bucket pre @ '' (no content uploaded)''"

definition lines_of :: "string \<Rightarrow> string list \<Rightarrow> string" where
  "lines_of verb ps = concat (map (\<lambda>p. ''would '' @ verb @ '' '' @ p @ nl) ps)"

definition upload_verb :: "push_plan \<Rightarrow> string \<Rightarrow> string" where
  "upload_verb p path = (if snd (binary_search (pn_repair p) path) then ''repair'' else ''upload'')"

definition dry_run_report :: "push_plan \<Rightarrow> string \<Rightarrow> string \<Rightarrow> string" where
  "dry_run_report p bucket pre =
     (let dest = s3_dest bucket pre
      in if pn_manifest_only p
         then ''would adopt: publish manifest describing '' @ d_nat (pn_total p) @ '' files to '' @ dest @ '' (no content uploaded)''
         else if pn_upload p = [] \<and> pn_orphan p = [] then up_to_date (pn_total p) dest
         else
           concat (map (\<lambda>path. ''would '' @ upload_verb p path @ '' '' @ path @ nl) (pn_upload p)) @
           lines_of ''orphan'' (pn_orphan p) @
           ''dry-run: '' @ d_nat (length (pn_upload p)) @ '' would upload'' @
           (if pn_repair p \<noteq> [] then '' ('' @ d_nat (length (pn_repair p)) @ '' to repair)'' else []) @ '', '' @
           d_nat (pn_unchanged p) @ '' unchanged, '' @ d_nat (length (pn_orphan p)) @ '' orphaned of '' @ d_nat (pn_total p) @
           '' files at '' @ dest)"

definition pull_dry_run_report :: "pull_plan \<Rightarrow> string \<Rightarrow> string" where
  "pull_dry_run_report p dest =
     (if pl_download p = [] \<and> pl_copy p = [] \<and> pl_remove p = [] then up_to_date (pl_total p) dest
      else
        lines_of ''download'' (pl_download p) @ lines_of ''copy'' (pl_copy p) @ lines_of ''remove'' (pl_remove p) @
        ''dry-run: would pull '' @ d_nat (pl_total p) @ '' files: '' @ d_nat (length (pl_download p)) @ '' download, '' @
        d_nat (length (pl_copy p)) @ '' copy, '' @ d_nat (pl_linked p) @ '' unchanged; '' @ d_nat (length (pl_remove p)) @
        '' would be removed'')"

definition nothing_to_prune :: "nat \<Rightarrow> string \<Rightarrow> nat \<Rightarrow> nat \<Rightarrow> string" where
  "nothing_to_prune listed dest referenced protected =
     ''nothing to prune: '' @ d_nat listed @ '' objects at '' @ dest @ '' ('' @ d_nat referenced @ '' referenced, '' @
     d_nat protected @ '' protected)''"

definition prune_dry_run_report :: "prune_plan \<Rightarrow> string \<Rightarrow> string \<Rightarrow> string" where
  "prune_dry_run_report p bucket pre =
     (let dest = s3_dest bucket pre
      in if pp_delete p = [] then nothing_to_prune (pp_listed p) dest (pp_referenced p) (pp_protected p)
         else
           lines_of ''delete'' (pp_delete p) @
           ''prune: would delete '' @ d_nat (length (pp_delete p)) @ '' of '' @ d_nat (pp_listed p) @ '' objects ('' @
           d_nat (pp_referenced p) @ '' referenced, '' @ d_nat (pp_protected p) @ '' protected by -min-age) at '' @ dest)"

definition prune_summary :: "prune_stats \<Rightarrow> string \<Rightarrow> string \<Rightarrow> string" where
  "prune_summary s bucket pre =
     (let dest = s3_dest bucket pre
      in if ps_deleted s = 0 then nothing_to_prune (ps_listed s) dest (ps_referenced s) (ps_protected s)
         else
           ''pruned: deleted '' @ fmt_int (ps_deleted s) @ '' of '' @ d_nat (ps_listed s) @ '' objects ('' @
           d_nat (ps_referenced s) @ '' referenced, '' @ d_nat (ps_protected s) @ '' protected by -min-age) at '' @ dest)"

section \<open>Running\<close>

text \<open>What the command is run with: the file system, the orders of the worker pools, the path a
  directory argument names, the clock, and the services that are not part of the repository.\<close>

record ('c, 's) services =
  sv_os :: os_env
  sv_jobs :: "job list \<Rightarrow> job list"
  sv_files :: "mfile list \<Rightarrow> mfile list"
  sv_path :: "string \<Rightarrow> fpath"
  sv_now :: int
  sv_compile :: "string \<Rightarrow> regex res"
  sv_duration :: "string \<Rightarrow> int option"
  sv_client :: "session_config \<Rightarrow> 's \<Rightarrow> 'c res \<times> 's"
  sv_get :: "'c \<Rightarrow> 's get_fn"
  sv_head :: "'c \<Rightarrow> 's head_fn"
  sv_put :: "'c \<Rightarrow> 's put_fn"
  sv_pages :: "'c \<Rightarrow> 's pages_fn"
  sv_delete :: "'c \<Rightarrow> 's delete_fn"

definition on_client :: "('s \<Rightarrow> 'a \<times> 's) \<Rightarrow> 's world \<Rightarrow> 'a \<times> 's world" where
  "on_client f w = (case f (w_s3 w) of (r, s) \<Rightarrow> (r, w\<lparr>w_s3 := s\<rparr>))"

definition pull_options_of :: "cli \<Rightarrow> 's options" where
  "pull_options_of c =
     \<lparr>op_parallel = c_parallel c, op_manifest_key = c_manifest_key c, op_before = None, op_max_manifest = 0, op_max_content = 0,
      op_mismatch_retries = 0, op_swap_retries = 0\<rparr>"

definition execute_push :: "('c, 's) services \<Rightarrow> cli \<Rightarrow> 'c \<Rightarrow> 's world \<Rightarrow> string res \<times> 's world" where
  "execute_push sv c cl w =
     (let opts = \<lparr>pu_parallel = c_parallel c, pu_manifest_key = c_manifest_key c, pu_full = c_full c, pu_adopt = c_adopt c\<rparr>;
          root = sv_path sv (c_dir c)
      in if c_dry_run c
         then and_then (push_dry_run (sv_os sv) (sv_get sv cl) (sv_head sv cl) (c_bucket c) (c_prefix c) root opts w)
                (\<lambda>plan w. (Inr (dry_run_report plan (c_bucket c) (c_prefix c)), w))
         else and_then (push (sv_os sv) (sv_files sv) (sv_get sv cl) (sv_head sv cl) (sv_put sv cl) (c_bucket c) (c_prefix c) root opts w)
                (\<lambda>st w. (Inr (if c_adopt c then adopt_summary st (c_bucket c) (c_prefix c)
                              else push_summary st (c_bucket c) (c_prefix c)), w)))"

definition execute_prune :: "('c, 's) services \<Rightarrow> cli \<Rightarrow> 'c \<Rightarrow> 's world \<Rightarrow> string res \<times> 's world" where
  "execute_prune sv c cl w =
     (let opts = \<lparr>po_manifest_key = c_manifest_key c, po_min_age = c_min_age c\<rparr>; P = plat (sv_os sv)
      in if \<not> c_apply c
         then and_then (on_client (prune_dry_run P (sv_now sv) (sv_get sv cl) (sv_pages sv cl) (c_bucket c) (c_prefix c) opts) w)
                (\<lambda>plan w. (Inr (prune_dry_run_report plan (c_bucket c) (c_prefix c)), w))
         else
           (case on_client (prune P (sv_now sv) (sv_get sv cl) (sv_pages sv cl) (sv_delete sv cl) (c_bucket c) (c_prefix c) opts) w of
              ((st, Some e), w) \<Rightarrow> (Inl e, w)
            | ((st, None), w) \<Rightarrow> (Inr (prune_summary st (c_bucket c) (c_prefix c)), w)))"

definition execute :: "('c, 's) services \<Rightarrow> cli \<Rightarrow> 'c \<Rightarrow> 's world \<Rightarrow> string res \<times> 's world" where
  "execute sv c cl w =
     (if c_sub c = ''push'' then execute_push sv c cl w
      else if c_sub c = ''prune'' then execute_prune sv c cl w
      else if c_dry_run c
      then and_then (pull_dry_run (sv_os sv) (sv_get sv cl) (c_bucket c) (c_prefix c) (sv_path sv (c_dir c)) (pull_options_of c) w)
             (\<lambda>plan w. (Inr (pull_dry_run_report plan (c_dir c)), w))
      else and_then (pull (sv_os sv) (sv_jobs sv) (sv_get sv cl) (c_bucket c) (c_prefix c) (sv_path sv (c_dir c)) (pull_options_of c) w)
             (\<lambda>st w. (Inr (pull_report st), w)))"

definition session_of :: "cli \<Rightarrow> session_config" where
  "session_of c =
     \<lparr>cf_region = c_region c, cf_endpoint = c_endpoint c,
      cf_ra = (if c_ra_mode c
               then map_option (\<lambda>re. \<lparr>rc_anchor = c_ra_trust_anchor c, rc_profile = c_ra_profile c, rc_role = c_ra_role c,
                      rc_pattern = re, rc_field = c_ra_field c, rc_store = c_ra_store c\<rparr>) (c_ra_regex c)
               else None)\<rparr>"

record outcome =
  oc_err :: "gerr option"
  oc_out :: "string list"
  oc_log :: "piece list"

definition run_command :: "('c, 's) services \<Rightarrow> cli \<Rightarrow> 's world \<Rightarrow> string res \<times> 's world" where
  "run_command sv c w =
     and_then (s3_call (sv_client sv) (session_of c) w) (\<lambda>cl w. execute sv c cl w)"

definition run :: "('c, 's) services \<Rightarrow> string list \<Rightarrow> 's world \<Rightarrow> outcome \<times> 's world" where
  "run sv args w =
     (let parse = parse_args (sv_compile sv) (sv_duration sv);
          go = (case parse args of
                  (Inl e, log) \<Rightarrow> (\<lparr>oc_err = Some e, oc_out = [], oc_log = log\<rparr>, w)
                | (Inr c, log) \<Rightarrow>
                    (case run_command sv c w of
                       (Inl e, w) \<Rightarrow> (\<lparr>oc_err = Some e, oc_out = [], oc_log = log\<rparr>, w)
                     | (Inr summary, w) \<Rightarrow> (\<lparr>oc_err = None, oc_out = [summary], oc_log = log\<rparr>, w)))
      in case args of
           [] \<Rightarrow> go
         | a # others \<Rightarrow>
             if a = ''version'' then (\<lparr>oc_err = None, oc_out = [version], oc_log = []\<rparr>, w)
             else if a \<in> set [''-h'', ''-help'', ''--help'', ''help''] then
               (case others of
                  b # _ \<Rightarrow>
                    (case parse [b, ''-h''] of
                       (r, log) \<Rightarrow> (\<lparr>oc_err = (case r of Inl e \<Rightarrow> Some e | Inr _ \<Rightarrow> None), oc_out = [], oc_log = log\<rparr>, w))
                | [] \<Rightarrow> (\<lparr>oc_err = None, oc_out = [], oc_log = [Text usage, Text nl]\<rparr>, w))
             else go)"

text \<open>\<open>main\<close>: the exit status, and what it adds to standard error.\<close>

definition exit_status :: "outcome \<Rightarrow> nat \<times> piece list" where
  "exit_status oc =
     (case oc_err oc of
        None \<Rightarrow> (0, [])
      | Some e \<Rightarrow> if errors_is e err_help then (0, []) else (1, [Text ''pinsync: '', Error_text e, Text nl]))"

end
