(* ===== verification/CliFacts.thy ===== *)
theory CliFacts
  imports Cli
begin

text \<open>
  What the command line promises: an accepted command line is complete and free of
  contradictions (\<open>cli_ok\<close>), a preview neither writes a file nor calls a writing operation of
  the client, \<open>--\<close> passes any directory name, and the lines of a push preview say \<open>repair\<close>
  for exactly the files to repair.
\<close>

section \<open>Accepted command lines\<close>

text \<open>What every flag's setter preserves: each subcommand only sets its own fields.\<close>

definition own_fields :: "string \<Rightarrow> cli \<Rightarrow> bool" where
  "own_fields sub c \<longleftrightarrow>
     c_sub c = sub \<and> c_dir c = [] \<and> \<not> c_ra_mode c \<and> c_ra_regex c = None \<and> is_int64 (c_parallel c) \<and>
     (sub \<noteq> ''push'' \<longrightarrow> \<not> c_full c \<and> \<not> c_adopt c) \<and> (sub = ''prune'' \<longrightarrow> \<not> c_dry_run c) \<and>
     (sub \<noteq> ''prune'' \<longrightarrow> \<not> c_apply c \<and> c_min_age c = 0)"

text \<open>The Roles Anywhere fields as they are when no \<open>-ra-*\<close> flag was given.\<close>

definition ra_unset :: "cli \<Rightarrow> bool" where
  "ra_unset c \<longleftrightarrow>
     c_ra_trust_anchor c = [] \<and> c_ra_profile c = [] \<and> c_ra_role c = [] \<and> c_ra_cert_pattern c = [] \<and>
     c_ra_cert_field c = (if c_sub c = ''pull'' then ''subject'' else []) \<and>
     c_ra_cert_store c = (if c_sub c = ''pull'' then ''user'' else [])"

definition ra_flag :: "string \<Rightarrow> bool" where
  "ra_flag name \<longleftrightarrow> prefix ''ra-'' name"

definition ra_ok :: "(string \<Rightarrow> regex res) \<Rightarrow> cli \<Rightarrow> bool" where
  "ra_ok compile c \<longleftrightarrow>
     (if c_ra_mode c
      then c_sub c = ''pull'' \<and> c_ra_trust_anchor c \<noteq> [] \<and> c_ra_profile c \<noteq> [] \<and> c_ra_role c \<noteq> [] \<and>
        (\<exists>re. compile (c_ra_cert_pattern c) = Inr re \<and> c_ra_regex c = Some re) \<and>
        c_ra_cert_field c = field_string (c_ra_field c) \<and> c_ra_cert_store c = store_string (c_ra_store c)
      else c_ra_regex c = None \<and> ra_unset c)"

definition cli_ok :: "(string \<Rightarrow> regex res) \<Rightarrow> cli \<Rightarrow> bool" where
  "cli_ok compile c \<longleftrightarrow>
     c_sub c \<in> {''push'', ''pull'', ''prune''} \<and> c_bucket c \<noteq> [] \<and> is_int64 (c_parallel c) \<and>
     \<not> (c_adopt c \<and> c_full c) \<and> (c_sub c \<noteq> ''push'' \<longrightarrow> \<not> c_full c \<and> \<not> c_adopt c) \<and>
     (c_sub c = ''prune'' \<longrightarrow> \<not> c_dry_run c \<and> c_dir c = []) \<and> (c_sub c \<noteq> ''prune'' \<longrightarrow> \<not> c_apply c \<and> c_min_age c = 0) \<and>
     parse_log_level (c_log_level c) = Inr (c_log_level_val c) \<and> c_log_format c \<in> {''text'', ''json''} \<and> ra_ok compile c"

lemma default_own: "own_fields sub (default_flags (zero_cli sub))"
  by (simp add: own_fields_def default_flags_def zero_cli_def is_int64_def Let_def)

lemma own_updates:
  "own_fields sub (c\<lparr>c_bucket := v0\<rparr>) = own_fields sub c"
  "own_fields sub (c\<lparr>c_prefix := v1\<rparr>) = own_fields sub c"
  "own_fields sub (c\<lparr>c_manifest_key := v2\<rparr>) = own_fields sub c"
  "own_fields sub (c\<lparr>c_region := v3\<rparr>) = own_fields sub c"
  "own_fields sub (c\<lparr>c_endpoint := v4\<rparr>) = own_fields sub c"
  "own_fields sub (c\<lparr>c_log_level := v5\<rparr>) = own_fields sub c"
  "own_fields sub (c\<lparr>c_log_format := v6\<rparr>) = own_fields sub c"
  "own_fields sub (c\<lparr>c_ra_trust_anchor := v7\<rparr>) = own_fields sub c"
  "own_fields sub (c\<lparr>c_ra_profile := v8\<rparr>) = own_fields sub c"
  "own_fields sub (c\<lparr>c_ra_role := v9\<rparr>) = own_fields sub c"
  "own_fields sub (c\<lparr>c_ra_cert_pattern := v10\<rparr>) = own_fields sub c"
  "own_fields sub (c\<lparr>c_ra_cert_field := v11\<rparr>) = own_fields sub c"
  "own_fields sub (c\<lparr>c_ra_cert_store := v12\<rparr>) = own_fields sub c"
  by (simp_all add: own_fields_def)

lemma own_restricted:
  "own_fields sub c \<Longrightarrow> is_int64 i \<Longrightarrow> own_fields sub (c\<lparr>c_parallel := i\<rparr>)"
  "own_fields ''push'' c \<Longrightarrow> own_fields ''push'' (c\<lparr>c_dry_run := b\<rparr>)"
  "own_fields ''pull'' c \<Longrightarrow> own_fields ''pull'' (c\<lparr>c_dry_run := b\<rparr>)"
  "own_fields ''push'' c \<Longrightarrow> own_fields ''push'' (c\<lparr>c_full := b\<rparr>)"
  "own_fields ''push'' c \<Longrightarrow> own_fields ''push'' (c\<lparr>c_adopt := b\<rparr>)"
  "own_fields ''prune'' c \<Longrightarrow> own_fields ''prune'' (c\<lparr>c_apply := b\<rparr>)"
  "own_fields ''prune'' c \<Longrightarrow> own_fields ''prune'' (c\<lparr>c_min_age := i\<rparr>)"
  by (simp_all add: own_fields_def)

lemma register_keep: "flags_keep (register_flags dur sub) (own_fields sub)"
  unfolding register_flags_def flags_keep_list
  by (auto simp: setter_Inr own_updates flags_keep_list intro: own_restricted dest: parse_int0_int64)

text \<open>A flag that is not one of Roles Anywhere's leaves their fields alone.\<close>

lemma unset_updates:
  "ra_unset (c\<lparr>c_bucket := v0\<rparr>) = ra_unset c"
  "ra_unset (c\<lparr>c_prefix := v1\<rparr>) = ra_unset c"
  "ra_unset (c\<lparr>c_manifest_key := v2\<rparr>) = ra_unset c"
  "ra_unset (c\<lparr>c_parallel := v3\<rparr>) = ra_unset c"
  "ra_unset (c\<lparr>c_region := v4\<rparr>) = ra_unset c"
  "ra_unset (c\<lparr>c_endpoint := v5\<rparr>) = ra_unset c"
  "ra_unset (c\<lparr>c_log_level := v6\<rparr>) = ra_unset c"
  "ra_unset (c\<lparr>c_log_format := v7\<rparr>) = ra_unset c"
  "ra_unset (c\<lparr>c_dry_run := v8\<rparr>) = ra_unset c"
  "ra_unset (c\<lparr>c_full := v9\<rparr>) = ra_unset c"
  "ra_unset (c\<lparr>c_adopt := v10\<rparr>) = ra_unset c"
  "ra_unset (c\<lparr>c_min_age := v11\<rparr>) = ra_unset c"
  "ra_unset (c\<lparr>c_apply := v12\<rparr>) = ra_unset c"
  by (simp_all add: ra_unset_def)

lemma unset_default: "ra_unset (default_flags (zero_cli sub))"
  by (simp add: ra_unset_def default_flags_def zero_cli_def Let_def)

lemma register_track: "flags_track (register_flags dur sub) (\<lambda>names c. list_ex ra_flag names \<or> ra_unset c)"
  unfolding register_flags_def flags_track_list
  by (auto simp: setter_Inr unset_updates flags_track_list ra_flag_def)

lemma register_ra: "sub \<noteq> ''pull'' \<Longrightarrow> name \<in> fst ` set (register_flags dur sub) \<Longrightarrow> \<not> prefix ''ra-'' name"
  by (auto simp: register_flags_def split: if_splits)

lemma parse_positional_ok:
  assumes "parse_positional c args = Inr c'"
  shows "\<exists>d. c' = c\<lparr>c_dir := d\<rparr> \<and> (if c_sub c = ''prune'' then d = c_dir c \<and> args = [] else args = [d])"
  using assms by (auto simp: parse_positional_def split: if_splits list.splits intro: exI [of _ "c_dir c"])

lemma check_usage_ok:
  assumes "check_usage c args = Inr c'"
  shows "c_bucket c \<noteq> [] \<and> (\<exists>d. c' = c\<lparr>c_dir := d\<rparr> \<and> (if c_sub c = ''prune'' then d = c_dir c \<and> args = [] else args = [d]))"
proof -
  have "c_bucket c \<noteq> [] \<and> parse_positional c args = Inr c'"
    using assms by (auto simp: check_usage_def split: list.splits option.splits if_splits)
  with parse_positional_ok show ?thesis by blast
qed

lemma ra_flag_prefix: "prefix ''ra-'' = ra_flag"
  by (rule ext) (simp add: ra_flag_def)

lemma parse_ra_flags_ok:
  assumes "parse_ra_flags compile c actual = Inr c'" "\<not> c_ra_mode c" "c_ra_regex c = None"
    and "\<And>name. name \<in> set actual \<Longrightarrow> ra_flag name \<Longrightarrow> c_sub c = ''pull''" "list_ex ra_flag actual \<or> ra_unset c"
  shows "ra_ok compile c' \<and> (c_ra_mode c' \<longleftrightarrow> list_ex ra_flag actual) \<and>
    (\<exists>md re f l. c' = c\<lparr>c_ra_mode := md, c_ra_regex := re, c_ra_field := f, c_ra_store := l\<rparr>)"
proof (cases "list_ex ra_flag actual")
  case False
  with assms(1) have "c' = c" by (simp add: parse_ra_flags_def ra_flag_prefix)
  then have "c' = c\<lparr>c_ra_mode := c_ra_mode c, c_ra_regex := c_ra_regex c, c_ra_field := c_ra_field c, c_ra_store := c_ra_store c\<rparr>" by simp
  with assms(2,3,5) False \<open>c' = c\<close> show ?thesis unfolding ra_ok_def by metis
next
  case True
  then have sub: "c_sub c = ''pull''" using assms(4) by (auto simp: list_ex_iff)
  have miss: "missing_ra c = []" using assms(1) True by (simp add: parse_ra_flags_def ra_flag_prefix Let_def missing_ra_def split: if_splits)
  obtain re f l where "compile (c_ra_cert_pattern c) = Inr re" "parse_cert_field (c_ra_cert_field c) = Inr f"
    "parse_store_loc (c_ra_cert_store c) = Inr l" and c': "c' = c\<lparr>c_ra_mode := True, c_ra_regex := Some re, c_ra_field := f, c_ra_store := l\<rparr>"
    using assms(1) True by (simp add: parse_ra_flags_def ra_flag_prefix Let_def split: if_splits sum.splits)
  moreover have "c_ra_trust_anchor c \<noteq> [] \<and> c_ra_profile c \<noteq> [] \<and> c_ra_role c \<noteq> []"
    using miss by (auto simp: missing_ra_def)
  ultimately have "ra_ok compile c'" using sub by (simp add: ra_ok_def parse_field_string parse_store_string)
  with c' True show ?thesis by auto
qed

text \<open>How the words of a command line were read: the flags that were set and what was left over.\<close>

definition reads_args :: "(string \<Rightarrow> int option) \<Rightarrow> string list \<Rightarrow> string list \<Rightarrow> string list \<Rightarrow> bool" where
  "reads_args dur args names rest \<longleftrightarrow>
     (case args of
        [] \<Rightarrow> False
      | sub # others \<Rightarrow>
          (case parse_flags (register_flags dur sub) others (default_flags (zero_cli sub)) [] of
             Flags_ok c ns left \<Rightarrow> names = ns \<and> rest = left
           | Flags_fail e \<Rightarrow> False
           | Flags_help \<Rightarrow> False))"

lemma parse_args_ok:
  assumes "parse_args compile dur args = (Inr c, log)"
  shows "cli_ok compile c \<and> log = [] \<and> prefix [c_sub c] args \<and>
    (\<exists>names. reads_args dur args names (if c_sub c = ''prune'' then [] else [c_dir c]) \<and>
      (c_ra_mode c \<longleftrightarrow> list_ex ra_flag names))"
proof -
  obtain sub others where a: "args = sub # others" "sub \<in> {''push'', ''pull'', ''prune''}"
    using assms by (auto simp: parse_args_def split: list.splits if_splits)
  obtain c0 actual rest where p: "parse_flags (register_flags dur sub) others (default_flags (zero_cli sub)) [] = Flags_ok c0 actual rest"
    using assms a by (auto simp: parse_args_def split: flag_result.splits if_splits)
  note k = parse_flags_keep [OF register_keep default_own p]
  obtain c1 where u: "check_usage c0 rest = Inr c1"
    using assms a p by (auto simp: parse_args_def split: sum.splits if_splits)
  obtain lvl where l: "parse_log_level (c_log_level c1) = Inr lvl" "\<not> (c_adopt c1 \<and> c_full c1)" "c_log_format c1 \<in> {''text'', ''json''}"
    "parse_ra_flags compile (c1\<lparr>c_log_level_val := lvl\<rparr>) actual = Inr c" "log = []"
    using assms a p u by (auto simp: parse_args_def split: sum.splits if_splits)
  obtain d where d: "c1 = c0\<lparr>c_dir := d\<rparr>" "c_bucket c0 \<noteq> []"
    "if c_sub c0 = ''prune'' then d = c_dir c0 \<and> rest = [] else rest = [d]"
    using check_usage_ok [OF u] by blast
  have own: "own_fields sub c0" and set: "set actual \<subseteq> fst ` set (register_flags dur sub)" using k by simp_all
  have tr: "list_ex ra_flag actual \<or> ra_unset c0"
    using parse_flags_track [OF register_track _ p] unset_default by simp
  have "c_sub c0 = ''pull''" if "name \<in> set actual" "ra_flag name" for name
    using register_ra [of sub name dur] set that own by (auto simp: own_fields_def ra_flag_def)
  then have ra: "ra_ok compile c \<and> (c_ra_mode c \<longleftrightarrow> list_ex ra_flag actual) \<and>
      (\<exists>md re f st. c = c1\<lparr>c_log_level_val := lvl, c_ra_mode := md, c_ra_regex := re, c_ra_field := f, c_ra_store := st\<rparr>)"
    using parse_ra_flags_ok [OF l(4)] own tr by (simp add: d(1) own_fields_def ra_unset_def)
  then obtain md re f st where c: "c = c1\<lparr>c_log_level_val := lvl, c_ra_mode := md, c_ra_regex := re, c_ra_field := f, c_ra_store := st\<rparr>"
    by blast
  have "c_sub c \<in> {''push'', ''pull'', ''prune''}" using own a(2) by (simp add: c d(1) own_fields_def)
  moreover have "c_bucket c \<noteq> []" "is_int64 (c_parallel c)" using own d(2) by (simp_all add: c d(1) own_fields_def)
  moreover have "\<not> (c_adopt c \<and> c_full c)" "c_log_format c \<in> {''text'', ''json''}"
    "parse_log_level (c_log_level c) = Inr (c_log_level_val c)" using l by (simp_all add: c)
  moreover have s: "c_sub c = sub" "c_sub c0 = sub" "c_dir c = d" using own by (simp_all add: c d(1) own_fields_def)
  moreover have "c_sub c \<noteq> ''push'' \<longrightarrow> \<not> c_full c \<and> \<not> c_adopt c" "c_sub c \<noteq> ''prune'' \<longrightarrow> \<not> c_apply c \<and> c_min_age c = 0"
    using own by (auto simp: c d(1) own_fields_def)
  moreover have "c_sub c = ''prune'' \<longrightarrow> \<not> c_dry_run c \<and> c_dir c = []"
    using own d(3) by (auto simp: c d(1) own_fields_def)
  ultimately have "cli_ok compile c" using ra unfolding cli_ok_def by blast
  moreover have "reads_args dur args actual (if c_sub c = ''prune'' then [] else [c_dir c])"
    using p d(3) s by (auto simp: reads_args_def a(1))
  moreover have "prefix [c_sub c] args" by (simp add: a(1) s)
  ultimately show ?thesis using ra l(5) by blast
qed

text \<open>After \<open>--\<close> any name is a directory, also one that starts with a dash.\<close>

lemma dash_dash:
  assumes "b \<noteq> []"
  shows "\<exists>c. parse_args compile dur [''push'', ''-bucket'', b, ''--'', d] = (Inr c, []) \<and> c_dir c = d \<and> c_bucket c = b"
proof -
  let ?fs = "register_flags dur ''push''" and ?c = "default_flags (zero_cli ''push'')"
  have 1: "parse_one ?fs [''-bucket'', b, ''--'', d] ?c = Flag_seen ''bucket'' (?c\<lparr>c_bucket := b\<rparr>) [''--'', d]"
    by (simp add: parse_one_def Let_def flag_value_def register_flags_def set_flag_def string_flag_def)
  have 2: "parse_one ?fs [''--'', d] c = Flag_stop [d]" for c by (simp add: parse_one_def)
  have "parse_flags ?fs [''-bucket'', b, ''--'', d] ?c [] = Flags_ok (?c\<lparr>c_bucket := b\<rparr>) [''bucket''] [d]"
    by (simp add: parse_flags.simps 1 2)
  then show ?thesis
    using assms
    by (simp add: parse_args_def check_usage_def parse_positional_def default_flags_def zero_cli_def Let_def parse_log_level_def
        parse_ra_flags_def)
qed

section \<open>Previews\<close>

text \<open>A preview: a dry run, or a prune that is not told to apply.\<close>

definition preview :: "cli \<Rightarrow> bool" where
  "preview c \<longleftrightarrow> c_dry_run c \<or> (c_sub c = ''prune'' \<and> \<not> c_apply c)"

lemma pull_dry_run_same: "pull_dry_run E get bucket pre dest opts w = (r, w') \<Longrightarrow> same_fs w w'"
  by (auto simp: pull_dry_run_def same.refl dest: dry_plan_reads(1) split: sum.splits)

lemma on_client_same: "on_client f w = (r, w') \<Longrightarrow> same_fs w w'"
  by (auto simp: on_client_def same_fs_def split: prod.splits)

lemma execute_preview_same:
  assumes "preview c" "cli_ok compile c" "execute sv c cl w = (r, w')"
  shows "same_fs w w'"
  using assms
  by (auto simp: preview_def cli_ok_def execute_def execute_push_def execute_prune_def Let_def elim!: and_thenE split: if_splits
      dest: push_dry_run_same pull_dry_run_same on_client_same)

lemma execute_preview_pure:
  assumes "preview c" "cli_ok compile c"
  shows "execute (sv\<lparr>sv_put := put', sv_delete := del'\<rparr>) c cl w = execute sv c cl w"
  using assms by (auto simp: preview_def cli_ok_def execute_def execute_push_def execute_prune_def Let_def)

lemma run_preview:
  assumes p: "fst (parse_args (sv_compile sv) (sv_duration sv) args) = Inr c" "preview c"
  shows "case run sv args w of (oc, w') \<Rightarrow> same_fs w w' \<and> run (sv\<lparr>sv_put := put', sv_delete := del'\<rparr>) args w = (oc, w')"
proof -
  obtain log where a: "parse_args (sv_compile sv) (sv_duration sv) args = (Inr c, log)" using p(1) by (metis prod.collapse)
  note ok = parse_args_ok [OF a]
  have ex: "same_fs v v'" if "execute sv c cl v = (r, v')" for cl v r v'
    using execute_preview_same [OF p(2) _ that] ok by blast
  have "same_fs w w'" if "run_command sv c w = (r, w')" for r w'
    using that unfolding run_command_def by (elim and_thenE) (auto dest!: s3_call_same ex intro: same.trans)
  moreover have "run_command (sv\<lparr>sv_put := put', sv_delete := del'\<rparr>) c w = run_command sv c w"
  proof -
    have "execute (sv\<lparr>sv_put := put', sv_delete := del'\<rparr>) c = execute sv c"
      using execute_preview_pure [OF p(2) conjunct1 [OF ok]] by (intro ext)
    then show ?thesis by (simp add: run_command_def)
  qed
  moreover obtain s where "args = s # tl args" "s \<in> {''push'', ''pull'', ''prune''}"
    using a by (auto simp: parse_args_def split: list.splits if_splits)
  ultimately show ?thesis
    using a by (auto simp: run_def Let_def split: prod.splits sum.splits list.splits)
qed

section \<open>The lines of a preview\<close>

lemma diff_remote_sorted:
  "diff_remote P get head bucket pre key loc files w = (Inr d, w') \<Longrightarrow> sorted (df_repair d)"
  by (auto simp: diff_remote_def Let_def split: sum.splits prod.splits)

lemma push_dry_run_repair:
  assumes "push_dry_run E get head bucket pre root opts w = (Inr p, w')"
  shows "sorted (pn_repair p)"
  using assms
  by (auto simp: push_dry_run_def Let_def no_diff_def dest!: diff_remote_sorted split: sum.splits prod.splits if_splits)

lemma upload_verb_repair:
  "push_dry_run E get head bucket pre root opts w = (Inr p, w') \<Longrightarrow>
    upload_verb p path = (if path \<in> set (pn_repair p) then ''repair'' else ''upload'')"
  using push_dry_run_repair by (metis upload_verb_def binary_search_iff)

end
