(* ===== verification/Examples.thy ===== *)
theory Examples
  imports PullDirectory PullDry Prune PushTotal FakeFacts CliFacts "HOL-Library.Code_Target_Numeral"
begin

text \<open>
  Concrete inputs the witnesses of the properties run on: a platform, an environment in which
  no call fails, and a small tree with its manifest. Hashes stay symbolic: the lemmas on
  \<open>sha256_hex\<close> give what is needed of them.
\<close>

definition linux :: platform where
  "linux = \<lparr>goos = ''linux'', uni_lower = (\<lambda>s. s)\<rparr>"

definition calm :: os_env where
  "calm = \<lparr>plat = linux, fault = (\<lambda>_ _. False), short = (\<lambda>_. 0), umask = 0\<rparr>"

definition hi_file :: mfile where
  "hi_file = \<lparr>f_path = ''d/a'', f_sha256 = sha256_hex ''hi'', f_size = 2, f_mode = ''0644''\<rparr>"

definition hi_manifest :: manifest where
  "hi_manifest = \<lparr>m_version = 1, m_files = Some [hi_file]\<rparr>"

text \<open>The tree \<open>/r\<close> with the one file \<open>d/a\<close>.\<close>

definition hi_world :: "unit world" where
  "hi_world = \<lparr>w_names = [([''r''], Dir), ([''r'', ''d''], Dir), ([''r'', ''d'', ''a''], Reg 0)],
     w_inodes = [(0, \<lparr>i_data = ''hi'', i_mode = 420\<rparr>)], w_next = 1, w_tick = 0, w_s3 = ()\<rparr>"

lemma calm_simps [simp]: "plat calm = linux" "fault calm t c = False" "umask calm = 0" "short calm t = 0"
  by (simp_all add: calm_def)

lemma linux_simps [simp]: "goos linux = ''linux''" "uni_lower linux s = s"
  by (simp_all add: linux_def)

lemma hi_file_mode: "file_mode hi_file = Inr 420"
proof -
  have "parse_uint 8 32 ''0644'' = Inr 420"
    by (simp add: parse_uint_def char_between_def)
  then show ?thesis
    using file_mode_eq [of hi_file 420] by (simp add: hi_file_def)
qed

lemma hi_comps: "comps (f_path hi_file) = [''d'', ''a'']"
  by (simp add: hi_file_def)

lemma hi_entry_ok: "entry_ok hi_file"
proof -
  have "list_all seg_ok [''d'', ''a'']"
    by (simp add: seg_ok_def reserved_names_def upper_char_def char_between_def)
  then have "path_ok (f_path hi_file)"
    unfolding path_ok_def hi_comps by (simp add: hi_file_def backslash_def)
  then show ?thesis
    using hi_file_mode is_sha256_hex [of "''hi''"] by (simp add: entry_ok_def is_sha256_iff) (simp add: hi_file_def)
qed

lemma hi_valid: "valid_manifest linux hi_manifest"
  using hi_entry_ok by (simp add: valid_manifest_def hi_manifest_def files_of_def)

lemma hi_look: "look hi_world p = (if p = [] \<or> p = [''r''] \<or> p = [''r'', ''d''] then Some Dir
    else if p = [''r'', ''d'', ''a''] then Some (Reg 0) else None)"
  by (auto simp: look_def hi_world_def)

lemma hi_ino: "ino hi_world i = (if i = 0 then Some \<lparr>i_data = ''hi'', i_mode = 420\<rparr> else None)"
  by (auto simp: ino_def hi_world_def)

lemma hi_next: "w_next hi_world = 1"
  by (simp add: hi_world_def)

lemma hi_wf: "wf hi_world"
  by (rule wfI) (auto simp: hi_look hi_ino hi_next plain_comp_def split: if_splits)

lemma hi_tree: "tree_at hi_world [''r''] r =
   (if r = [] \<or> r = [''d''] then Some EDir else if r = [''d'', ''a''] then Some (EFile ''hi'' 420) else None)"
  by (auto simp: tree_at_def hi_look hi_ino entry_of_def)

lemma hi_matches: "tree_matches linux hi_manifest (tree_at hi_world [''r''])"
proof -
  have "entry_matches linux hi_file (EFile ''hi'' 420)"
    using hi_file_mode by (simp add: entry_matches_def perm_def) (simp add: hi_file_def)
  then show ?thesis
    by (auto simp: tree_matches_def hi_tree hi_manifest_def files_of_def hi_comps split: if_splits)
qed

lemma hi_verify: "\<exists>w'. verify_tree calm [''r''] hi_manifest hi_world = (None, w')"
proof (rule verify_tree_complete)
  show "f_size f < max_int64" if "f \<in> set (files_of hi_manifest)" for f
    using that by (simp add: hi_manifest_def files_of_def hi_file_def max_int64_def)
qed (simp_all add: hi_wf hi_valid hi_matches, simp add: hi_manifest_def manifest_version_def)

section \<open>Whole runs\<close>

text \<open>A manifest without files, the client that serves it for every key and one that finds
  nothing, and a destination that holds a stale directory.\<close>

definition none_json :: bytes where
  "none_json = [CHR 0x7B, CHR 0x22] @ ''version'' @ [CHR 0x22] @ '':1,'' @ [CHR 0x22] @ ''files'' @ [CHR 0x22] @ '':[]}''"

definition get_none :: "'s get_fn" where
  "get_none i s = (Inr \<lparr>go_body = \<lparr>r_data = none_json, r_err = None\<rparr>, go_etag = None, go_version = None,
     go_range = None, go_length = None\<rparr>, s)"

definition get_missing :: "'s get_fn" where
  "get_missing i s = (Inl (E_api ''NoSuchKey''), s)"

definition plain_opts :: "'s options" where
  "plain_opts = \<lparr>op_parallel = 0, op_manifest_key = [], op_before = None, op_max_manifest = 0, op_max_content = 0,
     op_mismatch_retries = 0, op_swap_retries = 0\<rparr>"

definition old_world :: "unit world" where
  "old_world = \<lparr>w_names = [([''r''], Dir), ([''r'', ''x''], Dir), ([''s''], Dir)], w_inodes = [], w_next = 0,
     w_tick = 0, w_s3 = ()\<rparr>"

definition real_here :: "'s real_fn" where
  "real_here w p = (if exists w p then Some p else None)"

lemma old_look: "look old_world p = (if p = [] \<or> p = [''r''] \<or> p = [''r'', ''x''] \<or> p = [''s''] then Some Dir else None)"
  by (auto simp: look_def old_world_def)

lemma old_ino: "ino old_world i = None"
  by (simp add: ino_def old_world_def)

lemma old_wf: "wf old_world"
  by (rule wfI) (auto simp: old_look old_ino plain_comp_def split: if_splits)

lemma real_here_free: "link_free real_here w"
  by (simp add: link_free_def real_here_def)

lemma old_pull:
  "case pull_with_manifest calm id get_none ''b'' ''p'' [''r''] plain_opts old_world of
     (r, w') \<Rightarrow> (case r of Inr res \<Rightarrow> pr_manifest res = none_json \<and> look w' [''r''] = Some Dir \<and> look w' [''r'', ''x''] = None
       | _ \<Rightarrow> False)"
  by code_simp

lemma old_directory:
  "case replace_from_directory calm real_here id [''s''] [''r''] none_json plain_opts old_world of
     (r, w') \<Rightarrow> (case r of Inr res \<Rightarrow> look w' [''r''] = Some Dir \<and> look w' [''r'', ''x''] = None | _ \<Rightarrow> False)"
  by code_simp

text \<open>A swap cut off between its renames: the previous tree still stands aside.\<close>

definition cut_world :: "unit world" where
  "cut_world = \<lparr>w_names = [([''r.pinsync-old''], Dir), ([''r.pinsync-old'', ''a''], Reg 0)],
     w_inodes = [(0, \<lparr>i_data = ''hi'', i_mode = 420\<rparr>)], w_next = 1, w_tick = 0, w_s3 = ()\<rparr>"

lemma cut_look: "look cut_world p = (if p = [] \<or> p = [''r.pinsync-old''] then Some Dir
    else if p = [''r.pinsync-old'', ''a''] then Some (Reg 0) else None)"
  by (auto simp: look_def cut_world_def)

lemma cut_ino: "ino cut_world i = (if i = 0 then Some \<lparr>i_data = ''hi'', i_mode = 420\<rparr> else None)"
  by (auto simp: ino_def cut_world_def)

lemma cut_next: "w_next cut_world = 1"
  by (simp add: cut_world_def)

lemma cut_wf: "wf cut_world"
  by (rule wfI) (auto simp: cut_look cut_ino cut_next plain_comp_def split: if_splits)

text \<open>An empty directory to push to an empty store.\<close>

definition push_world :: "fake world" where
  "push_world = \<lparr>w_names = [([''e''], Dir)], w_inodes = [], w_next = 0, w_tick = 0, w_s3 = new_fake\<rparr>"

definition full_push :: push_options where
  "full_push = \<lparr>pu_parallel = 0, pu_manifest_key = [], pu_full = True, pu_adopt = False\<rparr>"

lemma push_look: "look push_world p = (if p = [] \<or> p = [''e''] then Some Dir else None)"
  by (auto simp: look_def push_world_def)

lemma push_ino: "ino push_world i = None"
  by (simp add: ino_def push_world_def)

lemma push_wf: "wf push_world"
  by (rule wfI) (auto simp: push_look push_ino plain_comp_def split: if_splits)

lemma push_world_ok: "fake_ok (w_s3 push_world)"
  by (simp add: push_world_def fake_ok_def new_fake_def)

lemma push_world_empty: "fake_object (w_s3 push_world) k = None"
  by (simp add: push_world_def fake_object_def new_fake_def)

lemma fake_put_accepts:
  "\<exists>f'. fake_put no_hooks (put_request b k \<lparr>r_data = raw, r_err = None\<rparr> (int (length raw)) (base64_encode (sha256 raw))) f = (Inr (), f')"
  by (simp add: fake_put_def no_hooks_def put_request_def io_read_all_def put_refused_def fake_sleep_def to_string_def
      content_sum_def Let_def)

lemma push_prepared:
  "case prepare calm (trim_suffix ''p'' ''/'') [''e''] (pu_manifest_key full_push) push_world of
     (r, w1) \<Rightarrow> (case r of Inr (m, key, raw) \<Rightarrow> files_of m = [] \<and> key = ''p/manifest.json'' | Inl _ \<Rightarrow> False)"
  by code_simp

lemma push_run:
  "\<exists>m raw w1 st w'. prepare calm (trim_suffix ''p'' ''/'') [''e''] (pu_manifest_key full_push) push_world
      = (Inr (m, ''p/manifest.json'', raw), w1) \<and>
    push calm id get head (fake_put no_hooks) ''b'' ''p'' [''e''] full_push push_world = (Inr st, w') \<and> pt_uploaded st = 0 \<and> pt_total st = 0"
proof -
  obtain m raw w1 where p: "prepare calm (trim_suffix ''p'' ''/'') [''e''] (pu_manifest_key full_push) push_world
      = (Inr (m, ''p/manifest.json'', raw), w1)" "files_of m = []"
    using push_prepared by (auto split: prod.splits sum.splits)
  obtain f' where f: "fake_put no_hooks (put_request ''b'' ''p/manifest.json'' \<lparr>r_data = raw, r_err = None\<rparr> (int (length raw))
      (base64_encode (sha256 raw))) (w_s3 w1) = (Inr (), f')"
    using fake_put_accepts by blast
  have "\<exists>w'. publish calm id (fake_put no_hooks) ''b'' (trim_suffix ''p'' ''/'') [''e''] ''p/manifest.json'' raw [] True w1 = (None, w')"
    by (simp add: publish_def upload_files_def if_ok_def put_manifest_def s3_call_def f)
  with p show ?thesis by (auto simp: push_def full_push_def Let_def)
qed

text \<open>A directory with one file to push. Its hash stays symbolic: the file's run is rewritten, not computed.\<close>

definition one_file :: mfile where
  "one_file = \<lparr>f_path = ''a'', f_sha256 = sha256_hex ''hi'', f_size = 2, f_mode = ''0644''\<rparr>"

definition one_world :: "fake world" where
  "one_world = \<lparr>w_names = [([''e''], Dir), ([''e'', ''a''], Reg 0)], w_inodes = [(0, \<lparr>i_data = ''hi'', i_mode = 420\<rparr>)],
     w_next = 1, w_tick = 0, w_s3 = new_fake\<rparr>"

lemma one_look: "look one_world p = (if p = [] \<or> p = [''e''] then Some Dir else if p = [''e'', ''a''] then Some (Reg 0) else None)"
  by (auto simp: look_def one_world_def)

lemma one_ino: "ino one_world i = (if i = 0 then Some \<lparr>i_data = ''hi'', i_mode = 420\<rparr> else None)"
  by (auto simp: ino_def one_world_def)

lemma one_next: "w_next one_world = 1"
  by (simp add: one_world_def)

lemma one_wf: "wf one_world"
  by (rule wfI) (auto simp: one_look one_ino one_next plain_comp_def split: if_splits)

lemma one_entries: "entries_under one_world [''e''] = [([''e''], Dir), ([''e'', ''a''], Reg 0)]"
  by code_simp

lemma fmt_mode_420: "fmt_mode 420 = ''0644''" by code_simp

lemma one_valid: "validate linux \<lparr>m_version = manifest_version, m_files = Some [one_file]\<rparr> = None"
proof -
  have "list_all seg_ok [''a'']"
    by (simp add: seg_ok_def reserved_names_def upper_char_def char_between_def)
  then have "path_ok (f_path one_file)"
    by (simp add: path_ok_def one_file_def backslash_def)
  moreover have "parse_uint 8 32 ''0644'' = Inr 420" by (simp add: parse_uint_def char_between_def)
  then have "file_mode one_file = Inr 420" using file_mode_eq [of one_file 420] by (simp add: one_file_def)
  ultimately have "entry_ok one_file"
    using is_sha256_hex [of "''hi''"] by (simp add: entry_ok_def is_sha256_iff) (simp add: one_file_def)
  then show ?thesis by (simp add: validate_iff valid_manifest_def files_of_def)
qed

text \<open>The same file under a name that is not valid UTF-8: the name that is published is accepted.\<close>

lemma coerced_valid: "validate linux (coerce_manifest (sort_files \<lparr>m_version = 1, m_files = Some [one_file\<lparr>f_path := [CHR 0xFF]\<rparr>]\<rparr>)) = None"
proof -
  have c: "coerce_utf8 [CHR 0xFF] = replacement" "coerce_utf8 ''0644'' = ''0644''" by code_simp+
  have "list_all is_hex_lower (sha256_hex ''hi'')" using is_sha256_hex [of "''hi''"] by (auto simp: is_sha256_iff is_hex_lower_def list_all_iff)
  then have "list_all (\<lambda>c. byte c < 128) (sha256_hex ''hi'')" by (auto simp: is_hex_lower_def list_all_iff char_between_def)
  then have h: "coerce_utf8 (sha256_hex ''hi'') = sha256_hex ''hi''" by (rule coerce_ascii)
  have "list_all seg_ok [replacement]" by code_simp
  then have "path_ok replacement" by (simp add: path_ok_def replacement_def backslash_def)
  moreover have "parse_uint 8 32 ''0644'' = Inr 420" by (simp add: parse_uint_def char_between_def)
  then have "file_mode (one_file\<lparr>f_path := replacement\<rparr>) = Inr 420"
    using file_mode_eq [of "one_file\<lparr>f_path := replacement\<rparr>" 420] by (simp add: one_file_def)
  ultimately have "entry_ok (one_file\<lparr>f_path := replacement\<rparr>)"
    using is_sha256_hex [of "''hi''"] by (simp add: entry_ok_def is_sha256_iff) (simp add: one_file_def)
  then show ?thesis
    by (simp add: validate_iff valid_manifest_def files_of_def coerce_manifest_def coerce_file_def sort_files_def c) (simp add: one_file_def c h)
qed

lemma one_build: "\<exists>w1. build calm [''e''] one_world = (Inr \<lparr>m_version = manifest_version, m_files = Some [one_file]\<rparr>, w1)"
proof -
  have "\<exists>w1. walk_dir calm (build_walk calm [''e'']) [''e''] [] one_world = (Inr [one_file], w1)"
    by (simp add: walk_dir_def one_entries one_look build_walk_def sys_def hash_file_def os_open_def is_reg_def fs_rel_def
        manifest_name_def one_ino fmt_mode_420 one_file_def io_read_all_def Let_def perm_def)
  then show ?thesis using one_valid by (auto simp: build_def Let_def)
qed

lemma one_prepared:
  "\<exists>m raw w1. prepare calm (trim_suffix ''p'' ''/'') [''e''] (pu_manifest_key full_push) one_world
     = (Inr (m, ''p/manifest.json'', raw), w1) \<and> files_of m = [one_file]"
proof -
  have k: "path_join (trim_suffix ''p'' ''/'') manifest_name = ''p/manifest.json''" by code_simp
  show ?thesis
    using one_build by (auto simp: prepare_def and_then_def resolve_manifest_key_def full_push_def k encode_def Let_def sort_files_def files_of_def)
qed

lemma one_world_ok: "fake_ok (w_s3 one_world)"
  by (simp add: one_world_def fake_ok_def new_fake_def)

lemma one_world_empty: "fake_object (w_s3 one_world) k = None"
  by (simp add: one_world_def fake_object_def new_fake_def)

lemma one_readable: "manifest_readable linux (fake_get (quiet no_hooks)) b k (w_s3 one_world)"
  by (simp add: manifest_readable_def one_world_def fake_get_def new_fake_def get_request_def quiet_def no_hooks_def is_no_such_key_def
      fake_sleep_def to_string_def Let_def)

lemma one_pushed:
  "\<exists>st w'. push calm id (fake_get (quiet no_hooks)) (fake_head (quiet no_hooks)) (fake_put no_hooks) ''b'' ''p'' [''e''] full_push one_world
     = (Inr st, w')"
proof -
  obtain m raw w1 where "prepare calm (trim_suffix ''p'' ''/'') [''e''] (pu_manifest_key full_push) one_world
      = (Inr (m, ''p/manifest.json'', raw), w1)"
    using one_prepared by blast
  from fake_open.push_done [OF _ one_world_ok this one_wf] show ?thesis by (simp add: one_look full_push_def)
qed

text \<open>A server that has the file's bytes, with an entity tag, and a destination's staging tree: the download
  keeps a prefix file and installs it.\<close>

definition get_hi :: "'s get_fn" where
  "get_hi i s = (Inr \<lparr>go_body = \<lparr>r_data = ''hi'', r_err = None\<rparr>, go_etag = Some ''e'', go_version = None,
     go_range = None, go_length = Some 2\<rparr>, s)"

definition tmp_world :: "unit world" where
  "tmp_world = \<lparr>w_names = [([''t''], Dir)], w_inodes = [], w_next = 0, w_tick = 0, w_s3 = ()\<rparr>"

lemma tmp_look: "look tmp_world p = (if p = [] \<or> p = [''t''] then Some Dir else None)"
  by (auto simp: look_def tmp_world_def)

lemma tmp_wf: "wf tmp_world"
  by (rule wfI) (auto simp: tmp_look ino_def plain_comp_def split: if_splits, simp_all add: tmp_world_def)

lemmas run_calls = Let_def os_mkdir_all_def parent_def prefixes.simps exists_def os_open_def sys_def look_def os_mkdir_def
  set_name_def os_remove_def os_create_def os_write_def os_close_def append_inode_def ino_def set_inode_def os_rename_def
  move_names_def rebase_def io_copy_def os_chmod_def has_child_def del_name_def is_reg_def wrap_err_def if_ok_def
  is_not_exist_def errors_is_def wrap64_def to_string_def s3_call_def

lemmas run_download = resume_or_fetch_def prefix_files_in_def load_prefix_def inspect_def start_over_def discard_def
  with_suffix_def remove_present_def fetch_whole_def write_info_def close_err_def close_after_def create_data_def
  check_staged_def install_def chmod_def resume_dir_def

lemma hi_downloaded:
  "\<exists>w'. download_resumable calm get_hi ''b'' ''p'' [''t''] one_file [''t'', ''a''] 420 tmp_world = (Inr False, w')"
proof -
  define h where "h = sha256_hex ''hi''"
  note abs = h_def [symmetric]
  have "\<exists>w'. resume_or_fetch calm get_hi ''b'' ''p'' [''t''] one_file [''t'', ''a''] 420 tmp_world = (Inr False, w')"
    by (simp add: run_calls run_download get_hi_def one_file_def tmp_world_def abs)
  then show ?thesis by (auto simp: download_resumable_def)
qed

text \<open>The bytes that push publishes, the client that serves them, and the pull that installs them.\<close>

definition push_raw :: bytes where
  "push_raw = (case prepare calm ''p'' [''e''] [] push_world of (r, w1) \<Rightarrow> (case r of Inr (m, key, raw) \<Rightarrow> raw | Inl _ \<Rightarrow> []))"

definition get_pushed :: "'s get_fn" where
  "get_pushed i s = (Inr \<lparr>go_body = \<lparr>r_data = push_raw, r_err = None\<rparr>, go_etag = None, go_version = None,
     go_range = None, go_length = None\<rparr>, s)"

lemma pushed_prepare:
  "case prepare calm ''p'' [''e''] [] push_world of
     (r, w1) \<Rightarrow> (case r of Inr (m, key, raw) \<Rightarrow> files_of m = [] \<and> raw = push_raw | Inl _ \<Rightarrow> False)"
  by code_simp

lemma pushed_pull:
  "case pull_with_manifest calm id get_pushed ''b'' ''p'' [''r''] plain_opts old_world of
     (r, w') \<Rightarrow> (case r of Inr res \<Rightarrow> pr_manifest res = push_raw | Inl _ \<Rightarrow> False)"
  by code_simp

section \<open>The store, credentials, the command line\<close>

definition stale_store :: fake where
  "stale_store = set_etag ''p/x'' ''e'' (set_etag ''p/manifest.json'' ''e''
     (store_at ''p/x'' ''hi'' 0 (store_at ''p/manifest.json'' none_json 0 new_fake)))"

definition prune_now :: prune_options where
  "prune_now = \<lparr>po_manifest_key = [], po_min_age = 0\<rparr>"

lemma stale_store_simps:
  "fake_object stale_store ''p/x'' = Some ''hi''" "fake_object stale_store ''p/manifest.json'' = Some none_json"
  "map_of (fk_mod stale_store) ''p/x'' = Some 0" "fake_etag stale_store ''p/x'' = ''e''" "map_of (fk_versions stale_store) ''p/x'' = None"
  by (simp_all add: stale_store_def set_etag_def store_at_def fake_store_def new_fake_def fake_object_def fake_etag_def)

lemma stale_fetch:
  "case prune_fetch_manifest linux (fake_get (quiet no_hooks)) ''b'' ''p/manifest.json'' stale_store of
     (r, f1) \<Rightarrow> (case r of Inr m \<Rightarrow> files_of m = [] | Inl e \<Rightarrow> False)"
  by code_simp

definition some_request :: http_request where
  "some_request = \<lparr>rq_method = ''POST'', rq_url = \<lparr>u_host = ''h'', u_path = ''/sessions'', u_raw_path = [], u_raw_query = []\<rparr>,
     rq_header = []\<rparr>"

definition some_leaf :: cert where
  "some_leaf = \<lparr>ct_raw = ''leaf'', ct_key = ECDSA_key, ct_serial = 7, ct_subject_cn = ''device'', ct_issuer_cn = ''ca''\<rparr>"

definition some_ca :: cert where
  "some_ca = \<lparr>ct_raw = ''ca'', ct_key = RSA_key, ct_serial = 1, ct_subject_cn = ''ca'', ct_issuer_cn = ''ca''\<rparr>"

definition const_signer :: "unit signer" where
  "const_signer d s = (Inr ''sig'', s)"

definition some_time :: utc where
  "some_time = \<lparr>t_year = 2026, t_month = 1, t_day = 2, t_hour = 3, t_min = 4, t_sec = 5\<rparr>"

lemma some_signed:
  "\<exists>req'. sign_x509 linux some_request ''h'' const_signer some_leaf [some_leaf, some_ca] ''us-east-1'' some_time () = ((None, req'), ())"
  by (simp add: sign_x509_def x509_algorithm_def some_leaf_def const_signer_def Let_def split: prod.split)

definition two_ids :: "(nat, unit) identity_api" where
  "two_ids = \<lparr>id_certificate = (\<lambda>i s. (if i = 0 then Inl (E_new ''unreadable'' []) else Inr some_leaf, s)),
     id_chain = (\<lambda>i s. (Inr [some_ca], s)), id_signer = (\<lambda>i s. (Inr const_signer, s)), id_close = (\<lambda>i s. s)\<rparr>"

definition two_store :: "(nat, unit, unit) store_api" where
  "two_store = \<lparr>st_open = (\<lambda>k s. (Inr (), s)), st_identities = (\<lambda>h s. (Inr [0, 1], s)), st_close = (\<lambda>h s. s)\<rparr>"

definition any_provider :: provider where
  "any_provider = new_provider Field_subject \<lparr>re_text = ''device'', re_match = (\<lambda>s. sublist ''device'' s)\<rparr> Store_user
     \<lparr>ra_trust_anchor = ''ta'', ra_profile = ''p'', ra_role = ''r'', ra_region_opt = [], ra_endpoint = []\<rparr>"

definition no_services :: "(unit, unit) services" where
  "no_services =
     \<lparr>sv_os = calm, sv_jobs = id, sv_files = id, sv_path = (\<lambda>d. [d]), sv_now = 0, sv_compile = (\<lambda>s. Inl (E_new ''bad'' [])),
      sv_duration = (\<lambda>s. None), sv_client = (\<lambda>cfg s. (Inr (), s)), sv_get = (\<lambda>_. get_none),
      sv_head = (\<lambda>_ i s. (Inl (E_api ''NotFound''), s)), sv_put = (\<lambda>_ i s. (Inl (E_api ''AccessDenied''), s)),
      sv_pages = (\<lambda>_ i s. (Inr [], s)), sv_delete = (\<lambda>_ i s. (Inl (E_api ''AccessDenied''), s))\<rparr>"

lemma dry_args:
  "case fst (parse_args (sv_compile no_services) (sv_duration no_services) [''pull'', ''-bucket'', ''b'', ''-dry-run'', ''dest'']) of
     Inr c \<Rightarrow> preview c | Inl e \<Rightarrow> False"
  by code_simp

text \<open>A push that publishes a manifest is summed up as \<open>up to date\<close> when it uploads no file.\<close>

lemma up_to_date_though_published:
  "\<exists>st w'. push calm id (fake_get (quiet no_hooks)) (fake_head (quiet no_hooks)) (fake_put no_hooks) ''b'' ''p'' [''e''] full_push push_world
      = (Inr st, w') \<and>
    fake_object (w_s3 push_world) ''p/manifest.json'' = None \<and> fake_object (w_s3 w') ''p/manifest.json'' \<noteq> None \<and>
    push_summary st ''b'' ''p'' = up_to_date 0 ''s3://b/p''"
proof -
  obtain m raw w1 st w' where p: "prepare calm (trim_suffix ''p'' ''/'') [''e''] (pu_manifest_key full_push) push_world
      = (Inr (m, ''p/manifest.json'', raw), w1)"
    and r: "push calm id (fake_get (quiet no_hooks)) (fake_head (quiet no_hooks)) (fake_put no_hooks) ''b'' ''p'' [''e''] full_push push_world
      = (Inr st, w')" "pt_uploaded st = 0" "pt_total st = 0"
    using push_run by blast
  have "published fake_object (plat calm) ''p/manifest.json'' raw (w_s3 w')"
    using fake.push_effect(2) [OF r(1) push_world_ok p push_wf] by (simp add: push_look full_push_def)
  then have "fake_object (w_s3 w') ''p/manifest.json'' \<noteq> None" by (auto simp: published_def)
  moreover have "push_summary st ''b'' ''p'' = up_to_date 0 ''s3://b/p''"
    using r by (simp add: push_summary_def s3_dest_def)
  ultimately show ?thesis using r(1) push_world_empty by blast
qed

end
