(* ===== verification/Mirror.thy ===== *)
theory Mirror
  imports JsonTrip PullDirectory PushStore
begin

text \<open>
  The packages together: a pull that installs the bytes a push published leaves, in another
  place and at another time, the pushed tree's files.
\<close>

text \<open>The same files: the same paths hold regular files, of equal length, SHA-256 and mode.\<close>

definition same_file_at :: "platform \<Rightarrow> entry option \<Rightarrow> entry option \<Rightarrow> bool" where
  "same_file_at P e e' \<longleftrightarrow>
     (case e of
        Some (EFile d md) \<Rightarrow>
          (case e' of
             Some (EFile d' md') \<Rightarrow>
               length d' = length d \<and> sha256_hex d' = sha256_hex d \<and> (goos P = ''windows'' \<or> perm md' = perm md)
           | _ \<Rightarrow> False)
      | _ \<Rightarrow> e' \<in> {None, Some EDir})"

definition mirrors :: "platform \<Rightarrow> (fpath \<Rightarrow> entry option) \<Rightarrow> (fpath \<Rightarrow> entry option) \<Rightarrow> bool" where
  "mirrors P t t' \<longleftrightarrow> (\<forall>r. same_file_at P (t r) (t' r))"

lemma tree_matches_file:
  assumes "tree_matches P m t" "t r = Some e" "e \<noteq> EDir"
  obtains f d md where "f \<in> set (files_of m)" "r = comps (f_path f)" "e = EFile d md" "entry_matches P f e"
proof -
  obtain f where f: "f \<in> set (files_of m)" "r = comps (f_path f)" using assms by (auto simp: tree_matches_def)
  then have "entry_matches P f e" using assms(1,2) by (auto simp: tree_matches_def)
  moreover from this obtain d md where "e = EFile d md" by (cases e) (auto simp: entry_matches_def)
  ultimately show ?thesis using that f by blast
qed

lemma same_manifest_mirrors:
  assumes "tree_matches P m t" "tree_matches P m' t'" "set (files_of m') = set (files_of m)"
  shows "mirrors P t t'"
  unfolding mirrors_def
proof
  fix r
  have other: "\<exists>d md. t'' r = Some (EFile d md) \<and> entry_matches P f (EFile d md)"
    if h: "tree_matches P m'' t''" "f \<in> set (files_of m'')" "r = comps (f_path f)" for m'' t'' f
  proof -
    obtain e where "t'' r = Some e" "entry_matches P f e" using h by (auto simp: tree_matches_def)
    then show ?thesis by (cases e) (auto simp: entry_matches_def)
  qed
  show "same_file_at P (t r) (t' r)"
  proof (cases "\<exists>f \<in> set (files_of m). r = comps (f_path f)")
    case True
    then obtain f where f: "f \<in> set (files_of m)" "r = comps (f_path f)" by blast
    obtain d md where 1: "t r = Some (EFile d md)" "entry_matches P f (EFile d md)" using other [OF assms(1) f] by blast
    obtain d' md' where 2: "t' r = Some (EFile d' md')" "entry_matches P f (EFile d' md')"
      using other [OF assms(2) _ f(2)] f(1) assms(3) by blast
    show ?thesis using 1 2 by (auto simp: same_file_at_def entry_matches_def)
  next
    case False
    have "e = EDir" if "t r = Some e" for e
      by (rule ccontr) (use tree_matches_file [OF assms(1) that] False in blast)
    moreover have "e = EDir" if "t' r = Some e" for e
      by (rule ccontr) (use tree_matches_file [OF assms(2) that] False assms(3) in blast)
    ultimately show ?thesis by (cases "t r"; cases "t' r") (auto simp: same_file_at_def)
  qed
qed

text \<open>What \<open>prepare\<close> encodes decodes to a manifest of the tree it read.\<close>

lemma prepare_decodes:
  assumes run: "prepare E pre root custom w = (Inr (m, key, raw), w1)" and w: "wf w" "look w root = Some Dir"
    and names: "list_all (\<lambda>f. valid_utf8 (f_path f)) (files_of m)" and sizes: "list_all (\<lambda>f. is_int64 (f_size f)) (files_of m)"
  shows "decode (plat E) raw = Inr m \<and> tree_matches (plat E) m (tree_at w root)"
proof -
  obtain m0 w0 where b: "build E root w = (Inr m0, w0)" and e: "encode m0 = (m, raw)"
    using run by (auto simp: prepare_def and_then_def split: if_splits prod.splits sum.splits)
  note bm = build_matches [OF b w]
  have m: "m = sort_files m0" "raw = snd (encode m0)" using e by (auto simp: encode_def Let_def)
  have set: "set (files_of m) = set (files_of m0)" by (simp add: m(1) files_sorted)
  have "decode (plat E) raw = Inr m"
    unfolding m(2) using decode_encode [OF bm(2,1)] names sizes set m(1) by (simp add: list_all_iff)
  moreover have "tree_matches (plat E) m (tree_at w root)" using bm(3) set by (simp add: tree_matches_def)
  ultimately show ?thesis by blast
qed

lemma pushed_then_pulled:
  assumes prep: "prepare E pre root custom w = (Inr (m, key, raw), w1)" "wf w" "look w root = Some Dir"
    and names: "list_all (\<lambda>f. valid_utf8 (f_path f)) (files_of m)" "list_all (\<lambda>f. is_int64 (f_size f)) (files_of m)"
    and pull: "replace_spec (plat E) (Inr res) t t'" "pr_manifest res = raw"
  shows "mirrors (plat E) (tree_at w root) t'"
proof -
  note d = prepare_decodes [OF prep names]
  obtain m' where "decode (plat E) raw = Inr m'" "tree_matches (plat E) m' t'"
    using pull by (auto simp: replace_spec_def)
  with d same_manifest_mirrors [of "plat E" m "tree_at w root" m' t'] show ?thesis by simp
qed

end
