(* ===== verification/Spec2Isabelle.thy ===== *)
theory Spec2Isabelle
  imports Examples JsonTrip Mirror PullStats FakeFacts CliFacts Rustfs
begin

text \<open>
  Pinsync publishes a directory tree to an S3 prefix together with a manifest of its files
  (\<open>push\<close>), converges another directory to exactly a published manifest (\<open>pull\<close>), and deletes
  what the manifest no longer names (\<open>prune\<close>). This is the root of a model of those packages
  in HOL; it holds the properties, everything else is in the theories below.

  \<^bold>\<open>Ground.\<close> \<open>Prelude\<close>: bytes, strings, 64-bit integers, errors as a datatype (\<open>%w\<close> chains,
  \<open>errors.Is\<close>, \<open>errors.Join\<close>). \<open>Paths\<close>: \<open>path.Clean\<close>, \<open>path.Join\<close>, file paths as lists of
  components. \<open>Digest\<close>, \<open>Md5\<close>: SHA-256, hexadecimal, base64, MD5. \<open>Json\<close>: UTF-8 and what the
  program uses of \<open>encoding/json\<close>. \<open>FileSys\<close>: names, inodes and system calls, each of which
  an oracle can fail; \<open>FsFacts\<close> and \<open>FsKeep\<close>: the laws of the calls, the invariant \<open>wf\<close>, the
  relation \<open>safe S\<close> (the paths in \<open>S\<close> and the files behind them are as they were) and the
  view \<open>tree_at\<close> of a directory. \<open>S3Api\<close>: the client's operations as arguments of the model.

  \<^bold>\<open>Manifests\<close> (\<open>pkg/manifest\<close>). \<open>Manifest\<close>: \<open>manifest.go\<close>'s data and modes, \<open>validate.go\<close>.
  \<open>ManifestCodec\<close>: \<open>Encode\<close>, \<open>Decode\<close>. \<open>ManifestTree\<close>: \<open>Build\<close> and \<open>VerifyTree\<close>;
  \<open>tree_matches\<close> says what a tree of a manifest is.

  \<^bold>\<open>Pulling\<close> (\<open>pkg/pull\<close>). \<open>PullHash\<close>: \<open>hash.go\<close>. \<open>PullWrite\<close>: the verified writes of
  \<open>stage.go\<close>. \<open>PullResume\<close>: \<open>resume.go\<close>, prefix files and the resumable download.
  \<open>PullRecover\<close>: \<open>recover.go\<close>, and \<open>layout\<close>, the destination with its siblings, and
  \<open>live_tree\<close>, what counts as live between the two renames of a swap. \<open>PullStage\<close>:
  \<open>stage.go\<close>; the locale \<open>fetcher\<close> is the contract of \<open>syncer.fetch\<close>, interpreted by the S3
  download and by the copy from a source directory. \<open>PullSync\<close>: \<open>swap.go\<close> and \<open>pull.go\<close>, with
  the abstract operation \<open>replace_spec\<close>. \<open>PullDirectory\<close>: \<open>directory.go\<close>. \<open>PullDry\<close>:
  \<open>dryrun.go\<close>. One world goes through all of them: a pull recovers, hashes, stages beside the
  destination, verifies the staged tree, then swaps.

  \<^bold>\<open>Publishing.\<close> \<open>Push\<close>: \<open>push.go\<close>; \<open>PushStore\<close>: the locale \<open>content_store\<close>, S3's contract for
  checksummed puts, what a push leaves in such a store, and the in-memory store as its
  interpretation; \<open>PushTotal\<close>: its extension \<open>accepting_store\<close>, and that a push to such a store
  succeeds. \<open>Prune\<close>: \<open>prune.go\<close>. \<open>Fake\<close>: the store of \<open>pkg/s3test/fake.go\<close>, \<open>FakeFacts\<close>:
  its listings, ranges and deletes, and what a prune leaves in it. \<open>Rustfs\<close>: \<open>rustfs.go\<close>, the
  server of the integration tests. \<open>JsonTrip\<close>: \<open>Decode\<close> reads
  back what \<open>Encode\<close> wrote. \<open>Mirror\<close>: push and pull together. \<open>PullStats\<close>: the counts a pull
  reports.

  \<^bold>\<open>Credentials\<close> (\<open>pkg/rolesanywhere\<close>, \<open>pkg/awsclient\<close>). \<open>GoHttp\<close>: requests, URLs and header maps.
  \<open>RaSign\<close>: \<open>sign.go\<close>, the SigV4-X509 signature. \<open>RaSession\<close>: \<open>match.go\<close>, \<open>selector.go\<close>,
  \<open>credentials.go\<close>, \<open>provider.go\<close>; the locale \<open>identity_finder\<close> is what the provider relies on, who
  holds which identity open, interpreted by the store scan and by the stub of the other systems.
  \<open>AwsClient\<close>: \<open>awsclient.go\<close>.

  \<^bold>\<open>The command\<close> (\<open>cmd/pinsync\<close>). \<open>GoFlag\<close>: Go's flag package and binary search. \<open>Cli\<close>: \<open>main.go\<close>,
  from the arguments to the report, over the packages above. \<open>CliFacts\<close>: accepted command lines
  and previews. \<open>Examples\<close>: the concrete inputs the witnesses run on.

  \<^bold>\<open>What is abstracted.\<close> The theorems about runs are for all fault oracles, so they cover every
  pattern of failing system calls; one that fails all calls from some point on leaves the
  state of a process killed there. The exceptions assume that no call fails and say so: what
  succeeds then (\<open>verify_tree_total\<close>, \<open>build_verifies\<close>, \<open>push_succeeds\<close>), what is restored
  (\<open>recovery_restores\<close>) and which error comes (\<open>write_rejects_mismatch\<close>). Servers are arbitrary functions, except in the theorems that
  name a contract. Workers run whole jobs one after the other, in an order about which nothing
  is assumed but that it is a permutation; the interleaving of single calls of two jobs is not
  modelled. No loop of the program needs fuel: retries count down, walks go over the finite
  list of names. Time, logging, durability of \<open>fsync\<close> and symbolic links that lead anywhere are
  not modelled (a link is a special node, which nothing follows); destinations are cleaned
  absolute paths other than the root. Error texts keep their format, not always their numbers.

  \<^bold>\<open>Arguments.\<close> Code outside the repository is an argument of the definitions that use it: the S3
  operations, the certificate store and \<open>crypto.Signer\<close>, the Roles Anywhere client and the SDK's
  configuration, credentials cache and \<open>arn.Parse\<close>. So are three functions of Go's library whose
  results the properties do not depend on: \<open>regexp.Compile\<close>, \<open>time.Parse\<close> and
  \<open>time.ParseDuration\<close>; the flag package's printed list of flags is a symbol.

  \<^bold>\<open>Not modelled.\<close> Logging with \<open>newLogger\<close>, the open flags \<open>openFlags\<close> of \<open>pkg/manifest\<close> (the model
  has no link to follow and no blocking open) and the Windows system calls of \<open>link_windows.go\<close>.
\<close>

section \<open>Manifests\<close>

text \<open>C24: \<open>Validate\<close> accepts a manifest just when every entry has a 64-digit lowercase
  hash, a nonnegative size, a mode of permission bits and a path of well-formed components,
  and no two paths fold to the same name.\<close>

theorem manifest_validate_decides: "validate P m = None \<longleftrightarrow> valid_manifest P m"
  by (rule validate_iff)

text \<open>C25: The paths of an accepted manifest, joined to any destination, lie strictly below it,
  and different entries get different files.\<close>

theorem manifest_paths_stay_below:
  assumes "validate P m = None"
  shows "list_all (\<lambda>f. strict_prefix root (fs_join root (f_path f))) (files_of m)
    \<and> distinct (map (\<lambda>f. fs_join root (f_path f)) (files_of m))"
proof -
  from assms have v: "valid_manifest P m" by (simp add: validate_iff)
  note plain = valid_manifest_plain [OF v]
  have "inj_on (\<lambda>f. fs_join root (f_path f)) (set (files_of m))"
  proof (rule inj_onI)
    fix f g assume fg: "f \<in> set (files_of m)" "g \<in> set (files_of m)" "fs_join root (f_path f) = fs_join root (f_path g)"
    then have "f_path f = f_path g" using plain fs_join_inj by blast
    with fg valid_manifest_distinct [OF v] show "f = g" by (meson distinct_map inj_onD)
  qed
  with plain valid_manifest_distinct [OF v] show ?thesis
    by (auto simp: list_all_iff prefix_fs_join distinct_map)
qed

theorem manifest_paths_stay_below_witness:
  "list_all (\<lambda>f. strict_prefix [''r''] (fs_join [''r''] (f_path f))) (files_of hi_manifest)
    \<and> distinct (map (\<lambda>f. fs_join [''r''] (f_path f)) (files_of hi_manifest))"
  by (rule manifest_paths_stay_below [of linux]) (simp add: validate_iff hi_valid)

text \<open>C2: \<open>VerifyTree\<close> succeeds, whatever calls fail on the way, only for a valid manifest of
  this version and a tree that holds exactly its files, each with the entry's size, SHA-256 and
  (except on Windows) permission bits; and it changes nothing.\<close>

theorem verify_tree_sound:
  assumes "verify_tree E root m w = (None, w')" "wf w"
  shows "m_version m = 1 \<and> valid_manifest (plat E) m \<and> tree_matches (plat E) m (tree_at w root) \<and> same_fs w w'"
  using verify_tree_accepts [OF assms] by (simp add: manifest_version_def)

theorem verify_tree_sound_witness:
  "\<exists>w'. verify_tree calm [''r''] hi_manifest hi_world = (None, w') \<and>
     tree_matches linux hi_manifest (tree_at hi_world [''r''])"
  using hi_verify verify_tree_sound [of calm "[''r'']" hi_manifest hi_world] hi_wf by auto

text \<open>C22: When no call fails, \<open>VerifyTree\<close> accepts every tree that matches a valid manifest
  (of files smaller than the largest \<open>int64\<close>).\<close>

theorem verify_tree_total:
  assumes "\<And>t c. \<not> fault E t c" "wf w" "m_version m = 1" "valid_manifest (plat E) m"
    and "list_all (\<lambda>f. f_size f < max_int64) (files_of m)" "tree_matches (plat E) m (tree_at w root)"
  shows "\<exists>w'. verify_tree E root m w = (None, w')"
  using verify_tree_complete [of E w m root] assms by (simp add: manifest_version_def list_all_iff)

theorem verify_tree_total_witness: "\<exists>w'. verify_tree calm [''r''] hi_manifest hi_world = (None, w')"
  by (rule verify_tree_total)
    (simp_all add: hi_wf hi_valid hi_matches, simp_all add: hi_manifest_def files_of_def hi_file_def max_int64_def)

section \<open>Replacing a tree\<close>

text \<open>C1: \<open>PullWithManifest\<close> refines the atomic replacement of a tree: whatever the server answers,
  whichever calls fail and in whatever order the workers run, it either returns the bytes of a
  manifest and leaves the destination's tree exactly that manifest's, or it returns an error
  and leaves the live tree as it was.\<close>

theorem pull_refines_replacement:
  assumes "wf w" "dest \<noteq> []" "plain_comps dest" "\<And>js. set (order js) = set js"
  shows "case pull_with_manifest E order get bucket pre dest opts w of
    (r, w') \<Rightarrow> wf w' \<and> replace_spec (plat E) r (live_at w dest) (live_at w' dest)"
  using pull_replaces [OF _ assms] by (auto split: prod.splits)

theorem pull_refines_replacement_witness:
  "\<exists>res w'. pull_with_manifest calm id get_none ''b'' ''p'' [''r''] plain_opts old_world = (Inr res, w') \<and>
     replace_spec linux (Inr res) (live_at old_world [''r'']) (live_at w' [''r''])"
  using old_pull pull_refines_replacement [of old_world "[''r'']" id calm get_none "''b''" "''p''" plain_opts] old_wf
  by (auto simp: plain_comp_def split: prod.splits sum.splits)

text \<open>C19: \<open>ReplaceFromDirectory\<close> keeps the same promise, and a success returns the caller's own
  manifest bytes.\<close>

theorem directory_refines_replacement:
  assumes "wf w" "dest \<noteq> []" "plain_comps dest" "\<And>js. set (order js) = set js"
  shows "case replace_from_directory E real order source dest raw opts w of
    (r, w') \<Rightarrow> wf w' \<and> replace_spec (plat E) r (live_at w dest) (live_at w' dest)
      \<and> (case r of Inr res \<Rightarrow> pr_manifest res = raw | Inl _ \<Rightarrow> True)"
  using directory_replaces [OF _ assms] by (auto split: prod.splits sum.splits)

theorem directory_refines_replacement_witness:
  "\<exists>res w'. replace_from_directory calm real_here id [''s''] [''r''] none_json plain_opts old_world = (Inr res, w') \<and>
     replace_spec linux (Inr res) (live_at old_world [''r'']) (live_at w' [''r'']) \<and> pr_manifest res = none_json"
  using old_directory directory_refines_replacement [where w = old_world and dest = "[''r'']" and order = id and E = calm
      and real = real_here and source = "[''s'']" and raw = none_json and opts = plain_opts] old_wf
  by (auto simp: plain_comp_def split: prod.splits sum.splits)

text \<open>C20: \<open>ReplaceFromDirectory\<close> only reads its source: on a file system without symbolic links the
  source tree is unchanged, success or not.\<close>

theorem directory_source_unchanged:
  assumes "wf w" "link_free real w" "dest \<noteq> []" "plain_comps dest" "\<And>js. set (order js) = set js"
  shows "tree_at (snd (replace_from_directory E real order source dest raw opts w)) source = tree_at w source"
  using source_only_read [OF prod.collapse [symmetric] assms] .

theorem directory_source_unchanged_witness:
  "tree_at (snd (replace_from_directory calm real_here id [''s''] [''r''] none_json plain_opts old_world)) [''s'']
     = tree_at old_world [''s'']"
  by (rule directory_source_unchanged) (simp_all add: old_wf real_here_free plain_comp_def)

text \<open>C11: A swap is atomic under every failure of its system calls: it succeeds with the staged tree
  as the destination's, or fails with the live tree unchanged (in the destination, or set aside
  for the next recovery).\<close>

theorem swap_atomic:
  assumes "sync_ok s" "wf w" "look w (sy_old s) = None"
  shows "case swap E s w of (r, w') \<Rightarrow> wf w' \<and>
    (case r of None \<Rightarrow> tree_at w' (sy_dest s) = tree_at w (sy_tmp s)
     | Some e \<Rightarrow> live_tree w' (sy_dest s) (sy_old s) = live_tree w (sy_dest s) (sy_old s))"
  using swap_result [OF assms] by (auto split: prod.splits)

theorem swap_atomic_witness:
  "\<exists>s. sync_ok s \<and> look hi_world (sy_old s) = None \<and> sy_dest s = [''r''] \<and>
     (case swap calm s hi_world of (r, w') \<Rightarrow> wf w')"
proof -
  obtain s where s: "new_syncer id [''r''] (plain_opts :: unit options) = Inr s"
    by (simp add: new_syncer_def plain_opts_def)
  note n = new_syncer_Inr [OF s]
  have ok: "sync_ok s" using layout_siblings [of "[''r'']"] by (simp add: sync_ok_def n plain_comp_def)
  have old: "look hi_world (sy_old s) = None" by (simp add: n hi_look sibling_def old_suffix_def)
  show ?thesis using swap_atomic [OF ok hi_wf old, of calm] ok old n(1) by (auto split: prod.splits)
qed

text \<open>C13: \<open>recoverInterrupted\<close> never changes the live tree, and when it succeeds no staging tree and no
  old tree is left and no kept file shares its content with another name.\<close>

theorem recovery_cleans_up:
  assumes "wf w" "layout dest tmp old partial"
  shows "case recover_interrupted E dest tmp old partial w of (r, w') \<Rightarrow> wf w' \<and>
    live_tree w' dest old = live_tree w dest old \<and>
    (r = None \<longrightarrow> look w' old = None \<and> look w' tmp = None \<and> (\<forall>p. prefix partial p \<longrightarrow> sole w' p))"
  using recover_interrupted_live [OF _ assms] by (auto split: prod.splits)

theorem recovery_cleans_up_witness:
  "case recover_interrupted calm [''r''] (sibling [''r''] tmp_suffix) (sibling [''r''] old_suffix) (sibling [''r''] partial_suffix) hi_world
    of (r, w') \<Rightarrow> live_tree w' [''r''] (sibling [''r''] old_suffix) = live_tree hi_world [''r''] (sibling [''r''] old_suffix)"
  using recovery_cleans_up [OF hi_wf layout_siblings [of "[''r'']"], of calm] by (auto simp: plain_comp_def split: prod.splits)

text \<open>C14: When a pull was cut off between the two renames of its swap, a recovery whose calls succeed
  puts the previous tree back at the destination.\<close>

theorem recovery_restores:
  assumes "\<And>t c. \<not> fault E t c" "wf w" "dest \<noteq> []" "plain_comps dest"
    and "look w dest = None" "look w (sibling dest old_suffix) = Some n"
  shows "tree_at (snd (recover E dest w)) dest = tree_at w (sibling dest old_suffix)"
  by (rule recover_rolls_back [OF assms prod.collapse [symmetric]])

theorem recovery_restores_witness:
  "tree_at (snd (recover calm [''r''] cut_world)) [''r''] = tree_at cut_world (sibling [''r''] old_suffix)"
  by (rule recovery_restores) (simp_all add: cut_wf cut_look plain_comp_def sibling_def old_suffix_def)

section \<open>Staging\<close>

text \<open>C21: Staging a valid manifest from S3, whatever the live and partial trees held when they were
  hashed and whatever fails on the way, never changes the live tree or a tree set aside.\<close>

theorem staging_spares_live:
  assumes "new_syncer order dest opts = Inr s" "wf w" "dest \<noteq> []" "plain_comps dest"
    and "\<And>js. set (order js) = set js" "valid_manifest P m"
  shows "case stage E (s3_syncer E get bucket pre s) m live index w of
    (r, w') \<Rightarrow> wf w' \<and> tree_at w' dest = tree_at w dest \<and> live_at w' dest = live_at w dest"
proof -
  let ?s = "s3_syncer E get bucket pre s"
  note n = new_syncer_Inr [OF assms(1)] and l = layout_siblings [OF assms(3,4)]
  note k = layout_keeps(1,2) [OF l] and p = layout_parts [OF l] and v = valid_manifest_entry [OF assms(6)]
  have s: "safe (below dest \<union> below (sibling dest old_suffix)) w (snd (stage E ?s m live index w))"
  proof (rule s3.stage_keep)
    show "sy_fetch ?s = download E get bucket (trim_suffix pre ''/'') (sibling dest tmp_suffix)" "sy_tmp ?s = sibling dest tmp_suffix"
      by (simp_all add: n s3_syncer_def)
  qed (simp_all add: k p v assms(5) n s3_syncer_def)
  show ?thesis
    using safe_wf [OF s assms(2)] live_tree_safe [OF s assms(2)] safe_tree_at [OF s assms(2), of dest]
    by (auto simp: live_at_def split: prod.splits)
qed

theorem staging_spares_live_witness:
  "\<exists>s. new_syncer id [''r''] (plain_opts :: unit options) = Inr s \<and>
     (case stage calm (s3_syncer calm get_none ''b'' ''p'' s) hi_manifest [] Map.empty hi_world of
       (r, w') \<Rightarrow> wf w' \<and> live_at w' [''r''] = live_at hi_world [''r''])"
proof -
  obtain s where s: "new_syncer id [''r''] (plain_opts :: unit options) = Inr s"
    by (simp add: new_syncer_def plain_opts_def)
  then show ?thesis
    using staging_spares_live [OF s hi_wf, of linux hi_manifest calm get_none "''b''" "''p''" "[]" Map.empty] hi_valid
    by (auto simp: plain_comp_def split: prod.splits)
qed

text \<open>C12: A resumable download that succeeds, from a kept prefix or afresh, with or without the prefix
  files, leaves at its staged path a file of one name with exactly the entry's bytes and mode,
  whatever the server sent and whatever prefix files were there before.\<close>

theorem resumed_download_verified:
  assumes "wf w" "plain_comps tmp" "is_sha256 (f_sha256 f)" "plain_path (f_path f)"
    and "hd (comps (f_path f)) \<noteq> resume_dir"
  shows "case download_resumable E get bucket pre tmp f (fs_join tmp (f_path f)) mode w of
    (r, w') \<Rightarrow> (case r of Inl e \<Rightarrow> True | Inr b \<Rightarrow> holds E f mode (fs_join tmp (f_path f)) w')"
proof -
  define j where "j = \<lparr>j_file = f, j_act = ActDownload, j_mode = mode, j_live = 0, j_in_live = False, j_resume = True\<rparr>"
  have j: "job_ok j" using assms(3-5) by (simp add: job_ok_def j_def)
  have "holds E f mode (fs_join tmp (f_path f)) w'"
    if "download_resumable E get bucket pre tmp f (fs_join tmp (f_path f)) mode w = (Inr b, w')" for b w'
  proof -
    have "download E get bucket pre tmp j (fs_join tmp (f_path f)) w = (Inr b, w')"
      using that by (simp add: download_def j_def)
    from s3.gives [OF this assms(1,2) j] show ?thesis by (simp add: j_def)
  qed
  then show ?thesis by (auto split: prod.splits sum.splits)
qed

theorem resumed_download_verified_witness:
  "\<exists>w'. download_resumable calm get_hi ''b'' ''p'' [''t''] one_file [''t'', ''a''] 420 tmp_world = (Inr False, w') \<and>
     holds calm one_file 420 [''t'', ''a''] w'"
proof -
  have j: "fs_join [''t''] (f_path one_file) = [''t'', ''a'']" by (simp add: one_file_def fs_join_def)
  have "case download_resumable calm get_hi ''b'' ''p'' [''t''] one_file (fs_join [''t''] (f_path one_file)) 420 tmp_world of
    (r, w') \<Rightarrow> (case r of Inl e \<Rightarrow> True | Inr b \<Rightarrow> holds calm one_file 420 (fs_join [''t''] (f_path one_file)) w')"
    by (rule resumed_download_verified) (simp_all add: tmp_wf plain_comp_def one_file_def is_sha256_hex plain_path_def resume_dir_def)
  with hi_downloaded show ?thesis unfolding j by fastforce
qed

text \<open>C28: Of the jobs planned for a manifest, at most one resumes any given content, only downloads
  resume, and only those of at least \<open>minResumeSize\<close> bytes.\<close>

theorem one_resume_per_content:
  "case plan_jobs P client m live index (files_of m) [] of
     Inl _ \<Rightarrow> True
   | Inr (loc, rem) \<Rightarrow> distinct (map (f_sha256 \<circ> j_file) (filter j_resume rem)) \<and>
       list_all (\<lambda>j. min_resume_size \<le> f_size (j_file j)) (filter j_resume rem) \<and> filter j_resume loc = []"
  using plan_jobs_resume [of P client m live index "files_of m" "[]"]
  by (auto simp: list_all_iff filter_empty_conv split: sum.splits)

text \<open>C29: The index of a hashed tree does not depend on the order in which Go ranges over the map:
  among files of one content the first path wins.\<close>

theorem by_content_deterministic:
  assumes "distinct (map fst files)" "set files' = set files"
  shows "by_content files' = by_content files"
  by (rule by_content_order [OF assms])

theorem by_content_deterministic_witness:
  "by_content [(''b'', \<lparr>lf_hash = ''x'', lf_size = 1, lf_mode = 420\<rparr>), (''a'', \<lparr>lf_hash = ''x'', lf_size = 1, lf_mode = 420\<rparr>)]
   = by_content [(''a'', \<lparr>lf_hash = ''x'', lf_size = 1, lf_mode = 420\<rparr>), (''b'', \<lparr>lf_hash = ''x'', lf_size = 1, lf_mode = 420\<rparr>)]"
  by (rule by_content_deterministic) auto

text \<open>C30: A body of another length or hash than the entry's fails \<open>writeVerified\<close> with the mismatch
  error that makes a pull fetch the manifest again.\<close>

theorem write_rejects_mismatch:
  assumes "\<And>t c. \<not> fault E t c" "r_err r = None" "look w dst = None" "look w (parent dst) = Some Dir"
    and "0 \<le> f_size f" "f_size f < max_int64"
    and "int (length (r_data r)) \<noteq> f_size f \<or> sha256_hex (r_data r) \<noteq> f_sha256 f"
  shows "\<exists>d w'. write_verified E r f dst mode w = (Some (E_mismatch (f_path f) d), w')"
  by (rule write_verified_mismatch [OF assms])

theorem write_rejects_mismatch_witness:
  "\<exists>d w'. write_verified calm \<lparr>r_data = ''hello'', r_err = None\<rparr> hi_file [''r'', ''n''] 420 hi_world
     = (Some (E_mismatch (f_path hi_file) d), w')"
  by (rule write_rejects_mismatch) (simp_all add: hi_look parent_def hi_file_def max_int64_def)

section \<open>Limits\<close>

text \<open>C32: The content limit is enforced on the true sum: for a valid manifest the check in 64-bit
  arithmetic accepts exactly when the unbounded sum of the sizes is within the limit.\<close>

theorem content_limit_exact:
  assumes "valid_manifest P m" "0 \<le> sy_max_content s" "sy_max_content s \<le> max_int64"
  shows "check_content_size s m = None \<longleftrightarrow> sum_list (map f_size (files_of m)) \<le> sy_max_content s"
  by (rule check_content_size_sum [OF assms])

theorem content_limit_exact_witness:
  "\<exists>s. new_syncer id [''r''] (plain_opts :: unit options) = Inr s \<and> check_content_size s hi_manifest = None"
proof -
  obtain s where s: "new_syncer id [''r''] (plain_opts :: unit options) = Inr s" "sy_max_content s = 68719476736"
    by (simp add: new_syncer_def plain_opts_def default_max_content_def)
  have "check_content_size s hi_manifest = None"
    using content_limit_exact [OF hi_valid, of s] by (simp add: s max_int64_def) (simp add: hi_manifest_def files_of_def hi_file_def)
  with s show ?thesis by blast
qed

text \<open>C33: With \<open>MaxManifestBytes\<close> the largest \<open>int64\<close>, \<open>fetchManifest\<close>'s limit \<open>maxManifest + 1\<close>
  wraps below zero, nothing is read, and every pull fails.\<close>

theorem largest_manifest_limit_fails:
  assumes "op_max_manifest opts = max_int64"
  shows "\<exists>e. fst (pull_with_manifest E order get bucket pre dest opts w) = Inl e"
  by (rule pull_max_manifest [OF assms])

theorem largest_manifest_limit_fails_witness:
  "\<exists>e. fst (pull_with_manifest calm id get_none ''b'' ''p'' [''r''] (plain_opts\<lparr>op_max_manifest := max_int64\<rparr>) old_world) = Inl e"
  by (rule largest_manifest_limit_fails) simp

text \<open>C36: \<open>renameRetry\<close> makes at most \<open>swapAttempts\<close> renames, however they fail.\<close>

theorem rename_attempts_bounded:
  "w_tick (snd (rename_retry E s frm to w)) \<le> w_tick w + nat (sy_attempts s)"
  using rename_loop_ticks [OF prod.collapse [symmetric], of E frm to "nat (sy_attempts s)" None w]
  by (auto simp: rename_retry_def split: prod.splits option.splits)

section \<open>The preview of a pull\<close>

text \<open>C27: \<open>DryRun\<close> changes no file and asks the server for at most one object.\<close>

theorem dry_run_only_reads:
  "case pull_dry_run E get bucket pre dest opts w of
    (r, w') \<Rightarrow> same_fs w w' \<and> w_s3 w' \<in> insert (w_s3 w) (range (\<lambda>key. snd (get (get_request bucket key) (w_s3 w))))"
proof (cases "new_syncer id dest opts")
  case (Inl e)
  then show ?thesis by (simp add: pull_dry_run_def same.refl)
next
  case (Inr s)
  let ?s = "s\<lparr>sy_client := True, sy_bucket := bucket, sy_prefix := trim_suffix pre ''/''\<rparr>"
  obtain r w' where d: "dry_plan E get ?s w = (r, w')" by fastforce
  with Inr dry_plan_reads [OF d] show ?thesis by (auto simp: pull_dry_run_def)
qed

text \<open>C26: The preview agrees with staging: for the same hashed trees it lists as downloads the paths
  of the jobs that \<open>stage\<close> fetches or takes from the partial tree, as copies those of a mode
  change, and counts the links; it never promises more resumed downloads than staging would
  try.\<close>

theorem dry_run_agrees_with_staging:
  "case dry_loop E s m live index (files_of m) [] (empty_plan m) w of
     (Inl e, w') \<Rightarrow> True
   | (Inr p, w') \<Rightarrow>
       (case plan_jobs (plat E) True m live index (files_of m) [] of
          Inl e \<Rightarrow> False
        | Inr (loc, rem) \<Rightarrow>
            pl_download (finish_plan m live p) = sort (map job_path rem @ map job_path (with_act ActReuse loc)) \<and>
            pl_copy (finish_plan m live p) = sort (map job_path (with_act ActCopy loc)) \<and>
            pl_linked p = length (with_act ActLink loc) \<and> pl_reused p = length (with_act ActReuse loc) \<and>
            pl_resumed p \<le> length (filter j_resume rem))"
proof -
  have "case plan_jobs (plat E) True m live index (files_of m) [] of
          Inl e \<Rightarrow> False
        | Inr (loc, rem) \<Rightarrow>
            pl_download (finish_plan m live p) = sort (map job_path rem @ map job_path (with_act ActReuse loc)) \<and>
            pl_copy (finish_plan m live p) = sort (map job_path (with_act ActCopy loc)) \<and>
            pl_linked p = length (with_act ActLink loc) \<and> pl_reused p = length (with_act ActReuse loc) \<and>
            pl_resumed p \<le> length (filter j_resume rem)"
    if r: "dry_loop E s m live index (files_of m) [] (empty_plan m) w = (Inr p, w')" for p w'
  proof -
    obtain loc rem where j: "plan_jobs (plat E) True m live index (files_of m) [] = Inr (loc, rem)"
      using dry_loop_plans [OF r] by blast
    show ?thesis using finish_plan_jobs [OF r j] by (simp add: j)
  qed
  then show ?thesis by (auto split: prod.splits sum.splits)
qed

section \<open>Building a manifest\<close>

text \<open>C23: Build and verify round trip: the manifest \<open>Build\<close> makes of a tree is valid, matches it, never
  lists a file named as the manifest itself at the root, and \<open>VerifyTree\<close> accepts the tree.\<close>

theorem build_verifies:
  assumes "\<And>t c. \<not> fault E t c" "wf w" "look w root = Some Dir"
    and "\<And>i x. ino w i = Some x \<Longrightarrow> int (length (i_data x)) < max_int64"
  shows "case build E root w of
      (Inl e, w') \<Rightarrow> same_fs w w'
    | (Inr m, w') \<Rightarrow> same_fs w w' \<and> valid_manifest (plat E) m \<and> manifest_name \<notin> f_path ` set (files_of m) \<and>
        fst (verify_tree E root m w') = None"
  using build_verify [OF assms] build_same [of E root w] by (auto split: prod.splits sum.splits)

theorem build_verifies_witness:
  "case build calm [''r''] hi_world of (Inl e, w') \<Rightarrow> same_fs hi_world w' | (Inr m, w') \<Rightarrow> fst (verify_tree calm [''r''] m w') = None"
proof -
  have small: "int (length (i_data x)) < max_int64" if "ino hi_world i = Some x" for i x
    using that by (auto simp: hi_ino max_int64_def split: if_splits)
  have "case build calm [''r''] hi_world of (Inl e, w') \<Rightarrow> same_fs hi_world w'
    | (Inr m, w') \<Rightarrow> same_fs hi_world w' \<and> valid_manifest (plat calm) m \<and> manifest_name \<notin> f_path ` set (files_of m) \<and>
        fst (verify_tree calm [''r''] m w') = None"
    by (rule build_verifies) (simp_all add: hi_wf hi_look small)
  then show ?thesis by (auto split: prod.splits sum.splits)
qed

text \<open>C40: The mode string \<open>Build\<close> writes for any permission bits reads back as exactly those bits.\<close>

theorem mode_roundtrip:
  assumes "unat md < 512"
  shows "file_mode (f\<lparr>f_mode := fmt_mode md\<rparr>) = Inr md"
  by (rule file_mode_fmt [OF assms])

theorem mode_roundtrip_witness: "file_mode (hi_file\<lparr>f_mode := fmt_mode 493\<rparr>) = Inr 493"
  by (rule mode_roundtrip) simp

section \<open>Pruning\<close>

text \<open>C9: Prune asks the server to delete, in batches of at most 1000, only keys of listed objects that
  the manifest it fetched neither names nor is stored under and that are older than the
  minimum age; without a manifest and a listing it sends no request.\<close>

theorem prune_deletes_only_stale:
  "case prune P now (plain get) (plain pages) (recorded del) bucket pre0 opts (s, []) of
    (r, (s', reqs)) \<Rightarrow>
      let pre = trim_suffix pre0 ''/''; key = prune_manifest_key pre (po_manifest_key opts)
      in reqs = [] \<or>
        (\<exists>m outs s1 s2. prune_fetch_manifest P get bucket key s = (Inr m, s1) \<and>
          pages (list_request bucket pre) s1 = (Inr outs, s2) \<and>
          list_all (\<lambda>rq. di_bucket rq = bucket \<and> di_keys rq \<noteq> [] \<and> length (di_keys rq) \<le> 1000 \<and>
            list_all (stale now pre key opts m outs) (di_keys rq)) reqs)"
  using prune_recorded [OF _ refl refl, of P now get pages del bucket pre0 opts s]
  by (auto simp: Let_def list_all_iff split: prod.splits)

text \<open>C31: A missing, unreadable or invalid manifest is fatal: Prune returns that error, deletes nothing
  and counts nothing.\<close>

theorem prune_needs_manifest:
  assumes "fst (prune_fetch_manifest P get bucket (prune_manifest_key (trim_suffix pre ''/'') (po_manifest_key opts)) s) = Inl e"
  shows "case prune P now (plain get) (plain pages) (recorded del) bucket pre opts (s, []) of
    ((st, err), (s', reqs)) \<Rightarrow> err = Some e \<and> reqs = [] \<and> ps_deleted st = 0 \<and> ps_listed st = 0"
  using assms by (auto simp: prune_def prune_classify_def prune_fetch_plain Let_def split: prod.splits sum.splits)

theorem prune_needs_manifest_witness:
  "\<exists>e. case prune linux 0 (plain get_missing) (plain (\<lambda>i s. (Inr [], s))) (recorded (\<lambda>i s. (Inl (E_api ''x''), s))) ''b'' ''p''
       \<lparr>po_manifest_key = [], po_min_age = 0\<rparr> ((), []) of
    ((st, err), (s', reqs)) \<Rightarrow> err = Some e \<and> reqs = []"
proof -
  obtain e where e: "fst (prune_fetch_manifest linux get_missing ''b''
      (prune_manifest_key (trim_suffix ''p'' ''/'') []) ()) = Inl e"
    by (simp add: prune_fetch_manifest_def get_missing_def is_no_such_key_def)
  have "case prune linux 0 (plain get_missing) (plain (\<lambda>i s. (Inr [], s))) (recorded (\<lambda>i s. (Inl (E_api ''x''), s))) ''b'' ''p''
       \<lparr>po_manifest_key = [], po_min_age = 0\<rparr> ((), []) of
    ((st, err), (s', reqs)) \<Rightarrow> err = Some e \<and> reqs = [] \<and> ps_deleted st = 0 \<and> ps_listed st = 0"
    by (rule prune_needs_manifest) (simp add: e)
  then show ?thesis by (auto split: prod.splits)
qed

section \<open>Pushing\<close>

text \<open>C3: A push that succeeds, to any store that keeps S3's contract for puts with length and checksum,
  has published the manifest; and, except with \<open>-adopt\<close>, which uploads the manifest alone, every
  file of the built manifest is in place under its key (its bytes have the entry's size and
  SHA-256).\<close>

theorem push_publishes:
  assumes "content_store put head get objects ok" "ok (w_s3 w)" "wf w" "look w root = Some Dir"
    and "\<And>xs. mset (order xs) = mset xs"
    and "prepare E (trim_suffix pre ''/'') root (pu_manifest_key opts) w = (Inr (m, key, raw), w1)"
    and "push E order get head put bucket pre root opts w = (Inr st, w')"
  shows "published objects (plat E) key raw (w_s3 w') \<and>
    (pu_adopt opts \<or> (\<forall>f \<in> set (files_of m). in_place objects (trim_suffix pre ''/'') f (w_s3 w')))"
  using content_store.push_effect(2) [OF assms(1,7,2,6,3,4) _ assms(5)] content_store.push_adopts(2) [OF assms(1,7,2,6,3,4)]
  by (cases "pu_adopt opts") simp_all

theorem push_publishes_witness:
  "\<exists>raw st w'. push calm id (fake_get (quiet no_hooks)) (fake_head (quiet no_hooks)) (fake_put no_hooks) ''b'' ''p'' [''e''] full_push
       one_world = (Inr st, w') \<and> published fake_object linux ''p/manifest.json'' raw (w_s3 w') \<and> in_place fake_object ''p'' one_file (w_s3 w')"
proof -
  obtain m raw w1 where r: "prepare calm (trim_suffix ''p'' ''/'') [''e''] (pu_manifest_key full_push) one_world
      = (Inr (m, ''p/manifest.json'', raw), w1)" "files_of m = [one_file]"
    using one_prepared by blast
  obtain st w' where p: "push calm id (fake_get (quiet no_hooks)) (fake_head (quiet no_hooks)) (fake_put no_hooks) ''b'' ''p'' [''e'']
      full_push one_world = (Inr st, w')"
    using one_pushed by blast
  have t: "trim_suffix ''p'' ''/'' = ''p''" by code_simp
  have "published fake_object (plat calm) ''p/manifest.json'' raw (w_s3 w') \<and>
    (pu_adopt full_push \<or> (\<forall>f \<in> set (files_of m). in_place fake_object (trim_suffix ''p'' ''/'') f (w_s3 w')))"
    by (rule push_publishes [OF fake.content_store_axioms one_world_ok one_wf _ _ r(1) p]) (simp_all add: one_look)
  with p r(2) show ?thesis by (auto simp: full_push_def t)
qed

text \<open>C8: The manifest is never published ahead of its content: at any end of a push without \<open>-adopt\<close>,
  however it fails, either the manifest's object is as it was or every file is in place. No end
  of a push touches an object other than the manifest's and the files', and with \<open>-adopt\<close> the
  manifest's is the only one it can touch.\<close>

theorem push_manifest_last:
  assumes "content_store put head get objects ok" "ok (w_s3 w)" "wf w" "look w root = Some Dir"
    and "\<And>xs. mset (order xs) = mset xs"
    and "prepare E (trim_suffix pre ''/'') root (pu_manifest_key opts) w = (Inr (m, key, raw), w1)"
  shows "case push E order get head put bucket pre root opts w of
    (r, w') \<Rightarrow>
      (pu_adopt opts \<or> objects (w_s3 w') key = objects (w_s3 w) key \<or>
        (\<forall>f \<in> set (files_of m). in_place objects (trim_suffix pre ''/'') f (w_s3 w'))) \<and>
      (\<forall>k. k \<noteq> key \<longrightarrow> pu_adopt opts \<or> k \<notin> (\<lambda>f. path_join (trim_suffix pre ''/'') (f_path f)) ` set (files_of m) \<longrightarrow>
        objects (w_s3 w') k = objects (w_s3 w) k)"
proof -
  obtain r w' where run: "push E order get head put bucket pre root opts w = (r, w')" by fastforce
  show ?thesis
    using content_store.push_effect(1) [OF assms(1) run assms(2,6,3,4) _ assms(5)]
      content_store.push_others [OF assms(1) run assms(2,6,3,4,5)] unfolding run prod.case by blast
qed

theorem push_manifest_last_witness:
  "case push calm id (fake_get (quiet no_hooks)) (fake_head (quiet no_hooks)) (fake_put no_hooks) ''b'' ''p'' [''e''] full_push one_world of
    (r, w') \<Rightarrow> (fake_object (w_s3 w') ''p/manifest.json'' = None \<or> in_place fake_object ''p'' one_file (w_s3 w')) \<and>
      fake_object (w_s3 w') ''p/b'' = None"
proof -
  obtain m raw w1 where r: "prepare calm (trim_suffix ''p'' ''/'') [''e''] (pu_manifest_key full_push) one_world
      = (Inr (m, ''p/manifest.json'', raw), w1)" "files_of m = [one_file]"
    using one_prepared by blast
  have t: "trim_suffix ''p'' ''/'' = ''p''" "path_join ''p'' ''a'' = ''p/a''" "f_path one_file = ''a''" "\<not> pu_adopt full_push"
    by (code_simp, code_simp, simp_all add: one_file_def full_push_def)
  have "case push calm id (fake_get (quiet no_hooks)) (fake_head (quiet no_hooks)) (fake_put no_hooks) ''b'' ''p'' [''e''] full_push
      one_world of
    (r, w') \<Rightarrow>
      (pu_adopt full_push \<or> fake_object (w_s3 w') ''p/manifest.json'' = fake_object (w_s3 one_world) ''p/manifest.json'' \<or>
        (\<forall>f \<in> set (files_of m). in_place fake_object (trim_suffix ''p'' ''/'') f (w_s3 w'))) \<and>
      (\<forall>k. k \<noteq> ''p/manifest.json'' \<longrightarrow>
        pu_adopt full_push \<or> k \<notin> (\<lambda>f. path_join (trim_suffix ''p'' ''/'') (f_path f)) ` set (files_of m) \<longrightarrow>
        fake_object (w_s3 w') k = fake_object (w_s3 one_world) k)"
    by (rule push_manifest_last [OF fake.content_store_axioms one_world_ok one_wf _ _ r(1)]) (simp_all add: one_look)
  moreover obtain q w' where "push calm id (fake_get (quiet no_hooks)) (fake_head (quiet no_hooks)) (fake_put no_hooks) ''b'' ''p'' [''e'']
      full_push one_world = (q, w')"
    by fastforce
  ultimately show ?thesis using t by (simp add: r(2) one_world_empty)
qed



section \<open>Publishing and pulling together\<close>

text \<open>C6: What \<open>Encode\<close> writes of a valid manifest whose paths are valid UTF-8, \<open>Decode\<close> reads back as
  the same manifest, sorted by path.\<close>

theorem encode_decode:
  assumes "valid_manifest P m" "m_version m = 1"
    and "list_all (\<lambda>f. is_int64 (f_size f)) (files_of m)" "list_all (\<lambda>f. valid_utf8 (f_path f)) (files_of m)"
  shows "decode P (snd (encode m)) = Inr (sort_files m)"
  using decode_encode [OF assms(1) _ assms(3,4)] assms(2) by (simp add: manifest_version_def)

theorem encode_decode_witness: "decode linux (snd (encode hi_manifest)) = Inr (sort_files hi_manifest)"
proof (rule encode_decode [OF hi_valid])
  have "valid_utf8 (f_path hi_file)" by (rule ascii_valid) (simp add: hi_file_def)
  then show "list_all (\<lambda>f. valid_utf8 (f_path f)) (files_of hi_manifest)" by (simp add: hi_manifest_def files_of_def)
qed (simp_all add: hi_manifest_def files_of_def hi_file_def is_int64_def)

text \<open>C38: The encoded bytes depend on the entries alone: manifests that list the same files in another
  order encode to the same bytes.\<close>

theorem encode_order_free:
  assumes "mset fs = mset gs" "distinct (map f_path fs)"
  shows "snd (encode \<lparr>m_version = v, m_files = Some fs\<rparr>) = snd (encode \<lparr>m_version = v, m_files = Some gs\<rparr>)"
  by (rule encode_order [OF assms])

theorem encode_order_free_witness:
  "snd (encode \<lparr>m_version = 1, m_files = Some [hi_file, hi_file\<lparr>f_path := ''b''\<rparr>]\<rparr>)
    = snd (encode \<lparr>m_version = 1, m_files = Some [hi_file\<lparr>f_path := ''b''\<rparr>, hi_file]\<rparr>)"
  by (rule encode_order_free) (simp_all add: hi_file_def)

text \<open>C39: A file name that is not valid UTF-8 does not survive publication. \<open>Decode\<close> either refuses what
  \<open>Encode\<close> wrote, or reads every path as \<open>coerce_utf8\<close> changes it; and then such a name is not in the
  manifest read back, which instead lists a path that no file of the original manifest has.\<close>

theorem encode_coerces_names:
  assumes "list_all (\<lambda>f. is_int64 (f_size f)) (files_of m)" "m_version m = 1"
    and "f \<in> set (files_of m)" "\<not> valid_utf8 (f_path f)"
  shows "case decode P (snd (encode m)) of
      Inl e \<Rightarrow> validate P (coerce_manifest (sort_files m)) = Some e
    | Inr m' \<Rightarrow> map f_path (files_of m') = map coerce_utf8 (map f_path (sort_key f_path (files_of m))) \<and>
        f_path f \<notin> f_path ` set (files_of m') \<and>
        coerce_utf8 (f_path f) \<in> f_path ` set (files_of m') \<and> coerce_utf8 (f_path f) \<notin> f_path ` set (files_of m)"
proof -
  let ?m = "coerce_manifest (sort_files m)"
  have fs: "files_of (sort_files m) = sort_key f_path (files_of m)" by (rule files_sorted)
  have paths: "map f_path (files_of ?m) = map coerce_utf8 (map f_path (sort_key f_path (files_of m)))"
    unfolding coerced_paths fs ..
  have "set (map f_path (files_of ?m)) = coerce_utf8 ` f_path ` set (files_of m)"
    unfolding paths by (simp add: image_image)
  then have "coerce_utf8 (f_path f) \<in> f_path ` set (files_of ?m)" using assms(3) by auto
  moreover have "f \<in> set (files_of (sort_files m))" "set (files_of (sort_files m)) = set (files_of m)"
    using assms(3) by (simp_all add: fs)
  ultimately show ?thesis
    using decode_encode_coerced [OF _ assms(1), of P] assms(2) paths coerced_name_lost [of P "sort_files m" f] assms(4)
    by (auto simp: manifest_version_def Let_def validate_iff split: option.splits)
qed

theorem encode_coerces_names_witness:
  "\<exists>m'. decode linux (snd (encode \<lparr>m_version = 1, m_files = Some [one_file\<lparr>f_path := [CHR 0xFF]\<rparr>]\<rparr>)) = Inr m' \<and>
     [CHR 0xFF] \<notin> f_path ` set (files_of m')"
proof -
  let ?f = "one_file\<lparr>f_path := [CHR 0xFF]\<rparr>" let ?m = "\<lparr>m_version = 1, m_files = Some [?f]\<rparr>"
  have f: "?f \<in> set (files_of ?m)" "\<not> valid_utf8 (f_path ?f)" by (simp add: files_of_def, simp, code_simp)
  have "validate linux (coerce_manifest (sort_files ?m)) = None" by (rule coerced_valid)
  with encode_coerces_names [OF _ _ f, of linux] show ?thesis
    by (simp add: files_of_def one_file_def is_int64_def split: sum.splits)
qed

text \<open>C5: The packages together: a pull, elsewhere and later, that installs the manifest bytes a push
  prepared leaves the pushed tree's files: the same paths, and files of the same length, SHA-256
  and mode. File names that are not valid UTF-8 are excluded: JSON cannot hold them.\<close>

theorem push_pull_mirrors:
  assumes "prepare E pre root custom w = (Inr (m, key, raw), w1)" "wf w" "look w root = Some Dir"
    and "list_all (\<lambda>f. valid_utf8 (f_path f)) (files_of m)" "list_all (\<lambda>f. is_int64 (f_size f)) (files_of m)"
    and "pull_with_manifest E' order get bucket pre' dest opts v = (Inr res, v')" "pr_manifest res = raw" "plat E' = plat E"
    and "wf v" "dest \<noteq> []" "plain_comps dest" "\<And>js. set (order js) = set js"
  shows "mirrors (plat E) (tree_at w root) (live_at v' dest)"
proof -
  have "replace_spec (plat E) (Inr res) (live_at v dest) (live_at v' dest)"
    using pull_replaces [OF assms(6,9-12)] assms(8) by simp
  then show ?thesis by (rule pushed_then_pulled [OF assms(1-5) _ assms(7)])
qed

theorem push_pull_mirrors_witness:
  "\<exists>res v'. pull_with_manifest calm id get_pushed ''b'' ''p'' [''r''] plain_opts old_world = (Inr res, v') \<and>
     mirrors linux (tree_at push_world [''e'']) (live_at v' [''r''])"
proof -
  obtain m key w1 where p: "prepare calm ''p'' [''e''] [] push_world = (Inr (m, key, push_raw), w1)" "files_of m = []"
    using pushed_prepare by (auto split: prod.splits sum.splits)
  obtain res v' where q: "pull_with_manifest calm id get_pushed ''b'' ''p'' [''r''] plain_opts old_world = (Inr res, v')"
    "pr_manifest res = push_raw"
    using pushed_pull by (auto split: prod.splits sum.splits)
  have "mirrors (plat calm) (tree_at push_world [''e'']) (live_at v' [''r''])"
    by (rule push_pull_mirrors [OF p(1) push_wf _ _ _ q]) (simp_all add: push_look p(2) old_wf plain_comp_def)
  with q show ?thesis by auto
qed

text \<open>C37: The counts a successful pull reports add up: every entry of the manifest was downloaded, linked,
  copied or reused, exactly once, and the resumed downloads are among the downloads.\<close>

theorem pull_counts_add_up:
  assumes "\<And>js. length (order js) = length js"
  shows "case pull_with_manifest E order get bucket pre dest opts w of
      (Inl e, w') \<Rightarrow> True
    | (Inr res, w') \<Rightarrow> adds_up (plat E) res"
  using pull_counts [OF assms] by (auto split: prod.splits sum.splits)

theorem pull_counts_add_up_witness:
  "\<exists>res w'. pull_with_manifest calm id get_none ''b'' ''p'' [''r''] plain_opts old_world = (Inr res, w') \<and> adds_up linux res"
  using old_pull pull_counts_add_up [of id calm get_none "''b''" "''p''" "[''r'']" plain_opts old_world]
  by (auto split: prod.splits sum.splits)

section \<open>The store of the tests\<close>

text \<open>C10: Against a store that lists in pages and deletes what it is asked to, a prune removes exactly the
  stale objects, those under the prefix that the manifest does not name and that are old enough,
  leaves every other object as it was and counts what it removed.\<close>

theorem prune_removes_stale:
  assumes "\<And>k. hk_delete_err h k = None" "pre = trim_suffix pre0 ''/''" "key = prune_manifest_key pre (po_manifest_key opts)"
    and "prune_fetch_manifest P (fake_get (quiet h)) bucket key f = (Inr m, f1)"
  shows "case prune P now (fake_get (quiet h)) fake_pages (fake_delete_objects h) bucket pre0 opts f of
    ((st, err), f') \<Rightarrow> err = None \<and>
      (\<forall>k. fake_object f' k = (if stale_object (now - po_min_age opts) pre key m f k then None else fake_object f k)) \<and>
      ps_deleted st = int (card {k. stale_object (now - po_min_age opts) pre key m f k})"
proof -
  obtain st err f' where r: "prune P now (fake_get (quiet h)) fake_pages (fake_delete_objects h) bucket pre0 opts f = ((st, err), f')"
    by (metis surj_pair)
  from prune_store [OF assms r] show ?thesis by (simp add: r)
qed

theorem prune_removes_stale_witness:
  "case prune linux 9 (fake_get (quiet no_hooks)) fake_pages (fake_delete_objects no_hooks) ''b'' ''p'' prune_now stale_store of
    ((st, err), f') \<Rightarrow> err = None \<and> fake_object f' ''p/x'' = None \<and> fake_object f' ''p/manifest.json'' = Some none_json"
proof -
  obtain m f1 where m: "prune_fetch_manifest linux (fake_get (quiet no_hooks)) ''b'' ''p/manifest.json'' stale_store = (Inr m, f1)"
    "files_of m = []"
    using stale_fetch by (auto split: prod.splits sum.splits)
  have c: "''p'' = trim_suffix ''p'' ''/''" "''p/manifest.json'' = prune_manifest_key ''p'' (po_manifest_key prune_now)" by code_simp+
  have "case prune linux 9 (fake_get (quiet no_hooks)) fake_pages (fake_delete_objects no_hooks) ''b'' ''p'' prune_now stale_store of
    ((st, err), f') \<Rightarrow> err = None \<and>
      (\<forall>k. fake_object f' k = (if stale_object (9 - po_min_age prune_now) ''p'' ''p/manifest.json'' m stale_store k then None
         else fake_object stale_store k)) \<and>
      ps_deleted st = int (card {k. stale_object (9 - po_min_age prune_now) ''p'' ''p/manifest.json'' m stale_store k})"
    by (rule prune_removes_stale [OF _ c m(1)]) (simp add: no_hooks_def)
  moreover have "stale_object (9 - po_min_age prune_now) ''p'' ''p/manifest.json'' m stale_store ''p/x''"
    "\<not> stale_object (9 - po_min_age prune_now) ''p'' ''p/manifest.json'' m stale_store ''p/manifest.json''"
    "fake_object stale_store ''p/manifest.json'' = Some none_json"
    by (simp_all add: stale_object_def m(2) stale_store_simps list_prefix_def prune_now_def)
  ultimately show ?thesis by (auto split: prod.splits)
qed

text \<open>C18: A kept prefix is continued: asked for the rest of the object a prefix of it came from, the store
  answers with exactly the missing bytes, and the checks of \<open>checkContinues\<close> accept the answer.\<close>

theorem resume_is_served:
  assumes "fake_object f key = Some body" "n < length body" "int (length body) < 2 ^ 62" "f_size mf = int (length body)"
    and "px_etag info = fake_etag f key" "px_version info = [] \<or> px_version info = to_string (map_of (fk_versions f) key)"
  shows "\<exists>out f'. fake_get no_hooks (range_request b key (int n) info) f = (Inr out, f') \<and>
    r_data (go_body out) = drop n body \<and> check_continues out mf (int n) info = None"
  by (rule fake_continues [OF assms])

theorem resume_is_served_witness:
  "\<exists>out f'. fake_get no_hooks (range_request ''b'' ''p/x'' 1 \<lparr>px_sha256 = [], px_size = 2, px_etag = ''e'', px_version = []\<rparr>) stale_store
      = (Inr out, f') \<and> r_data (go_body out) = ''i''"
proof -
  have "\<exists>out f'. fake_get no_hooks (range_request ''b'' ''p/x'' (int 1) \<lparr>px_sha256 = [], px_size = 2, px_etag = ''e'', px_version = []\<rparr>)
      stale_store = (Inr out, f') \<and> r_data (go_body out) = drop 1 ''hi'' \<and>
      check_continues out hi_file (int 1) \<lparr>px_sha256 = [], px_size = 2, px_etag = ''e'', px_version = []\<rparr> = None"
    by (rule resume_is_served) (simp_all add: stale_store_simps hi_file_def)
  then show ?thesis by auto
qed

section \<open>Credentials\<close>

text \<open>C15: The signature of a \<open>CreateSession\<close> request covers the request that is sent: in whatever order
  its headers are read, the canonical request computed from it is the one whose digest the
  signer signed, and the request carries the leaf and, apart from it, the intermediates.\<close>

theorem signed_request_verifies:
  assumes "header_ok (rq_header req)" "sign_x509 P req ph sign leaf chain region now s = ((None, req'), s')"
    and "mset h = mset (rq_header req')"
  shows "(\<exists>algorithm sig. x509_algorithm (ct_key leaf) = Inr algorithm \<and>
      sign (sha256 (string_to_sign (fst (canonical_request P (req'\<lparr>rq_header := h\<rparr>) ph)) algorithm (long_date now) (scope_of now region))) s
        = (Inr sig, s') \<and>
      map_of h ''Authorization'' =
        Some [authorization algorithm leaf (scope_of now region) (snd (canonical_request P (req'\<lparr>rq_header := h\<rparr>) ph)) sig]) \<and>
    map_of h ''X-Amz-X509'' = Some [base64_encode (ct_raw leaf)] \<and>
    (encode_chain (strip_leaf leaf chain) \<noteq> [] \<longrightarrow>
      (\<exists>v. map_of h ''X-Amz-X509-Chain'' = Some [v] \<and>
        split_on CHR '','' v = map (\<lambda>c. base64_encode (ct_raw c)) (strip_leaf leaf chain) \<and>
        base64_encode (ct_raw leaf) \<notin> set (split_on CHR '','' v)))"
  using signature_verifies [OF assms] signed_identity [OF assms] by blast

theorem signed_request_verifies_witness:
  "\<exists>req'. sign_x509 linux some_request ''h'' const_signer some_leaf [some_leaf, some_ca] ''us-east-1'' some_time () = ((None, req'), ()) \<and>
     map_of (rev (rq_header req')) ''X-Amz-X509'' = Some [base64_encode ''leaf'']"
proof -
  obtain req' where r: "sign_x509 linux some_request ''h'' const_signer some_leaf [some_leaf, some_ca] ''us-east-1'' some_time () = ((None, req'), ())"
    using some_signed by blast
  have "header_ok (rq_header some_request)" by (simp add: some_request_def header_ok_def)
  from signed_request_verifies [OF this r, of "rev (rq_header req')"] r show ?thesis by (simp add: some_leaf_def)
qed

text \<open>C16: \<open>Retrieve\<close> leaks no identity: whatever fails in the scan or in the exchange, every identity the
  store handed out is closed again, exactly once.\<close>

theorem retrieve_closes_identities:
  assumes "\<And>co i s r s'. create co i s = (r, s') \<Longrightarrow> snd s' = snd s"
  shows "case retrieve (find_identity (counted_store st) (counted_ids ids)) (fetch_session P arn parse_time create (counted_ids ids))
      (id_close (counted_ids ids)) p s of
    (r, s') \<Rightarrow> snd s' = snd s"
proof -
  obtain r s' where run: "retrieve (find_identity (counted_store st) (counted_ids ids)) (fetch_session P arn parse_time create (counted_ids ids))
      (id_close (counted_ids ids)) p s = (r, s')"
    by (metis surj_pair)
  have "snd s' = snd s"
  proof (rule selector.retrieve_held [OF _ _ run])
    fix i opts s r s'
    assume "fetch_session P arn parse_time create (counted_ids ids) i opts s = (r, s')"
    then show "snd s' = snd s" by (rule fetch_held [rotated]) (rule assms)
  qed (simp add: counted_ids_def)
  then show ?thesis by (simp add: run)
qed

theorem retrieve_closes_identities_witness:
  "case retrieve (find_identity (counted_store two_store) (counted_ids two_ids))
      (fetch_session linux (\<lambda>_. Inr ''us-east-1'') (\<lambda>_. Inr 0) (\<lambda>co i s. (Inr [], s) :: (session_out res \<times> (nat, unit) counted)) (counted_ids two_ids))
      (id_close (counted_ids two_ids)) any_provider ((), \<lambda>_. 0) of
    (r, s') \<Rightarrow> snd s' = (\<lambda>_. 0)"
proof -
  have "case retrieve (find_identity (counted_store two_store) (counted_ids two_ids))
      (fetch_session linux (\<lambda>_. Inr ''us-east-1'') (\<lambda>_. Inr 0) (\<lambda>co i s. (Inr [], s) :: (session_out res \<times> (nat, unit) counted)) (counted_ids two_ids))
      (id_close (counted_ids two_ids)) any_provider ((), \<lambda>_. 0) of
    (r, s') \<Rightarrow> snd s' = snd ((), \<lambda>_. 0)"
    by (rule retrieve_closes_identities) simp
  then show ?thesis by simp
qed

text \<open>C34: With Roles Anywhere the region is resolved once: a configuration is loaded only after an
  exchange, and for the region the exchange itself uses, whatever the trust anchor's ARN says.\<close>

theorem region_resolved_once:
  "case cf_ra cfg of
      None \<Rightarrow> True
    | Some ra \<Rightarrow>
        (case load_config arn get cache cached load_default cfg s of
           (Inl e, s') \<Rightarrow> True
         | (Inr c, s') \<Rightarrow>
             (\<exists>region cred s1. resolve_region arn' (pv_opts (ra_provider ra region)) = Inr region \<and>
               cached (cache (get (ra_provider ra region)) ra_expiry_window) s = (Inr cred, s1) \<and>
               load_default [With_region region, With_credentials (cache (get (ra_provider ra region)) ra_expiry_window)] s1 = (Inr c, s')))"
  using load_region_agrees [of cfg _ arn get cache cached load_default s _ _ arn']
  by (fastforce split: option.splits prod.splits sum.splits)

section \<open>The command line\<close>


text \<open>C7: A preview is read-only: a command line with \<open>-dry-run\<close>, or a prune without \<open>-apply\<close>, changes no
  file, and its outcome is the same whatever the client's put and delete would do.\<close>

theorem preview_never_writes:
  assumes "fst (parse_args (sv_compile sv) (sv_duration sv) args) = Inr c" "preview c"
  shows "case run sv args w of
    (oc, w') \<Rightarrow> same_fs w w' \<and> run (sv\<lparr>sv_put := put', sv_delete := del'\<rparr>) args w = (oc, w')"
  by (rule run_preview [OF assms])

theorem preview_never_writes_witness:
  "case run no_services [''pull'', ''-bucket'', ''b'', ''-dry-run'', ''dest''] hi_world of
    (oc, w') \<Rightarrow> same_fs hi_world w' \<and>
      run (no_services\<lparr>sv_put := (\<lambda>_ i s. (Inr (), s)), sv_delete := (\<lambda>_ i s. (Inr \<lparr>do_deleted = [], do_errors = []\<rparr>, s))\<rparr>) [''pull'', ''-bucket'', ''b'', ''-dry-run'', ''dest''] hi_world = (oc, w')"
proof -
  obtain c where "fst (parse_args (sv_compile no_services) (sv_duration no_services) [''pull'', ''-bucket'', ''b'', ''-dry-run'', ''dest'']) = Inr c"
    "preview c"
    using dry_args by (auto split: sum.splits)
  then show ?thesis by (rule preview_never_writes)
qed

text \<open>C35: The preview of a push says \<open>would repair\<close> of exactly the files to repair: the binary search of
  the report decides membership, because the plan lists them in order.\<close>

theorem preview_marks_repairs:
  "case push_dry_run E get head bucket pre root opts w of
      (Inl e, w') \<Rightarrow> True
    | (Inr p, w') \<Rightarrow> (upload_verb p path = ''repair'') = (path \<in> set (pn_repair p))"
  using upload_verb_repair [of E get head bucket pre root opts w _ _ path]
  by (fastforce split: prod.splits sum.splits if_splits)

end
